(* ===== verification/Extender_Prelude.thy ===== *)
theory Extender_Prelude
  imports Main "HOL-Library.Word"
begin

text \<open>
  Shared vocabulary of the development: machine integers at their width, clocks, the faults a
  C++ operation can end in, small list and map lemmas, and the interface every state machine of
  the development is proved through (\<open>invariant_system\<close>).

  A time is an integer number of nanoseconds since the epoch of the clock it is read from. All
  durations of the sources are whole multiples of a nanosecond, so comparisons of mixed
  \<open>std::chrono\<close> durations are exact integer comparisons.
\<close>

type_synonym byte = "8 word"
type_synonym u16 = "16 word"
type_synonym u64 = "64 word"
type_synonym bytes = "byte list"
type_synonym time = int

definition milliseconds :: "int \<Rightarrow> time" where
  "milliseconds n = n * 1000000"

definition seconds :: "int \<Rightarrow> time" where
  "seconds n = n * 1000000000"

text \<open>
  What an operation can end in besides returning: undefined behaviour the source does not guard
  against, or an exception that leaves the operation. An operation that can fail returns
  \<open>fault + 'a\<close>.
\<close>

datatype fault =
    BufferOverrun        \<comment> \<open>an access or a pointer past the end of a fixed-size array\<close>
  | IndexOutOfRange      \<comment> \<open>\<open>operator[]\<close> of a vector or array outside its size\<close>
  | EmptyListBack        \<comment> \<open>\<open>back()\<close> or \<open>pop_back()\<close> of an empty \<open>std::list\<close>\<close>
  | DanglingIterator     \<comment> \<open>an iterator whose list node no longer exists\<close>
  | EmptyOptional        \<comment> \<open>\<open>*opt\<close> of an empty \<open>std::optional\<close>\<close>
  | NullPointer          \<comment> \<open>a member call through an empty \<open>std::shared_ptr\<close>\<close>
  | StreamExhausted      \<comment> \<open>the exception of a deserialiser that runs out of bytes\<close>
  | EmptyQueueFront      \<comment> \<open>\<open>front()\<close> or \<open>pop()\<close> of an empty \<open>std::queue\<close>\<close>
  | UseAfterFree         \<comment> \<open>a call through \<open>this\<close> of an object that was destroyed\<close>
  | SocketError          \<comment> \<open>\<open>std::system_error\<close> of an asio socket operation\<close>
  | UnknownProtocol      \<comment> \<open>\<open>std::runtime_error\<close> of an address that is neither IPv4 nor IPv6\<close>
  | TooManyClients       \<comment> \<open>\<open>std::runtime_error\<close> of the shared-memory tunnel's constructor\<close>

named_theorems fault_simps

subsection \<open>Sums as results\<close>

lemma outcome_cases [case_names fault ok]:
  obtains f where "r = Inl f" | x where "r = Inr x"
  by (cases r) auto

subsection \<open>Lists\<close>

lemma map_of_filter_keys:
  "map_of (filter (\<lambda>p. P (fst p)) xs) k = (if P k then map_of xs k else None)"
  by (induction xs) auto

lemma take_append_replicate_back:
  "length xs \<le> n \<Longrightarrow> take (length xs) (xs @ replicate (n - length xs) z) = xs"
  by simp

lemma in_set_butlast_neq_last:
  "distinct xs \<Longrightarrow> xs \<noteq> [] \<Longrightarrow> x \<in> set xs \<Longrightarrow> x \<in> set (butlast xs) \<longleftrightarrow> x \<noteq> last xs"
proof -
  assume d: "distinct xs" and ne: "xs \<noteq> []" and x: "x \<in> set xs"
  have split: "xs = butlast xs @ [last xs]" using ne by simp
  with d have "last xs \<notin> set (butlast xs)"
    by (metis distinct_append disjoint_iff list.set_intros(1))
  moreover from x split have "x \<in> set (butlast xs) \<or> x = last xs"
    by (metis Un_iff empty_iff list.set(1) set_ConsD set_append)
  ultimately show ?thesis by auto
qed

lemma set_butlast_distinct:
  "distinct xs \<Longrightarrow> xs \<noteq> [] \<Longrightarrow> set (butlast xs) = set xs - {last xs}"
  using in_set_butlast_neq_last in_set_butlastD by fastforce

lemma butlast_map_commute: "butlast (map f xs) = map f (butlast xs)"
  by (induction xs) auto

lemma filter_neq_distinct_map:
  "distinct (map f xs) \<Longrightarrow> x \<in> set xs \<Longrightarrow>
     map f (filter (\<lambda>y. f y \<noteq> f x) xs) = filter (\<lambda>k. k \<noteq> f x) (map f xs)"
  by (simp add: filter_map comp_def)

lemma length_filter_neq_distinct:
  "distinct xs \<Longrightarrow> x \<in> set xs \<Longrightarrow> Suc (length (filter (\<lambda>y. y \<noteq> x) xs)) = length xs"
proof (induction xs)
  case (Cons y xs)
  show ?case
  proof (cases "y = x")
    case True
    with Cons.prems have "filter (\<lambda>y. y \<noteq> x) xs = xs" by (auto simp: filter_id_conv)
    with True show ?thesis by simp
  qed (use Cons in auto)
qed simp

lemma nth_list_update_if:
  "j < length xs \<Longrightarrow> xs[i := x] ! j = (if i = j then x else xs ! j)"
  by auto

lemma concat_map_if_singleton:
  "concat (map (\<lambda>x. if P x then [f x] else []) xs) = map f (filter P xs)"
  by (induction xs) auto

subsection \<open>Maps\<close>

definition erase_value :: "'v \<Rightarrow> ('k \<rightharpoonup> 'v) \<Rightarrow> ('k \<rightharpoonup> 'v)" where
  "erase_value v m = (\<lambda>k. if m k = Some v then None else m k)"

lemma erase_value_Some [simp]:
  "erase_value v m k = Some w \<longleftrightarrow> m k = Some w \<and> w \<noteq> v"
  by (auto simp: erase_value_def)

lemma erase_value_ran: "v \<notin> ran (erase_value v m)"
  by (auto simp: ran_def)

subsection \<open>State machines and their invariants\<close>

text \<open>
  A component that is driven by events is a start predicate and a step relation. A predicate
  that holds at the start and is kept by every step holds in every state the component reaches.
\<close>

locale invariant_system =
  fixes init :: "'s \<Rightarrow> bool"
    and step :: "'s \<Rightarrow> 's \<Rightarrow> bool"
    and inv :: "'s \<Rightarrow> bool"
  assumes inv_init: "init s \<Longrightarrow> inv s"
    and inv_step: "step s t \<Longrightarrow> inv s \<Longrightarrow> inv t"
begin

lemma inv_rtranclp: "step\<^sup>*\<^sup>* s t \<Longrightarrow> inv s \<Longrightarrow> inv t"
  by (induction rule: rtranclp_induct) (auto intro: inv_step)

lemma inv_reachable: "init s \<Longrightarrow> step\<^sup>*\<^sup>* s t \<Longrightarrow> inv t"
  by (blast intro: inv_rtranclp inv_init)

end

end
