(* ===== verification/Wire.thy ===== *)
theory Wire
  imports Extender_Prelude
begin

text \<open>
  The byte-stream interface of the Ableton Link library that the tunnel is written against:
  \<open>toNetworkByteStream\<close>, \<open>Deserialize::fromNetworkByteStream\<close> and \<open>sizeInByteStream\<close> of
  \<open>ableton/discovery/NetworkByteStreamSerializable.hpp\<close>, \<open>kMaxMessageSize\<close> of
  \<open>ableton/discovery/v1/Messages.hpp\<close> and the node identifiers of \<open>ableton/link/NodeId.hpp\<close>.
  That library is a submodule, so it is a parameter of the model: a record \<open>codec\<close> of the
  operations, over an arbitrary type of node identifiers. What the tunnel relies on is the
  locale \<open>wire_codec\<close>.
\<close>

record 'n codec =
  kMaxMessageSize :: nat
  size_u8 :: nat
  size_u16 :: nat
  size_node :: nat
  put_u8 :: "byte \<Rightarrow> bytes"
  put_u16 :: "u16 \<Rightarrow> bytes"
  put_node :: "'n \<Rightarrow> bytes"
  get_u8 :: "bytes \<Rightarrow> (byte \<times> bytes) option"
  get_u16 :: "bytes \<Rightarrow> (u16 \<times> bytes) option"
  get_node :: "bytes \<Rightarrow> ('n \<times> bytes) option"
  default_node :: 'n

text \<open>
  The laws: a value is written in exactly \<open>sizeInByteStream\<close> bytes; reading what was written
  gives the value and the rest of the stream; a stream with enough bytes can always be read; the
  largest tunnel header leaves room in a message buffer, whose size fits a 16-bit length field.
\<close>

locale wire_codec =
  fixes C :: "'n codec"
  assumes length_put_u8 [simp]: "length (put_u8 C b) = size_u8 C"
    and length_put_u16 [simp]: "length (put_u16 C w) = size_u16 C"
    and length_put_node [simp]: "length (put_node C n) = size_node C"
    and get_put_u8 [simp]: "get_u8 C (put_u8 C b @ rest) = Some (b, rest)"
    and get_put_u16 [simp]: "get_u16 C (put_u16 C w @ rest) = Some (w, rest)"
    and get_put_node [simp]: "get_node C (put_node C n @ rest) = Some (n, rest)"
    and get_u8_enough: "size_u8 C \<le> length bs \<Longrightarrow> \<exists>b. get_u8 C bs = Some (b, drop (size_u8 C) bs)"
    and get_u16_enough: "size_u16 C \<le> length bs \<Longrightarrow> \<exists>w. get_u16 C bs = Some (w, drop (size_u16 C) bs)"
    and get_node_enough: "size_node C \<le> length bs \<Longrightarrow> \<exists>n. get_node C bs = Some (n, drop (size_node C) bs)"
    and header_fits: "size_u8 C + size_node C + size_node C + size_u16 C < kMaxMessageSize C"
    and buffer_fits_length_field: "kMaxMessageSize C < 2 ^ 16"

subsection \<open>The network encoding\<close>

text \<open>
  An instance: unsigned integers in network byte order, 8-byte node identifiers and 512-byte
  message buffers, the layout that \<open>wireshark_plugin/ablink.lua\<close> dissects and that the comment
  of \<open>UdpTunnel::encapsulatedSize\<close> names.
\<close>

fun be_bytes :: "nat \<Rightarrow> nat \<Rightarrow> bytes" where
  "be_bytes 0 n = []"
| "be_bytes (Suc k) n = be_bytes k (n div 256) @ [of_nat n]"

definition be_value :: "bytes \<Rightarrow> nat" where
  "be_value bs = foldl (\<lambda>acc b. 256 * acc + unat b) 0 bs"

definition be_get :: "nat \<Rightarrow> bytes \<Rightarrow> ('a::len word \<times> bytes) option" where
  "be_get k bs = (if length bs < k then None else Some (of_nat (be_value (take k bs)), drop k bs))"

definition network_codec :: "u64 codec" where
  "network_codec = \<lparr>kMaxMessageSize = 512, size_u8 = 1, size_u16 = 2, size_node = 8,
     put_u8 = (\<lambda>b. [b]), put_u16 = (\<lambda>w. be_bytes 2 (unat w)), put_node = (\<lambda>n. be_bytes 8 (unat n)),
     get_u8 = be_get 1, get_u16 = be_get 2, get_node = be_get 8, default_node = 0\<rparr>"

lemma network_codec_sizes:
  "kMaxMessageSize network_codec = 512" "size_u8 network_codec = 1" "size_u16 network_codec = 2"
  "size_node network_codec = 8" "default_node network_codec = 0"
  by (simp_all add: network_codec_def)

lemma length_be_bytes [simp]: "length (be_bytes k n) = k"
  by (induction k arbitrary: n) auto

lemma be_value_snoc: "be_value (bs @ [b]) = 256 * be_value bs + unat b"
  by (simp add: be_value_def)

lemma be_value_bytes: "be_value (be_bytes k n) = n mod 256 ^ k"
proof (induction k arbitrary: n)
  case 0
  then show ?case by (simp add: be_value_def)
next
  case (Suc k)
  have "be_value (be_bytes (Suc k) n) = 256 * ((n div 256) mod 256 ^ k) + n mod 256"
    by (simp add: be_value_snoc Suc.IH unat_of_nat)
  also have "\<dots> = n mod (256 * 256 ^ k)"
    by (simp add: mod_mult2_eq)
  finally show ?case by simp
qed

lemma be_get_bytes:
  assumes "unat (w :: 'a::len word) < 256 ^ k"
  shows "be_get k (be_bytes k (unat w) @ rest) = Some (w, rest)"
  using assms by (simp add: be_get_def be_value_bytes)

lemma be_get_enough: "k \<le> length bs \<Longrightarrow> \<exists>w. be_get k bs = Some (w, drop k bs)"
  by (simp add: be_get_def)

lemma unat_word_lt_256_power: "LENGTH('a) = 8 * k \<Longrightarrow> unat (w :: 'a::len word) < 256 ^ k"
  using unsigned_less [of w, where ?'a = nat] by (simp add: power_mult)

lemma be_get_one [simp]: "be_get (Suc 0) (b # rest) = Some (b :: byte, rest)"
  by (simp add: be_get_def be_value_def)

interpretation net: wire_codec network_codec
proof unfold_locales
  fix w :: u16 and rest
  show "get_u16 network_codec (put_u16 network_codec w @ rest) = Some (w, rest)"
    using be_get_bytes [of w 2 rest] unat_word_lt_256_power [of 2 w] by (simp add: network_codec_def)
next
  fix n :: u64 and rest
  show "get_node network_codec (put_node network_codec n @ rest) = Some (n, rest)"
    using be_get_bytes [of n 8 rest] unat_word_lt_256_power [of 8 n] by (simp add: network_codec_def)
qed (auto simp: network_codec_def intro: be_get_enough)

end
