(* ===== verification/DedupCache.thy ===== *)
theory DedupCache
  imports Extender_Prelude
begin

unbundle bit_operations_syntax

text \<open>
  \<open>include/ableton/extender/DedupCache.hpp\<close>: the bounded least-recently-used cache behind
  \<open>Tunnel::shouldForward\<close>.

  The class keeps a \<open>std::list\<close> of entries and a \<open>std::map\<close> from keys to iterators into that
  list. Iterators are the point of the design (\<open>splice\<close> moves a node without invalidating
  them), so the model keeps them: every list node has an address, the list is a list of
  addressed entries, and \<open>mIndex\<close> maps a key to the address of its node. The abstract
  specification \<open>lru_spec\<close> forgets the addresses and the index: it is a list of keys with
  the time of their last acceptance, most recently used first. Every call takes the mutex, so a
  call is one atomic step; the time read from \<open>mClock\<close> is an argument.
\<close>

subsection \<open>The class\<close>

definition kDedupWindow :: time where
  "kDedupWindow = milliseconds 50"

definition kDedupCacheCapacity :: nat where
  "kDedupCacheCapacity = 256"

type_synonym 'n Key = "byte \<times> 'n \<times> u64"

record 'k Entry =
  key :: 'k
  timestamp :: time

record 'k DedupCache =
  mCapacity :: nat
  mWindow :: time
  mEntries :: "(nat \<times> 'k Entry) list"
  mIndex :: "'k \<rightharpoonup> nat"
  next_node :: nat

definition DedupCache_init :: "nat \<Rightarrow> time \<Rightarrow> 'k DedupCache" where
  "DedupCache_init capacity window =
     \<lparr>mCapacity = capacity, mWindow = window, mEntries = [], mIndex = Map.empty, next_node = 0\<rparr>"

fun fnv1a64_loop :: "u64 \<Rightarrow> bytes \<Rightarrow> u64" where
  "fnv1a64_loop h [] = h"
| "fnv1a64_loop h (p # ps) = fnv1a64_loop ((h XOR ucast p) * 1099511628211) ps"

definition fnv1a64 :: "bytes \<Rightarrow> u64" where
  "fnv1a64 bs = fnv1a64_loop 14695981039346656037 bs"

text \<open>\<open>mEntries.splice(mEntries.begin(), mEntries, it)\<close>, and the assignment through \<open>it\<close>.\<close>

definition splice_front :: "nat \<Rightarrow> (nat \<times> 'k Entry) list \<Rightarrow> (nat \<times> 'k Entry) list" where
  "splice_front it es = filter (\<lambda>p. fst p = it) es @ filter (\<lambda>p. fst p \<noteq> it) es"

definition set_timestamp :: "nat \<Rightarrow> time \<Rightarrow> (nat \<times> 'k Entry) list \<Rightarrow> (nat \<times> 'k Entry) list" where
  "set_timestamp it now es =
     map (\<lambda>p. if fst p = it then (it, (snd p)\<lparr>timestamp := now\<rparr>) else p) es"

definition evict_back :: "'k DedupCache \<Rightarrow> fault + 'k DedupCache" where
  "evict_back c =
     (if mEntries c = [] then Inl EmptyListBack
      else Inr (c\<lparr>mIndex := (mIndex c)(key (snd (last (mEntries c))) := None),
                  mEntries := butlast (mEntries c)\<rparr>))"

definition push_front :: "'k \<Rightarrow> time \<Rightarrow> 'k DedupCache \<Rightarrow> 'k DedupCache" where
  "push_front k now c =
     c\<lparr>mEntries := (next_node c, \<lparr>key = k, timestamp = now\<rparr>) # mEntries c,
       mIndex := (mIndex c)(k \<mapsto> next_node c),
       next_node := Suc (next_node c)\<rparr>"

text \<open>The body of \<open>isDuplicate\<close> under the lock, once the key is computed.\<close>

definition check_key :: "'k \<Rightarrow> time \<Rightarrow> 'k DedupCache \<Rightarrow> fault + bool \<times> 'k DedupCache" where
  "check_key k now c =
     (case mIndex c k of
        Some it \<Rightarrow>
          (case map_of (mEntries c) it of
             None \<Rightarrow> Inl DanglingIterator
           | Some entry \<Rightarrow>
               (let fresh = now - timestamp entry < mWindow c;
                    c1 = c\<lparr>mEntries := splice_front it (mEntries c)\<rparr>
                in if fresh then Inr (True, c1)
                   else Inr (False, c1\<lparr>mEntries := set_timestamp it now (mEntries c1)\<rparr>)))
      | None \<Rightarrow>
          (case (if mCapacity c \<le> length (mEntries c) then evict_back c else Inr c) of
             Inl f \<Rightarrow> Inl f
           | Inr c1 \<Rightarrow> Inr (False, push_front k now c1)))"

definition isDuplicate ::
    "byte \<Rightarrow> 'n \<Rightarrow> bytes \<Rightarrow> time \<Rightarrow> 'n Key DedupCache \<Rightarrow> fault + bool \<times> 'n Key DedupCache" where
  "isDuplicate type from_node payload now c = check_key (type, from_node, fnv1a64 payload) now c"

subsection \<open>The abstract filter\<close>

text \<open>
  The filter a tunnel relies on: a list of keys with the time they were last let through, most
  recently used first, at most \<open>cap\<close> long. A key that was let through less than \<open>win\<close> ago is
  a duplicate and only moves to the front; any other key is let through and stamped.
\<close>

definition lru_spec ::
    "nat \<Rightarrow> time \<Rightarrow> 'k \<Rightarrow> time \<Rightarrow> ('k \<times> time) list \<Rightarrow> bool \<times> ('k \<times> time) list" where
  "lru_spec cap win k now xs =
     (case map_of xs k of
        Some t \<Rightarrow> (if now - t < win then (True, (k, t) # filter (\<lambda>p. fst p \<noteq> k) xs)
                   else (False, (k, now) # filter (\<lambda>p. fst p \<noteq> k) xs))
      | None \<Rightarrow> (False, (k, now) # (if cap \<le> length xs then butlast xs else xs)))"

fun lru_run :: "nat \<Rightarrow> time \<Rightarrow> ('k \<times> time) list \<Rightarrow> ('k \<times> time) list \<Rightarrow> bool list" where
  "lru_run cap win xs [] = []"
| "lru_run cap win xs ((k, now) # calls) =
     (let (b, xs') = lru_spec cap win k now xs in b # lru_run cap win xs' calls)"

fun lru_after :: "nat \<Rightarrow> time \<Rightarrow> ('k \<times> time) list \<Rightarrow> ('k \<times> time) list \<Rightarrow> ('k \<times> time) list" where
  "lru_after cap win xs [] = xs"
| "lru_after cap win xs ((k, now) # calls) = lru_after cap win (snd (lru_spec cap win k now xs)) calls"

subsection \<open>Well-formed caches\<close>

definition entries_view :: "'k DedupCache \<Rightarrow> ('k \<times> time) list" where
  "entries_view c = map (\<lambda>p. (key (snd p), timestamp (snd p))) (mEntries c)"

definition dedup_ok :: "'k DedupCache \<Rightarrow> bool" where
  "dedup_ok c \<longleftrightarrow>
     distinct (map fst (mEntries c)) \<and>
     (\<forall>p \<in> set (mEntries c). fst p < next_node c \<and> mIndex c (key (snd p)) = Some (fst p)) \<and>
     (\<forall>k a. mIndex c k = Some a \<longrightarrow> (\<exists>e. (a, e) \<in> set (mEntries c) \<and> key e = k)) \<and>
     length (mEntries c) \<le> mCapacity c \<and> 0 < mCapacity c"

lemma dedup_okD:
  assumes "dedup_ok c"
  shows "distinct (map fst (mEntries c))"
    and "p \<in> set (mEntries c) \<Longrightarrow> fst p < next_node c"
    and "p \<in> set (mEntries c) \<Longrightarrow> mIndex c (key (snd p)) = Some (fst p)"
    and "mIndex c k = Some a \<Longrightarrow> \<exists>e. (a, e) \<in> set (mEntries c) \<and> key e = k"
    and "length (mEntries c) \<le> mCapacity c"
    and "0 < mCapacity c"
  using assms by (auto simp: dedup_ok_def)

lemma dedup_ok_init: "0 < capacity \<Longrightarrow> dedup_ok (DedupCache_init capacity window)"
  by (simp add: dedup_ok_def DedupCache_init_def)

lemma dedup_ok_distinct_keys:
  assumes "dedup_ok c"
  shows "distinct (map (key \<circ> snd) (mEntries c))"
proof -
  have "inj_on (key \<circ> snd) (set (mEntries c))"
  proof (rule inj_onI)
    fix p q assume pq: "p \<in> set (mEntries c)" "q \<in> set (mEntries c)" "(key \<circ> snd) p = (key \<circ> snd) q"
    then have "fst p = fst q" using dedup_okD(3) [OF assms] by (metis comp_apply option.inject)
    with pq dedup_okD(1) [OF assms] show "p = q"
      by (meson distinct_map inj_onD)
  qed
  with dedup_okD(1) [OF assms] show ?thesis by (simp add: distinct_map)
qed

lemma entries_view_distinct: "dedup_ok c \<Longrightarrow> distinct (map fst (entries_view c))"
  using dedup_ok_distinct_keys by (simp add: entries_view_def comp_def)

lemma entries_view_miss:
  assumes "dedup_ok c"
  shows "mIndex c k = None \<longleftrightarrow> map_of (entries_view c) k = None"
proof -
  have "map_of (entries_view c) k = None \<longleftrightarrow> k \<notin> (key \<circ> snd) ` set (mEntries c)"
    by (auto simp: entries_view_def map_of_eq_None_iff image_image)
  also have "\<dots> \<longleftrightarrow> mIndex c k = None"
    using dedup_okD(3,4) [OF assms] by (cases "mIndex c k") (force simp: image_iff)+
  finally show ?thesis by simp
qed

lemma entries_view_hit:
  assumes ok: "dedup_ok c" and it: "mIndex c k = Some it"
  obtains e where "map_of (mEntries c) it = Some e" "key e = k"
    "map_of (entries_view c) k = Some (timestamp e)" "(it, e) \<in> set (mEntries c)"
proof -
  from dedup_okD(4) [OF ok it] obtain e where e: "(it, e) \<in> set (mEntries c)" "key e = k" by blast
  with dedup_okD(1) [OF ok] have "map_of (mEntries c) it = Some e" by simp
  moreover have "(k, timestamp e) \<in> set (entries_view c)"
    using e by (force simp: entries_view_def)
  then have "map_of (entries_view c) k = Some (timestamp e)"
    using entries_view_distinct [OF ok] by simp
  ultimately show ?thesis using e that by blast
qed

lemma filter_address_singleton:
  "distinct (map fst xs) \<Longrightarrow> (a, e) \<in> set xs \<Longrightarrow> filter (\<lambda>p. fst p = a) xs = [(a, e)]"
proof (induction xs)
  case (Cons x xs)
  then show ?case
    by (cases "fst x = a") (auto simp: filter_empty_conv rev_image_eqI)
qed simp

lemma same_node_same_key:
  assumes "dedup_ok c" "(it, e) \<in> set (mEntries c)" "p \<in> set (mEntries c)"
  shows "fst p = it \<longleftrightarrow> key (snd p) = key e"
  using dedup_okD(1,3) [OF assms(1)] assms(2,3)
  by (metis eq_key_imp_eq_value fst_conv option.inject prod.collapse snd_conv)

subsection \<open>Refinement\<close>

lemma splice_front_view:
  assumes "dedup_ok c" "(it, e) \<in> set (mEntries c)"
  shows "splice_front it (mEntries c) = (it, e) # filter (\<lambda>p. key (snd p) \<noteq> key e) (mEntries c)"
proof -
  have "filter (\<lambda>p. fst p \<noteq> it) (mEntries c) = filter (\<lambda>p. key (snd p) \<noteq> key e) (mEntries c)"
    using same_node_same_key [OF assms] by (intro filter_cong) auto
  then show ?thesis
    using filter_address_singleton [OF dedup_okD(1) [OF assms(1)] assms(2)] by (simp add: splice_front_def)
qed

lemma set_splice_front: "set (splice_front it es) = set es"
  by (auto simp: splice_front_def)

lemma distinct_splice_front:
  "distinct (map fst es) \<Longrightarrow> distinct (map fst (splice_front it es))"
  by (auto simp: splice_front_def distinct_map_filter)

lemma length_splice_front: "length (splice_front it es) = length es"
  by (simp add: splice_front_def sum_length_filter_compl)

lemma dedup_ok_splice: "dedup_ok c \<Longrightarrow> dedup_ok (c\<lparr>mEntries := splice_front it (mEntries c)\<rparr>)"
  by (simp add: dedup_ok_def set_splice_front distinct_splice_front length_splice_front)

lemma map_fst_set_timestamp [simp]: "map fst (set_timestamp it now es) = map fst es"
  by (simp add: set_timestamp_def)

lemma dedup_ok_set_timestamp:
  assumes "dedup_ok c"
  shows "dedup_ok (c\<lparr>mEntries := set_timestamp it now (mEntries c)\<rparr>)"
proof -
  have "\<exists>e'. (a, e') \<in> set (set_timestamp it now (mEntries c)) \<and> key e' = k"
    if "mIndex c k = Some a" for k a
  proof -
    from dedup_okD(4) [OF assms that] obtain e where "(a, e) \<in> set (mEntries c)" "key e = k" by blast
    then show ?thesis
      by (intro exI [of _ "if a = it then e\<lparr>timestamp := now\<rparr> else e"]) (force simp: set_timestamp_def)
  qed
  moreover have "length (set_timestamp it now (mEntries c)) = length (mEntries c)"
    by (simp add: set_timestamp_def)
  moreover have "fst p < next_node c \<and> mIndex c (key (snd p)) = Some (fst p)"
    if "p \<in> set (set_timestamp it now (mEntries c))" for p
    proof -
    from that have "p \<in> (\<lambda>q. if fst q = it then (it, (snd q)\<lparr>timestamp := now\<rparr>) else q) ` set (mEntries c)"
      by (simp add: set_timestamp_def)
    then obtain q where "q \<in> set (mEntries c)" and "p = (if fst q = it then (it, (snd q)\<lparr>timestamp := now\<rparr>) else q)"
      by (rule imageE)
    then have "q \<in> set (mEntries c)" "fst p = fst q" "key (snd p) = key (snd q)" by simp_all
    then show ?thesis using dedup_okD(2,3) [OF assms, of q] by simp
  qed
  ultimately show ?thesis
    using assms by (simp add: dedup_ok_def)
qed

lemma evict_back_ok:
  assumes ok: "dedup_ok c" and ne: "mEntries c \<noteq> []"
  obtains c1 where "evict_back c = Inr c1" "dedup_ok c1" "mEntries c1 = butlast (mEntries c)"
    "mIndex c1 = (mIndex c)(key (snd (last (mEntries c))) := None)"
    "mCapacity c1 = mCapacity c" "mWindow c1 = mWindow c" "next_node c1 = next_node c"
proof -
  let ?l = "last (mEntries c)"
  let ?c1 = "c\<lparr>mIndex := (mIndex c)(key (snd ?l) := None), mEntries := butlast (mEntries c)\<rparr>"
  have l: "?l \<in> set (mEntries c)" using ne by simp
  have keys: "key (snd p) \<noteq> key (snd ?l)" if "p \<in> set (butlast (mEntries c))" for p
  proof -
    have "set (butlast (map (key \<circ> snd) (mEntries c))) =
          set (map (key \<circ> snd) (mEntries c)) - {key (snd ?l)}"
      using set_butlast_distinct [OF dedup_ok_distinct_keys [OF ok]] ne by (simp add: last_map)
    then show ?thesis using that by (auto simp: butlast_map_commute)
  qed
  have dist: "distinct (map fst (butlast (mEntries c)))"
    using dedup_okD(1) [OF ok] by (metis distinct_butlast map_butlast)
  have remaining: "\<exists>e. (a, e) \<in> set (butlast (mEntries c)) \<and> key e = k"
    if a: "mIndex c k = Some a" and k: "k \<noteq> key (snd ?l)" for k a
  proof -
    from dedup_okD(4) [OF ok a] obtain e where e: "(a, e) \<in> set (mEntries c)" "key e = k" by blast
    moreover from e k have "(a, e) \<noteq> ?l" by (metis snd_conv)
    ultimately have "(a, e) \<in> set (butlast (mEntries c))"
      using in_set_butlast_neq_last [of "mEntries c"] dedup_okD(1) [OF ok] ne
      by (metis distinct_map)
    with e show ?thesis by blast
  qed
  have "dedup_ok ?c1"
    using ok keys dist remaining unfolding dedup_ok_def
    by (auto dest: in_set_butlastD split: if_splits)
  then show ?thesis using ne that by (simp add: evict_back_def)
qed

lemma push_front_ok:
  assumes ok: "dedup_ok c" and new: "mIndex c k = None" and room: "length (mEntries c) < mCapacity c"
  shows "dedup_ok (push_front k now c)"
  using assms unfolding dedup_ok_def push_front_def by (fastforce split: if_splits)

lemma entries_view_push_front: "entries_view (push_front k now c) = (k, now) # entries_view c"
  by (simp add: entries_view_def push_front_def)

text \<open>
  One call on a well-formed cache never faults, leaves a well-formed cache with the same
  capacity and window, and gives the answer and the list of the specification.
\<close>

lemma check_key_hit:
  assumes ok: "dedup_ok c" and hit: "mIndex c k = Some it"
  shows "\<exists>c'. check_key k now c = Inr (fst (lru_spec (mCapacity c) (mWindow c) k now (entries_view c)), c') \<and>
     dedup_ok c' \<and> mCapacity c' = mCapacity c \<and> mWindow c' = mWindow c \<and>
     entries_view c' = snd (lru_spec (mCapacity c) (mWindow c) k now (entries_view c))"
proof -
  obtain e where e: "map_of (mEntries c) it = Some e" "key e = k"
    "map_of (entries_view c) k = Some (timestamp e)" "(it, e) \<in> set (mEntries c)"
    using entries_view_hit [OF ok hit] by metis
  let ?rest = "filter (\<lambda>p. key (snd p) \<noteq> k) (mEntries c)"
  let ?c1 = "c\<lparr>mEntries := splice_front it (mEntries c)\<rparr>"
  have spliced: "splice_front it (mEntries c) = (it, e) # ?rest"
    using splice_front_view [OF ok e(4)] e(2) by simp
  have rest_view: "map (\<lambda>p. (key (snd p), timestamp (snd p))) ?rest =
      filter (\<lambda>p. fst p \<noteq> k) (entries_view c)"
    by (simp add: entries_view_def filter_map comp_def)
  have no_it: "fst p \<noteq> it" if "p \<in> set ?rest" for p
    using that same_node_same_key [OF ok e(4)] e(2) by auto
  have stamped: "set_timestamp it now (splice_front it (mEntries c)) = (it, e\<lparr>timestamp := now\<rparr>) # ?rest"
    unfolding spliced set_timestamp_def using no_it by (auto intro!: map_idI)
  show ?thesis
  proof (cases "now - timestamp e < mWindow c")
    case True
    then have "check_key k now c = Inr (True, ?c1)" using hit e by (simp add: check_key_def Let_def)
    moreover have "entries_view ?c1 = (k, timestamp e) # filter (\<lambda>p. fst p \<noteq> k) (entries_view c)"
      using rest_view e(2) by (simp add: entries_view_def spliced)
    ultimately show ?thesis using True e dedup_ok_splice [OF ok] by (simp add: lru_spec_def)
  next
    case False
    let ?c2 = "?c1\<lparr>mEntries := set_timestamp it now (mEntries ?c1)\<rparr>"
    have "check_key k now c = Inr (False, ?c2)" using False hit e by (simp add: check_key_def Let_def)
    moreover have "entries_view ?c2 = (k, now) # filter (\<lambda>p. fst p \<noteq> k) (entries_view c)"
      using rest_view e(2) by (simp add: entries_view_def stamped)
    ultimately show ?thesis
      using False e dedup_ok_set_timestamp [OF dedup_ok_splice [OF ok]] by (simp add: lru_spec_def)
  qed
qed

lemma check_key_miss:
  assumes ok: "dedup_ok c" and miss: "mIndex c k = None"
  shows "\<exists>c'. check_key k now c = Inr (fst (lru_spec (mCapacity c) (mWindow c) k now (entries_view c)), c') \<and>
     dedup_ok c' \<and> mCapacity c' = mCapacity c \<and> mWindow c' = mWindow c \<and>
     entries_view c' = snd (lru_spec (mCapacity c) (mWindow c) k now (entries_view c))"
proof -
  have none: "map_of (entries_view c) k = None" using entries_view_miss [OF ok] miss by simp
  have len: "length (entries_view c) = length (mEntries c)" by (simp add: entries_view_def)
  show ?thesis
  proof (cases "mCapacity c \<le> length (mEntries c)")
    case True
    with dedup_okD(6) [OF ok] have ne: "mEntries c \<noteq> []" by auto
    obtain c1 where c1: "evict_back c = Inr c1" "dedup_ok c1" "mEntries c1 = butlast (mEntries c)"
      "mIndex c1 = (mIndex c)(key (snd (last (mEntries c))) := None)"
      "mCapacity c1 = mCapacity c" "mWindow c1 = mWindow c"
      using evict_back_ok [OF ok ne] by metis
    have "dedup_ok (push_front k now c1)"
      using c1 miss dedup_okD(5,6) [OF ok] ne by (intro push_front_ok) auto
    moreover have "entries_view c1 = butlast (entries_view c)"
      by (simp add: entries_view_def c1 butlast_map_commute)
    moreover have "check_key k now c = Inr (False, push_front k now c1)"
      using True miss c1 by (simp add: check_key_def)
    ultimately show ?thesis
      using True none c1(5,6) len
      by (simp add: lru_spec_def entries_view_push_front) (simp add: push_front_def)
  next
    case False
    with ok miss have "dedup_ok (push_front k now c)" by (intro push_front_ok) auto
    moreover have "check_key k now c = Inr (False, push_front k now c)"
      using False miss by (simp add: check_key_def)
    ultimately show ?thesis
      using False none len
      by (simp add: lru_spec_def entries_view_push_front) (simp add: push_front_def)
  qed
qed

lemma check_key_refines:
  assumes "dedup_ok c"
  shows "\<exists>c'. check_key k now c = Inr (fst (lru_spec (mCapacity c) (mWindow c) k now (entries_view c)), c') \<and>
     dedup_ok c' \<and> mCapacity c' = mCapacity c \<and> mWindow c' = mWindow c \<and>
     entries_view c' = snd (lru_spec (mCapacity c) (mWindow c) k now (entries_view c))"
  using check_key_hit [OF assms] check_key_miss [OF assms] by (cases "mIndex c k") auto


subsection \<open>What the filter guarantees over a run\<close>

text \<open>
  The interface the tunnels use: messages \<open>'m\<close> are compared by \<open>key_of\<close>, a call answers
  whether the message is a duplicate. The two guarantees are proved once, for every filter that
  refines \<open>lru_spec\<close>.
\<close>

fun filter_run ::
    "('m \<Rightarrow> time \<Rightarrow> 'c \<Rightarrow> fault + bool \<times> 'c) \<Rightarrow> 'c \<Rightarrow> ('m \<times> time) list \<Rightarrow> fault + bool list \<times> 'c" where
  "filter_run dup c [] = Inr ([], c)"
| "filter_run dup c ((m, now) # calls) =
     (case dup m now c of
        Inl f \<Rightarrow> Inl f
      | Inr (b, c1) \<Rightarrow>
          (case filter_run dup c1 calls of
             Inl f \<Rightarrow> Inl f
           | Inr (bs, c2) \<Rightarrow> Inr (b # bs, c2)))"

lemma lru_spec_hit_or_stamp:
  assumes "lru_spec cap win k0 now0 xs = (b, xs')" "(k, t) \<in> set xs'"
  shows "(k, t) \<in> set xs \<or> (k = k0 \<and> t = now0 \<and> \<not> b)"
  using assms
  by (auto simp: lru_spec_def split: option.splits if_splits dest: map_of_SomeD in_set_butlastD)

lemma lru_spec_dup:
  assumes "lru_spec cap win k now xs = (True, xs')"
  shows "\<exists>t. (k, t) \<in> set xs \<and> now - t < win"
  using assms by (auto simp: lru_spec_def split: option.splits if_splits dest: map_of_SomeD)

lemma length_lru_run [simp]: "length (lru_run cap win xs calls) = length calls"
  by (induction cap win xs calls rule: lru_run.induct) (auto split: prod.splits)

lemma lru_run_justified:
  assumes "i < length calls" "lru_run cap win xs calls ! i"
  shows "(\<exists>j<i. fst (calls ! j) = fst (calls ! i) \<and> \<not> lru_run cap win xs calls ! j \<and>
            snd (calls ! i) - snd (calls ! j) < win) \<or>
         (\<exists>t. (fst (calls ! i), t) \<in> set xs \<and> snd (calls ! i) - t < win)"
  using assms
proof (induction calls arbitrary: xs i)
  case (Cons call calls)
  obtain k0 now0 where call: "call = (k0, now0)" by force
  obtain b xs' where sp: "lru_spec cap win k0 now0 xs = (b, xs')" by force
  have run: "lru_run cap win xs (call # calls) = b # lru_run cap win xs' calls"
    by (simp add: call sp)
  show ?case
  proof (cases i)
    case 0
    with Cons.prems sp run call show ?thesis using lru_spec_dup by fastforce
  next
    case (Suc i')
    with Cons.prems run have i': "i' < length calls" "lru_run cap win xs' calls ! i'" by auto
    from Cons.IH [OF i'] show ?thesis
    proof (elim disjE exE conjE)
      fix j assume "j < i'" "fst (calls ! j) = fst (calls ! i')"
        "\<not> lru_run cap win xs' calls ! j" "snd (calls ! i') - snd (calls ! j) < win"
      then show ?thesis unfolding run Suc by (intro disjI1 exI [of _ "Suc j"]) auto
    next
      fix t assume t: "(fst (calls ! i'), t) \<in> set xs'" "snd (calls ! i') - t < win"
      from lru_spec_hit_or_stamp [OF sp t(1)] show ?thesis
      proof (elim disjE conjE)
        assume "(fst (calls ! i'), t) \<in> set xs"
        with t(2) Suc show ?thesis by auto
      next
        assume "fst (calls ! i') = k0" "t = now0" "\<not> b"
        with t(2) show ?thesis unfolding run Suc call by (intro disjI1 exI [of _ 0]) (simp add: sp)
      qed
    qed
  qed
qed simp

text \<open>
  A stamped key stays in the list while fewer than \<open>cap\<close> other keys are used: the keys in
  front of it are among the ones used since.
\<close>

definition stays :: "'k \<Rightarrow> time \<Rightarrow> 'k set \<Rightarrow> ('k \<times> time) list \<Rightarrow> bool" where
  "stays k t K xs \<longleftrightarrow> distinct (map fst xs) \<and>
     (\<exists>pre post. xs = pre @ (k, t) # post \<and> fst ` set pre \<subseteq> K)"

lemma stays_map_of: "stays k t K xs \<Longrightarrow> map_of xs k = Some t"
  by (auto simp: stays_def)

lemma distinct_map_butlast: "distinct (map f xs) \<Longrightarrow> distinct (map f (butlast xs))"
  by (metis distinct_butlast map_butlast)

lemma lru_spec_distinct:
  "distinct (map fst xs) \<Longrightarrow> distinct (map fst (snd (lru_spec cap win k now xs)))"
  by (auto simp: lru_spec_def distinct_map_filter map_of_eq_None_iff distinct_map_butlast
      dest: in_set_butlastD split: option.splits)

lemma stays_step:
  assumes st: "stays k t K xs" and K: "finite K" "card K < cap" "k \<notin> K" and k0: "k0 \<in> K"
  shows "stays k t K (snd (lru_spec cap win k0 now0 xs))"
proof -
  from st obtain pre post where xs: "xs = pre @ (k, t) # post" and pre: "fst ` set pre \<subseteq> K"
    and dist: "distinct (map fst xs)" by (auto simp: stays_def)
  let ?xs' = "snd (lru_spec cap win k0 now0 xs)"
  have ne: "k0 \<noteq> k" using k0 K(3) by auto
  have "\<exists>pre' post'. ?xs' = pre' @ (k, t) # post' \<and> fst ` set pre' \<subseteq> K"
  proof (cases "map_of xs k0")
    case (Some u)
    have f: "filter (\<lambda>p. fst p \<noteq> k0) xs =
        filter (\<lambda>p. fst p \<noteq> k0) pre @ (k, t) # filter (\<lambda>p. fst p \<noteq> k0) post"
      using ne by (simp add: xs)
    then obtain u' where "?xs' = ((k0, u') # filter (\<lambda>p. fst p \<noteq> k0) pre) @ (k, t) # filter (\<lambda>p. fst p \<noteq> k0) post"
      using Some by (cases "now0 - u < win") (simp_all add: lru_spec_def)
    then show ?thesis using pre k0
      by (intro exI [of _ "(k0, u') # filter (\<lambda>p. fst p \<noteq> k0) pre"]
           exI [of _ "filter (\<lambda>p. fst p \<noteq> k0) post"]) auto
  next
    case None
    then have "k0 \<notin> fst ` set pre" by (auto simp: xs map_of_eq_None_iff)
    then have sub: "fst ` set pre \<subseteq> K - {k0}" using pre by auto
    have "length pre = card (fst ` set pre)"
      using dist by (simp add: xs) (metis distinct_card length_map list.set_map)
    also have "\<dots> \<le> card (K - {k0})" using sub K(1) by (intro card_mono) auto
    also have "\<dots> < card K" using K(1) k0 by (rule card_Diff1_less)
    finally have "length pre < card K" .
    have miss: "?xs' = (k0, now0) # (if cap \<le> length xs then butlast xs else xs)"
      using None by (simp add: lru_spec_def)
    have "\<exists>post'. ?xs' = ((k0, now0) # pre) @ (k, t) # post'"
    proof (cases "cap \<le> length xs")
      case False
      then show ?thesis unfolding miss by (simp add: xs)
    next
      case True
      with \<open>length pre < card K\<close> K(2) have "post \<noteq> []" by (auto simp: xs)
      then show ?thesis using True unfolding miss by (simp add: xs butlast_append)
    qed
    then show ?thesis using pre k0 by (metis image_insert insert_subset list.simps(15) fst_conv)
  qed
  with lru_spec_distinct [OF dist] show ?thesis by (simp add: stays_def)
qed

lemma stays_after:
  assumes "stays k t K xs" "finite K" "card K < cap" "k \<notin> K" "fst ` set calls \<subseteq> K"
  shows "stays k t K (lru_after cap win xs calls)"
  using assms
proof (induction calls arbitrary: xs)
  case (Cons call calls)
  then show ?case by (cases call) (simp add: stays_step)
qed simp

lemma lru_repeat_caught:
  assumes dist: "distinct (map fst xs)" and first: "\<not> fst (lru_spec cap win k t xs)"
    and few: "card (fst ` set calls) < cap" and other: "k \<notin> fst ` set calls"
    and soon: "now - t < win"
  shows "fst (lru_spec cap win k now (lru_after cap win (snd (lru_spec cap win k t xs)) calls))"
proof -
  have "\<exists>post. snd (lru_spec cap win k t xs) = (k, t) # post"
    using first by (auto simp: lru_spec_def split: option.splits if_splits)
  with lru_spec_distinct [OF dist, of cap win k t]
  have "stays k t (fst ` set calls) (snd (lru_spec cap win k t xs))"
    by (force simp: stays_def)
  from stays_map_of [OF stays_after [OF this]] few other soon show ?thesis
    by (simp add: lru_spec_def)
qed

locale lru_filter =
  fixes dup :: "'m \<Rightarrow> time \<Rightarrow> 'c \<Rightarrow> fault + bool \<times> 'c"
    and key_of :: "'m \<Rightarrow> 'k"
    and view :: "'c \<Rightarrow> ('k \<times> time) list"
    and ok :: "'c \<Rightarrow> bool"
    and cap :: "'c \<Rightarrow> nat"
    and win :: "'c \<Rightarrow> time"
  assumes dup_refines: "ok c \<Longrightarrow>
      \<exists>c'. dup m now c = Inr (fst (lru_spec (cap c) (win c) (key_of m) now (view c)), c') \<and>
           ok c' \<and> cap c' = cap c \<and> win c' = win c \<and>
           view c' = snd (lru_spec (cap c) (win c) (key_of m) now (view c))"
    and view_distinct: "ok c \<Longrightarrow> distinct (map fst (view c))"
begin

lemma run_refines:
  "ok c \<Longrightarrow> \<exists>c'. filter_run dup c calls =
       Inr (lru_run (cap c) (win c) (view c) (map (apfst key_of) calls), c') \<and>
     ok c' \<and> cap c' = cap c \<and> win c' = win c \<and>
     view c' = lru_after (cap c) (win c) (view c) (map (apfst key_of) calls)"
proof (induction calls arbitrary: c)
  case (Cons call calls)
  obtain m now where call: "call = (m, now)" by force
  from dup_refines [OF Cons.prems, of m now] obtain c1 where c1:
    "dup m now c = Inr (fst (lru_spec (cap c) (win c) (key_of m) now (view c)), c1)"
    "ok c1" "cap c1 = cap c" "win c1 = win c"
    "view c1 = snd (lru_spec (cap c) (win c) (key_of m) now (view c))" by blast
  from Cons.IH [OF c1(2)] c1 show ?case by (auto simp: call split_beta Let_def)
qed simp

lemma no_unjustified_drop:
  assumes "ok c" "view c = []" "filter_run dup c calls = Inr (bs, c')" "i < length calls" "bs ! i"
  shows "\<exists>j<i. key_of (fst (calls ! j)) = key_of (fst (calls ! i)) \<and> \<not> bs ! j \<and>
     snd (calls ! i) - snd (calls ! j) < win c"
  using run_refines [OF assms(1), of calls] assms(2-)
    lru_run_justified [of i "map (apfst key_of) calls" "cap c" "win c" "[]"]
  by auto

lemma repeat_dropped:
  assumes "ok c" "dup m t c = Inr (False, c1)" "filter_run dup c1 calls = Inr (bs, c2)"
    and "card ((key_of \<circ> fst) ` set calls) < cap c" "key_of m \<notin> (key_of \<circ> fst) ` set calls"
    and "now - t < win c"
  shows "\<exists>c3. dup m now c2 = Inr (True, c3)"
proof -
  let ?calls = "map (apfst key_of) calls"
  have keys: "fst ` set ?calls = (key_of \<circ> fst) ` set calls"
    by (simp add: image_image comp_def)
  from dup_refines [OF assms(1), of m t] assms(2) have c1:
    "\<not> fst (lru_spec (cap c) (win c) (key_of m) t (view c))" "ok c1" "cap c1 = cap c" "win c1 = win c"
    "view c1 = snd (lru_spec (cap c) (win c) (key_of m) t (view c))" by auto
  from run_refines [OF c1(2), of calls] assms(3) have c2: "ok c2" "cap c2 = cap c" "win c2 = win c"
    "view c2 = lru_after (cap c) (win c) (view c1) ?calls" using c1 by auto
  from lru_repeat_caught [OF view_distinct [OF assms(1)] c1(1), of ?calls] assms(4-6) keys
  have "fst (lru_spec (cap c2) (win c2) (key_of m) now (view c2))" by (simp add: c1 c2)
  with dup_refines [OF c2(1), of m now] show ?thesis by auto
qed

end

definition message_key :: "byte \<times> 'n \<times> bytes \<Rightarrow> 'n Key" where
  "message_key m = (case m of (type, from_node, payload) \<Rightarrow> (type, from_node, fnv1a64 payload))"

definition isDuplicate_msg ::
    "byte \<times> 'n \<times> bytes \<Rightarrow> time \<Rightarrow> 'n Key DedupCache \<Rightarrow> fault + bool \<times> 'n Key DedupCache" where
  "isDuplicate_msg m now c = (case m of (type, from_node, payload) \<Rightarrow> isDuplicate type from_node payload now c)"

lemma isDuplicate_msg_check_key: "isDuplicate_msg m now c = check_key (message_key m) now c"
  by (simp add: isDuplicate_msg_def message_key_def isDuplicate_def split: prod.splits)

interpretation cache: lru_filter isDuplicate_msg message_key entries_view dedup_ok mCapacity mWindow
  by unfold_locales (simp_all add: isDuplicate_msg_check_key check_key_refines entries_view_distinct)

subsection \<open>Properties\<close>

text \<open>
  C10: A duplicate cache of any positive capacity, started empty and driven by any sequence of
  calls, never faults (no dangling iterator, no eviction from an empty list), answers every call
  as the abstract least-recently-used filter does, stays well formed, and never holds more
  entries than its capacity.
\<close>

theorem isDuplicate_refines_lru:
  assumes "0 < capacity"
  shows "\<exists>c'. filter_run isDuplicate_msg (DedupCache_init capacity window) calls =
             Inr (lru_run capacity window [] (map (apfst message_key) calls), c') \<and>
           dedup_ok c' \<and> length (mEntries c') \<le> capacity \<and>
           entries_view c' = lru_after capacity window [] (map (apfst message_key) calls)"
  using cache.run_refines [OF dedup_ok_init [OF assms], of window calls]
  by (auto simp: DedupCache_init_def entries_view_def dedup_ok_def)

theorem isDuplicate_refines_lru_witness:
  "\<exists>c'. filter_run isDuplicate_msg (DedupCache_init 1 kDedupWindow)
           [((98, 7 :: u64, [1]), 0), ((98, 8, [1]), 1), ((98, 7, [1]), 2)] =
         Inr ([False, False, False], c') \<and> dedup_ok c' \<and> length (mEntries c') \<le> 1"
  using isDuplicate_refines_lru [of 1 kDedupWindow "[((98, 7 :: u64, [1]), 0), ((98, 8, [1]), 1), ((98, 7, [1]), 2)]"]
  by (simp add: lru_spec_def message_key_def del: filter_run.simps) blast

text \<open>
  C26: A message is only ever dropped as a duplicate when an earlier message with the same type,
  the same source node and the same payload hash was let through less than the window ago: no
  sequence of calls on a fresh cache loses a message without a copy of its key having passed.
\<close>

theorem isDuplicate_no_unjustified_drop:
  assumes "0 < capacity"
    and "filter_run isDuplicate_msg (DedupCache_init capacity window) calls = Inr (bs, c')"
    and "i < length calls" "bs ! i"
  shows "\<exists>j<i. message_key (fst (calls ! j)) = message_key (fst (calls ! i)) \<and> \<not> bs ! j \<and>
           snd (calls ! i) - snd (calls ! j) < window"
  using cache.no_unjustified_drop [OF dedup_ok_init [OF assms(1)] _ assms(2-4)]
  by (simp add: DedupCache_init_def entries_view_def)

theorem isDuplicate_no_unjustified_drop_witness:
  "\<exists>bs c'. filter_run isDuplicate_msg (DedupCache_init 256 kDedupWindow)
           [((98, 7 :: u64, [1, 2]), 0), ((98, 7, [1, 2]), milliseconds 49)] = Inr (bs, c') \<and> bs ! 1 \<and>
     (\<exists>j<1. \<not> bs ! j)"
proof -
  let ?calls = "[((98, 7 :: u64, [1, 2]), 0), ((98, 7, [1, 2]), milliseconds 49)]"
  obtain c' where run: "filter_run isDuplicate_msg (DedupCache_init 256 kDedupWindow) ?calls = Inr ([False, True], c')"
    by (simp add: isDuplicate_msg_def isDuplicate_def check_key_def DedupCache_init_def push_front_def
        kDedupWindow_def milliseconds_def)
  from isDuplicate_no_unjustified_drop [OF _ run, of 1] run show ?thesis by auto
qed

text \<open>
  A repetition is caught: a message that was let through and comes again before the window is
  over is reported as a duplicate, whatever other calls were made in between, as long as those
  used fewer different keys than the cache has places.
\<close>

theorem isDuplicate_repeat_dropped:
  assumes "dedup_ok c" "isDuplicate_msg m t c = Inr (False, c1)"
    and "filter_run isDuplicate_msg c1 calls = Inr (bs, c2)"
    and "card ((message_key \<circ> fst) ` set calls) < mCapacity c"
    and "message_key m \<notin> (message_key \<circ> fst) ` set calls"
    and "now - t < mWindow c"
  shows "\<exists>c3. isDuplicate_msg m now c2 = Inr (True, c3)"
  by (rule cache.repeat_dropped [OF assms])

theorem isDuplicate_repeat_dropped_witness:
  "\<exists>c1 c2 c3. isDuplicate_msg (98, 7 :: u64, [1]) 0 (DedupCache_init 2 kDedupWindow) = Inr (False, c1) \<and>
     filter_run isDuplicate_msg c1 [((117, 7, [1]), 5)] = Inr ([False], c2) \<and>
     isDuplicate_msg (98, 7, [1]) 9 c2 = Inr (True, c3)"
proof -
  let ?c = "DedupCache_init 2 kDedupWindow :: u64 Key DedupCache"
  obtain c1 where c1: "isDuplicate_msg (98, 7 :: u64, [1]) 0 ?c = Inr (False, c1)"
    and i1: "filter_run isDuplicate_msg ?c [((98, 7 :: u64, [1]), 0)] = Inr ([False], c1)"
    by (simp add: isDuplicate_msg_def isDuplicate_def check_key_def DedupCache_init_def push_front_def)
  obtain c2 where c2: "filter_run isDuplicate_msg c1 [((117, 7, [1]), 5)] = Inr ([False], c2)"
    using c1 by (auto simp: isDuplicate_msg_def isDuplicate_def check_key_def DedupCache_init_def push_front_def)
  have "\<exists>c3. isDuplicate_msg (98, 7, [1]) 9 c2 = Inr (True, c3)"
    by (rule isDuplicate_repeat_dropped [OF dedup_ok_init c1 c2])
       (simp_all add: message_key_def DedupCache_init_def kDedupWindow_def milliseconds_def)
  with c1 c2 show ?thesis by blast
qed

end
