(* ===== verification/Tunnel.thy ===== *)
theory Tunnel
  imports Wire DedupCache
begin

text \<open>
  \<open>include/ableton/extender/Tunnel.hpp\<close>: what both tunnel back ends share. The message types,
  the gateway list, the duplicate check in front of \<open>forward\<close>, and the encapsulation of a Link
  message in a fixed-size message buffer and its inverse. \<open>UdpTunnel\<close> and \<open>ShmTunnel\<close> extend
  the record \<open>Tunnel\<close> as their classes extend the class template.

  \<open>TunnelMessageType\<close> is an enumeration over \<open>uint8_t\<close>, and \<open>decapsulate\<close> casts any received
  byte to it, so a value that is none of the enumerators is possible: \<open>OTHER\<close>.
\<close>

subsection \<open>Message types and contexts\<close>

datatype TunnelMessageType =
    TUNNEL_HELLO
  | TUNNEL_BYE
  | TUNNEL_KEEPALIVE
  | BROADCAST
  | UNICAST
  | BYEBYE
  | MEASUREMENT_PING
  | MEASUREMENT_PONG
  | OTHER byte

fun to_byte :: "TunnelMessageType \<Rightarrow> byte" where
  "to_byte TUNNEL_HELLO = 105"
| "to_byte TUNNEL_BYE = 121"
| "to_byte TUNNEL_KEEPALIVE = 107"
| "to_byte BROADCAST = 98"
| "to_byte UNICAST = 117"
| "to_byte BYEBYE = 122"
| "to_byte MEASUREMENT_PING = 109"
| "to_byte MEASUREMENT_PONG = 114"
| "to_byte (OTHER b) = b"

definition of_byte :: "byte \<Rightarrow> TunnelMessageType" where
  "of_byte b =
     (if b = 105 then TUNNEL_HELLO else if b = 121 then TUNNEL_BYE
      else if b = 107 then TUNNEL_KEEPALIVE else if b = 98 then BROADCAST
      else if b = 117 then UNICAST else if b = 122 then BYEBYE
      else if b = 109 then MEASUREMENT_PING else if b = 114 then MEASUREMENT_PONG
      else OTHER b)"

record 'n MessageContext =
  from_node :: 'n
  msg_type :: TunnelMessageType
  to_node :: "'n option"
  msg_size :: nat

subsection \<open>The base class\<close>

record ('g, 'n) Tunnel =
  gateways :: "'g list"
  mDedupCache :: "'n Key DedupCache"

text \<open>A call on a gateway of the tunnel, in the order the tunnel makes them.\<close>

datatype ('g, 'n) gateway_call =
    ForwardMessageLocally 'g TunnelMessageType 'n bytes "'n option"
  | StopListening 'g

definition initial_cache :: "'n Key DedupCache" where
  "initial_cache = DedupCache_init kDedupCacheCapacity kDedupWindow"

definition addGateway :: "'g \<Rightarrow> ('g, 'n, 'z) Tunnel_scheme \<Rightarrow> ('g, 'n, 'z) Tunnel_scheme" where
  "addGateway g t = (if g \<in> set (gateways t) then t else t\<lparr>gateways := gateways t @ [g]\<rparr>)"

definition removeGateway :: "'g \<Rightarrow> ('g, 'n, 'z) Tunnel_scheme \<Rightarrow> ('g, 'n, 'z) Tunnel_scheme" where
  "removeGateway g t = t\<lparr>gateways := remove1 g (gateways t)\<rparr>"

definition shouldForward ::
    "TunnelMessageType \<Rightarrow> 'n \<Rightarrow> bytes \<Rightarrow> time \<Rightarrow> ('g, 'n, 'z) Tunnel_scheme \<Rightarrow>
       fault + bool \<times> ('g, 'n, 'z) Tunnel_scheme" where
  "shouldForward messageType from_node_id message now t =
     (if messageType \<noteq> BROADCAST \<and> messageType \<noteq> UNICAST \<and> messageType \<noteq> BYEBYE then Inr (True, t)
      else (case isDuplicate (to_byte messageType) from_node_id message now (mDedupCache t) of
              Inl f \<Rightarrow> Inl f
            | Inr (dup, c) \<Rightarrow> Inr (\<not> dup, t\<lparr>mDedupCache := c\<rparr>)))"

definition forward_locally ::
    "TunnelMessageType \<Rightarrow> 'n \<Rightarrow> bytes \<Rightarrow> 'n option \<Rightarrow> ('g, 'n, 'z) Tunnel_scheme \<Rightarrow>
       ('g, 'n) gateway_call list" where
  "forward_locally messageType from_node_id message to_node_id t =
     map (\<lambda>g. ForwardMessageLocally g messageType from_node_id message to_node_id) (gateways t)"

subsection \<open>Encapsulation\<close>

text \<open>
  The buffer starts zeroed. Its end is not checked while it is filled: a message that does not
  fit behind the header is written past the array.
\<close>

definition copy_message :: "'n codec \<Rightarrow> bytes \<Rightarrow> bytes \<Rightarrow> fault + bytes option" where
  "copy_message C header message =
     (let out = header @ put_u16 C (of_nat (length message)) @ message
      in if kMaxMessageSize C < length out then Inl BufferOverrun
         else Inr (Some (out @ replicate (kMaxMessageSize C - length out) 0)))"

definition encapsulate :: "'n codec \<Rightarrow> 'n MessageContext \<Rightarrow> bytes \<Rightarrow> fault + bytes option" where
  "encapsulate C context message =
     (let header = put_u8 C (to_byte (msg_type context)) @ put_node C (from_node context)
      in if msg_type context = UNICAST \<or> msg_type context = MEASUREMENT_PING
            \<or> msg_type context = MEASUREMENT_PONG
         then (case to_node context of
                 Some to \<Rightarrow> copy_message C (header @ put_node C to) message
               | None \<Rightarrow> Inr None)
         else copy_message C header message)"

definition read_size ::
    "'n codec \<Rightarrow> 'n MessageContext \<Rightarrow> bytes \<Rightarrow> fault + ('n MessageContext \<times> bytes) option" where
  "read_size C context stream =
     (case get_u16 C stream of
        None \<Rightarrow> Inl StreamExhausted
      | Some (message_size, rest) \<Rightarrow>
          (if rest \<noteq> [] then
             Inr (Some (context\<lparr>msg_size := unat message_size\<rparr>,
                        rest @ replicate (kMaxMessageSize C - length rest) 0))
           else Inr None))"

definition read_to_node ::
    "'n codec \<Rightarrow> 'n MessageContext \<Rightarrow> bytes \<Rightarrow> fault + ('n MessageContext \<times> bytes) option" where
  "read_to_node C context stream =
     (case get_node C stream of
        None \<Rightarrow> Inl StreamExhausted
      | Some (to, rest) \<Rightarrow> read_size C (context\<lparr>to_node := Some to\<rparr>) rest)"

definition decapsulate :: "'n codec \<Rightarrow> bytes \<Rightarrow> fault + ('n MessageContext \<times> bytes) option" where
  "decapsulate C msg =
     (case get_u8 C msg of
        None \<Rightarrow> Inl StreamExhausted
      | Some (type, stream1) \<Rightarrow>
          (case get_node C stream1 of
             None \<Rightarrow> Inl StreamExhausted
           | Some (from, stream2) \<Rightarrow>
               (let context = \<lparr>from_node = from, msg_type = of_byte type, to_node = None, msg_size = 0\<rparr>
                in case msg_type context of
                     MEASUREMENT_PING \<Rightarrow> read_to_node C context stream2
                   | MEASUREMENT_PONG \<Rightarrow> read_to_node C context stream2
                   | UNICAST \<Rightarrow> read_to_node C context stream2
                   | _ \<Rightarrow> read_size C context stream2)))"

subsection \<open>Message types on the wire\<close>

lemma of_byte_to_byte: "\<forall>b. t \<noteq> OTHER b \<Longrightarrow> of_byte (to_byte t) = t"
  by (cases t) (simp_all add: of_byte_def)

lemma to_byte_of_byte [simp]: "to_byte (of_byte b) = b"
  by (simp add: of_byte_def)

text \<open>A type that a byte can carry: every enumerator, and \<open>OTHER b\<close> for the remaining bytes.\<close>

definition valid_type :: "TunnelMessageType \<Rightarrow> bool" where
  "valid_type t \<longleftrightarrow> of_byte (to_byte t) = t"

lemma valid_type_simps [simp]:
  "valid_type TUNNEL_HELLO" "valid_type TUNNEL_BYE" "valid_type TUNNEL_KEEPALIVE"
  "valid_type BROADCAST" "valid_type UNICAST" "valid_type BYEBYE"
  "valid_type MEASUREMENT_PING" "valid_type MEASUREMENT_PONG" "valid_type (of_byte b)"
  by (simp_all add: valid_type_def) (simp_all add: of_byte_def)

lemma valid_type_inj: "valid_type s \<Longrightarrow> valid_type t \<Longrightarrow> to_byte s = to_byte t \<longleftrightarrow> s = t"
  by (metis valid_type_def)

definition carries_to_node :: "TunnelMessageType \<Rightarrow> bool" where
  "carries_to_node t \<longleftrightarrow> t = UNICAST \<or> t = MEASUREMENT_PING \<or> t = MEASUREMENT_PONG"

lemma decapsulate_unfold:
  "decapsulate C msg =
     (case get_u8 C msg of
        None \<Rightarrow> Inl StreamExhausted
      | Some (type, stream1) \<Rightarrow>
          (case get_node C stream1 of
             None \<Rightarrow> Inl StreamExhausted
           | Some (from, stream2) \<Rightarrow>
               (if carries_to_node (of_byte type) then read_to_node C else read_size C)
                 \<lparr>from_node = from, msg_type = of_byte type, to_node = None, msg_size = 0\<rparr> stream2))"
  by (auto simp: decapsulate_def carries_to_node_def Let_def split: option.split prod.split TunnelMessageType.split)

subsection \<open>The header and its length\<close>

definition header_bytes :: "'n codec \<Rightarrow> 'n MessageContext \<Rightarrow> bytes" where
  "header_bytes C ctx =
     put_u8 C (to_byte (msg_type ctx)) @ put_node C (from_node ctx) @
     (if carries_to_node (msg_type ctx) then put_node C (the (to_node ctx)) else [])"

definition header_size :: "'n codec \<Rightarrow> TunnelMessageType \<Rightarrow> nat" where
  "header_size C t =
     size_u8 C + size_node C + (if carries_to_node t then size_node C else 0) + size_u16 C"

lemma encapsulate_unfold:
  "encapsulate C ctx message =
     (if carries_to_node (msg_type ctx) \<and> to_node ctx = None then Inr None
      else copy_message C (header_bytes C ctx) message)"
  by (auto simp: encapsulate_def carries_to_node_def header_bytes_def Let_def split: option.splits)

context wire_codec
begin

lemma length_header:
  "length (header_bytes C ctx) + size_u16 C = header_size C (msg_type ctx)"
  by (simp add: header_bytes_def header_size_def)

lemma header_size_less: "header_size C t < kMaxMessageSize C"
  using header_fits by (simp add: header_size_def)

lemma copy_message_header:
  "copy_message C (header_bytes C ctx) message =
     (if kMaxMessageSize C < header_size C (msg_type ctx) + length message then Inl BufferOverrun
      else Inr (Some (header_bytes C ctx @ put_u16 C (of_nat (length message)) @ message @
              replicate (kMaxMessageSize C - (header_size C (msg_type ctx) + length message)) 0)))"
  using length_header [of ctx] by (simp add: copy_message_def Let_def add.assoc [symmetric])

lemma encapsulate_cases:
  "encapsulate C ctx message =
     (if carries_to_node (msg_type ctx) \<and> to_node ctx = None then Inr None
      else if kMaxMessageSize C < header_size C (msg_type ctx) + length message then Inl BufferOverrun
      else Inr (Some (header_bytes C ctx @ put_u16 C (of_nat (length message)) @ message @
              replicate (kMaxMessageSize C - (header_size C (msg_type ctx) + length message)) 0)))"
  by (simp add: encapsulate_unfold copy_message_header)

lemma encapsulated_length:
  assumes "encapsulate C ctx message = Inr (Some buf)"
  shows "length buf = kMaxMessageSize C"
    and "header_size C (msg_type ctx) + length message \<le> kMaxMessageSize C"
  using assms length_header [of ctx]
  by (auto simp: encapsulate_cases not_less split: if_splits)

lemma encapsulated_prefix:
  assumes "encapsulate C ctx message = Inr (Some buf)"
  shows "buf = take (header_size C (msg_type ctx) + length message) buf @
           replicate (kMaxMessageSize C - (header_size C (msg_type ctx) + length message)) 0"
  using assms length_header [of ctx]
  by (auto simp: encapsulate_cases add.assoc [symmetric] split: if_splits)

lemma decapsulate_header:
  assumes "valid_type (msg_type ctx)"
    and "carries_to_node (msg_type ctx) \<longleftrightarrow> to_node ctx \<noteq> None" and "rest \<noteq> []"
  shows "decapsulate C (header_bytes C ctx @ put_u16 C w @ rest) =
     Inr (Some (ctx\<lparr>msg_size := unat w\<rparr>, rest @ replicate (kMaxMessageSize C - length rest) 0))"
  using assms
  by (cases ctx) (auto simp: decapsulate_unfold header_bytes_def read_to_node_def read_size_def valid_type_def)

lemma decapsulate_encapsulate:
  assumes enc: "encapsulate C ctx message = Inr (Some buf)"
    and vt: "valid_type (msg_type ctx)"
    and to: "carries_to_node (msg_type ctx) \<longleftrightarrow> to_node ctx \<noteq> None"
  shows "decapsulate C buf =
     Inr (Some (ctx\<lparr>msg_size := length message\<rparr>,
                message @ replicate (kMaxMessageSize C - length message) 0))"
proof -
  let ?h = "header_size C (msg_type ctx)"
  let ?rest = "message @ replicate (kMaxMessageSize C - (?h + length message)) 0"
  have fits: "?h + length message \<le> kMaxMessageSize C" by (rule encapsulated_length(2) [OF enc])
  have buf: "buf = header_bytes C ctx @ put_u16 C (of_nat (length message)) @ ?rest"
    using enc by (simp add: encapsulate_cases split: if_splits)
  have "length message < 2 ^ 16" using fits buffer_fits_length_field by simp
  then have w: "unat (of_nat (length message) :: u16) = length message" by (simp add: unat_of_nat)
  have "length ?rest = kMaxMessageSize C - ?h" using fits by simp
  then have ne: "?rest \<noteq> []" using header_size_less [of "msg_type ctx"] by (metis less_nat_zero_code list.size(3) zero_less_diff)
  have pad: "?rest @ replicate (kMaxMessageSize C - length ?rest) 0 =
      message @ replicate (kMaxMessageSize C - length message) 0"
    using fits header_size_less [of "msg_type ctx"]
    by (simp add: replicate_add [symmetric])
  show ?thesis unfolding buf decapsulate_header [OF vt to ne] using w pad by simp
qed

lemma decapsulate_total:
  assumes "length buf = kMaxMessageSize C"
  shows "\<exists>ctx payload. decapsulate C buf = Inr (Some (ctx, payload)) \<and>
     valid_type (msg_type ctx) \<and> (carries_to_node (msg_type ctx) \<longleftrightarrow> to_node ctx \<noteq> None) \<and>
     length payload = kMaxMessageSize C \<and> msg_size ctx < 2 ^ 16"
proof -
  let ?k = "kMaxMessageSize C"
  note fits = header_fits
  have room: "size_u8 C \<le> length buf" "size_node C \<le> length (drop (size_u8 C) buf)"
    "size_node C \<le> length (drop (size_node C + size_u8 C) buf)"
    using fits assms by simp_all
  obtain b where b: "get_u8 C buf = Some (b, drop (size_u8 C) buf)"
    using get_u8_enough [OF room(1)] by blast
  obtain n where n: "get_node C (drop (size_u8 C) buf) = Some (n, drop (size_node C + size_u8 C) buf)"
    using get_node_enough [OF room(2)] by auto
  have size: "\<exists>w. get_u16 C (drop m buf) = Some (w, drop (size_u16 C + m) buf) \<and> drop (size_u16 C + m) buf \<noteq> []"
    if "m + size_u16 C < ?k" for m
  proof -
    have "size_u16 C \<le> length (drop m buf)" using that assms by simp
    from get_u16_enough [OF this] that assms show ?thesis by auto
  qed
  have bound: "unat (w :: u16) < 2 ^ 16" for w using unsigned_less [of w, where ?'a = nat] by simp
  show ?thesis
  proof (cases "carries_to_node (of_byte b)")
    case False
    obtain w where "get_u16 C (drop (size_node C + size_u8 C) buf) =
        Some (w, drop (size_u16 C + (size_node C + size_u8 C)) buf)"
      "drop (size_u16 C + (size_node C + size_u8 C)) buf \<noteq> []"
      using size [of "size_node C + size_u8 C"] fits by auto
    with False b n assms bound show ?thesis by (auto simp: decapsulate_unfold read_size_def)
  next
    case True
    obtain to where to: "get_node C (drop (size_node C + size_u8 C) buf) =
        Some (to, drop (size_node C + (size_node C + size_u8 C)) buf)"
      using get_node_enough [OF room(3)] by auto
    obtain w where "get_u16 C (drop (size_node C + (size_node C + size_u8 C)) buf) =
        Some (w, drop (size_u16 C + (size_node C + (size_node C + size_u8 C))) buf)"
      "drop (size_u16 C + (size_node C + (size_node C + size_u8 C))) buf \<noteq> []"
      using size [of "size_node C + (size_node C + size_u8 C)"] fits by auto
    with True b n to assms bound show ?thesis by (auto simp: decapsulate_unfold read_to_node_def read_size_def)
  qed
qed

end

subsection \<open>Gateways and the duplicate check\<close>

lemma gateways_addGateway: "set (gateways (addGateway g t)) = insert g (set (gateways t))"
  by (auto simp: addGateway_def)

lemma distinct_addGateway: "distinct (gateways t) \<Longrightarrow> distinct (gateways (addGateway g t))"
  by (simp add: addGateway_def)

lemma distinct_removeGateway: "distinct (gateways t) \<Longrightarrow> distinct (gateways (removeGateway g t))"
  by (simp add: removeGateway_def distinct_remove1)

lemma gateways_removeGateway:
  "distinct (gateways t) \<Longrightarrow> set (gateways (removeGateway g t)) = set (gateways t) - {g}"
  by (simp add: removeGateway_def set_remove1_eq)

definition deduplicated :: "TunnelMessageType \<Rightarrow> bool" where
  "deduplicated t \<longleftrightarrow> t = BROADCAST \<or> t = UNICAST \<or> t = BYEBYE"

lemma dedup_ok_initial_cache: "dedup_ok initial_cache"
  by (simp add: initial_cache_def dedup_ok_init kDedupCacheCapacity_def)

lemma isDuplicate_ok:
  assumes "dedup_ok c"
  obtains dup c' where "isDuplicate ty n msg now c = Inr (dup, c')" "dedup_ok c'"
    "mCapacity c' = mCapacity c" "mWindow c' = mWindow c"
  using check_key_refines [OF assms] unfolding isDuplicate_def by metis

lemma shouldForward_ok:
  assumes "dedup_ok (mDedupCache t)"
  obtains go c where "shouldForward mt n msg now t = Inr (go, t\<lparr>mDedupCache := c\<rparr>)" "dedup_ok c"
    "mCapacity c = mCapacity (mDedupCache t)" "mWindow c = mWindow (mDedupCache t)"
proof (cases "deduplicated mt")
  case True
  obtain dup c where "isDuplicate (to_byte mt) n msg now (mDedupCache t) = Inr (dup, c)" "dedup_ok c"
    "mCapacity c = mCapacity (mDedupCache t)" "mWindow c = mWindow (mDedupCache t)"
    by (rule isDuplicate_ok [OF assms])
  with True that show ?thesis by (auto simp: shouldForward_def deduplicated_def)
next
  case False
  with assms that [of True "mDedupCache t"] show ?thesis
    by (auto simp: shouldForward_def deduplicated_def)
qed

subsection \<open>The contract of a back end\<close>

text \<open>
  Both back ends put the duplicate check in front of \<open>forward\<close>. Seen from a gateway: a message the
  cache knows produces nothing, any other message leaves the cache as the check leaves it. It
  follows that a second copy of a message is silent while the window is open, whatever
  target the copy names.
\<close>

locale deduplicating_backend =
  fixes fwd :: "TunnelMessageType \<Rightarrow> 'n \<Rightarrow> bytes \<Rightarrow> 'n option \<Rightarrow> time \<Rightarrow> 't \<Rightarrow> fault + 'r"
    and state_of :: "'r \<Rightarrow> 't"
    and silent :: "'t \<Rightarrow> 'r \<Rightarrow> bool"
    and cache_of :: "'t \<Rightarrow> 'n Key DedupCache"
    and ok :: "'t \<Rightarrow> bool"
  assumes cache_ok: "ok t \<Longrightarrow> dedup_ok (cache_of t)"
    and fwd_ok: "ok t \<Longrightarrow> deduplicated mt \<Longrightarrow> fwd mt n msg to now t = Inr r \<Longrightarrow> ok (state_of r)"
    and fwd_duplicate: "ok t \<Longrightarrow> deduplicated mt \<Longrightarrow>
      isDuplicate (to_byte mt) n msg now (cache_of t) = Inr (True, c) \<Longrightarrow>
      \<exists>r. fwd mt n msg to now t = Inr r \<and> silent t r"
    and fwd_new: "ok t \<Longrightarrow> deduplicated mt \<Longrightarrow>
      isDuplicate (to_byte mt) n msg now (cache_of t) = Inr (False, c) \<Longrightarrow>
      fwd mt n msg to now t = Inr r \<Longrightarrow> cache_of (state_of r) = c"
begin

lemma second_copy_silent:
  assumes "ok t" "deduplicated mt" "isDuplicate (to_byte mt) n msg now (cache_of t) = Inr (False, c)"
    and "fwd mt n msg to now t = Inr r" "later - now < mWindow (cache_of t)"
  shows "\<exists>r'. fwd mt n msg to' later (state_of r) = Inr r' \<and> silent (state_of r) r'"
proof -
  have c1: "cache_of (state_of r) = c" by (rule fwd_new [OF assms(1-4)])
  have "\<exists>c3. isDuplicate_msg (to_byte mt, n, msg) later c = Inr (True, c3)"
    by (rule cache.repeat_dropped [OF cache_ok [OF assms(1)], of _ _ _ "[]"])
       (use assms dedup_okD(6) [OF cache_ok [OF assms(1)]] in \<open>auto simp: isDuplicate_msg_def\<close>)
  then obtain c3 where "isDuplicate (to_byte mt) n msg later (cache_of (state_of r)) = Inr (True, c3)"
    by (auto simp: isDuplicate_msg_def c1)
  from fwd_duplicate [OF fwd_ok [OF assms(1,2,4)] assms(2) this] show ?thesis .
qed

end

lemma shouldForward_deduplicated:
  "deduplicated mt \<Longrightarrow> isDuplicate (to_byte mt) n msg now (mDedupCache t) = Inr (dup, c) \<Longrightarrow>
     shouldForward mt n msg now t = Inr (\<not> dup, t\<lparr>mDedupCache := c\<rparr>)"
  by (auto simp: shouldForward_def deduplicated_def)

subsection \<open>Properties\<close>

text \<open>
  C15: Encapsulation followed by decapsulation is the identity: every message that fits behind its
  header, of any type a byte can carry, addressed exactly when its type carries a target node, is
  turned into a full message buffer from which \<open>decapsulate\<close> recovers the source node, the type,
  the target node, the size and the bytes of the message (followed by zeros).
\<close>

theorem encapsulate_roundtrip:
  assumes "wire_codec C"
    and "header_size C (msg_type ctx) + length message \<le> kMaxMessageSize C"
    and "valid_type (msg_type ctx)" "carries_to_node (msg_type ctx) \<longleftrightarrow> to_node ctx \<noteq> None"
  shows "\<exists>buf. encapsulate C ctx message = Inr (Some buf) \<and> length buf = kMaxMessageSize C \<and>
           decapsulate C buf = Inr (Some (ctx\<lparr>msg_size := length message\<rparr>,
             message @ replicate (kMaxMessageSize C - length message) 0))"
proof -
  obtain buf where "encapsulate C ctx message = Inr (Some buf)"
    using assms wire_codec.encapsulate_cases [OF assms(1), of ctx message] by (auto simp: not_less)
  with wire_codec.encapsulated_length(1) [OF assms(1)] wire_codec.decapsulate_encapsulate [OF assms(1)] assms(3,4)
  show ?thesis by blast
qed

theorem encapsulate_roundtrip_witness:
  "\<exists>buf. encapsulate network_codec \<lparr>from_node = 7, msg_type = UNICAST, to_node = Some 9, msg_size = 0\<rparr> [1, 2] =
           Inr (Some buf) \<and>
         decapsulate network_codec buf = Inr (Some (\<lparr>from_node = 7, msg_type = UNICAST, to_node = Some 9, msg_size = 2\<rparr>,
           [1, 2] @ replicate 510 0))"
proof -
  let ?ctx = "\<lparr>from_node = 7, msg_type = UNICAST, to_node = Some 9, msg_size = 0\<rparr> :: u64 MessageContext"
  have "header_size network_codec (msg_type ?ctx) + length ([1, 2] :: bytes) \<le> kMaxMessageSize network_codec"
    by (simp add: header_size_def carries_to_node_def network_codec_sizes)
  from encapsulate_roundtrip [OF net.wire_codec_axioms this]
  obtain buf where "encapsulate network_codec ?ctx [1, 2] = Inr (Some buf)"
    "decapsulate network_codec buf = Inr (Some (?ctx\<lparr>msg_size := length ([1, 2] :: bytes)\<rparr>,
       [1, 2] @ replicate (kMaxMessageSize network_codec - length ([1, 2] :: bytes)) 0))"
    by (auto simp: carries_to_node_def)
  moreover have "length ([1, 2] :: bytes) = 2" "(512 :: nat) - 2 = 510" by simp_all
  ultimately show ?thesis unfolding network_codec_sizes by auto
qed

text \<open>
  The three outcomes of \<open>encapsulate\<close>, exactly. It refuses a message of an addressed type
  without a target; it runs over the end of its fixed-size buffer, unchecked, exactly when header
  and message together are longer than the buffer; otherwise it returns a full buffer.
\<close>

theorem encapsulate_outcomes:
  assumes "wire_codec C"
  shows "(encapsulate C ctx message = Inr None \<longleftrightarrow> carries_to_node (msg_type ctx) \<and> to_node ctx = None) \<and>
    (\<forall>f. encapsulate C ctx message = Inl f \<longleftrightarrow> f = BufferOverrun \<and>
           \<not> (carries_to_node (msg_type ctx) \<and> to_node ctx = None) \<and>
           kMaxMessageSize C < header_size C (msg_type ctx) + length message) \<and>
    (\<forall>buf. encapsulate C ctx message = Inr (Some buf) \<longrightarrow> length buf = kMaxMessageSize C)"
proof (intro conjI allI impI)
  show "length buf = kMaxMessageSize C" if "encapsulate C ctx message = Inr (Some buf)" for buf
    by (rule wire_codec.encapsulated_length(1) [OF assms that])
qed (auto simp: wire_codec.encapsulate_cases [OF assms])

theorem encapsulate_outcomes_witness:
  "encapsulate network_codec \<lparr>from_node = 7, msg_type = BROADCAST, to_node = None, msg_size = 0\<rparr> (replicate 502 1) =
     Inl BufferOverrun"
  using encapsulate_outcomes [OF net.wire_codec_axioms,
      of "\<lparr>from_node = 7, msg_type = BROADCAST, to_node = None, msg_size = 0\<rparr>" "replicate 502 1"]
  by (simp add: header_size_def carries_to_node_def network_codec_sizes)

text \<open>
  \<open>decapsulate\<close> is total on message buffers: no content of a full buffer, whoever sent it,
  makes the deserialisers run out of bytes. The result is a payload buffer of the full size, a
  target node exactly for the types that carry one, and a size field of 16 bits, which is not
  compared with the size of the buffer.
\<close>

theorem decapsulate_never_throws:
  assumes "wire_codec C" "length buf = kMaxMessageSize C"
  shows "\<exists>ctx payload. decapsulate C buf = Inr (Some (ctx, payload)) \<and>
     valid_type (msg_type ctx) \<and> (carries_to_node (msg_type ctx) \<longleftrightarrow> to_node ctx \<noteq> None) \<and>
     length payload = kMaxMessageSize C \<and> msg_size ctx < 2 ^ 16"
  by (rule wire_codec.decapsulate_total [OF assms])

theorem decapsulate_never_throws_witness:
  "\<exists>ctx payload. decapsulate network_codec (replicate 512 255) = Inr (Some (ctx, payload)) \<and>
     length payload = 512"
  using decapsulate_never_throws [OF net.wire_codec_axioms, of "replicate 512 255"]
  by (auto simp: network_codec_def)

end
