(* ===== verification/UdpTunnel.thy ===== *)
theory UdpTunnel
  imports Tunnel
begin

text \<open>
  \<open>include/ableton/extender/UdpTunnel.hpp\<close>: the peer table, the HELLO / KEEPALIVE / BYE
  handshake, the maintenance timer, and the routing of Link messages to and from other sites.

  Endpoints are a type variable \<open>'ep\<close>: the class only compares them. Every member function is a
  function from the tunnel's state to the new state and the list of actions it takes, in order: datagrams
  handed to the socket, calls on gateways, the unknown-peer callback, work posted to the IO
  thread and timer operations. \<open>sendRaw\<close> catches every exception of the socket, so a send has no
  other effect on the tunnel. \<open>std::chrono::system_clock::now()\<close> is an argument. Console and
  log output is not modelled.
\<close>

subsection \<open>State\<close>

definition kMaintenanceInterval :: time where
  "kMaintenanceInterval = seconds 5"

definition kKeepaliveTimeout :: time where
  "kKeepaliveTimeout = seconds 15"

datatype PeerConnectionState = DISCONNECTED | CONNECTING | CONNECTED

record 'ep PeerEntry =
  endpoint :: 'ep
  state :: PeerConnectionState
  last_seen :: time

text \<open>
  \<open>mUnknownPeerCallback\<close>: the default member initialiser calls \<open>reject()\<close>; a callback set
  by the application decides later, by calling \<open>accept\<close> or \<open>reject\<close>.
\<close>

datatype UnknownPeerCallback = AutoReject | Application

record ('g, 'n, 'ep) UdpTunnel = "('g, 'n) Tunnel" +
  is_running :: bool
  mPeers :: "'ep PeerEntry list"
  remoteNodeIdToPeerIdx :: "'n \<rightharpoonup> nat"
  mEndpointToPeerIdx :: "'ep \<rightharpoonup> nat"
  mPendingPeers :: "'ep set"
  mRejectedPeers :: "'ep set"
  mUnknownPeerCallback :: UnknownPeerCallback

datatype ('g, 'n, 'ep) action =
    SendTo bytes 'ep                        \<comment> \<open>\<open>mSocket.send\<close>\<close>
  | CallGateway "('g, 'n) gateway_call"
  | AskApplication 'ep                      \<comment> \<open>the application's unknown-peer callback\<close>
  | PostReject 'ep                          \<comment> \<open>\<open>reject()\<close> posts \<open>rejectPeer\<close> to the IO thread\<close>
  | PostListen | PostMaintenance            \<comment> \<open>the two calls the constructor posts\<close>
  | ReceiveAgain                            \<comment> \<open>\<open>listen()\<close> re-arms the socket\<close>
  | ArmTimer time | CancelTimer

type_synonym ('g, 'n, 'ep) result = "('g, 'n, 'ep) UdpTunnel \<times> ('g, 'n, 'ep) action list"

subsection \<open>Sending\<close>

definition encapsulatedSize :: "'n codec \<Rightarrow> TunnelMessageType \<Rightarrow> nat \<Rightarrow> nat" where
  "encapsulatedSize C type payloadSize =
     (let hasToNode = (type = UNICAST \<or> type = MEASUREMENT_PING \<or> type = MEASUREMENT_PONG)
      in size_u8 C + size_node C + (if hasToNode then size_node C else 0) + size_u16 C + payloadSize)"

definition sendRaw :: "bytes \<Rightarrow> nat \<Rightarrow> 'ep \<Rightarrow> ('g, 'n, 'ep) action list" where
  "sendRaw msg bytes to = [SendTo (take bytes msg) to]"

definition sendControlMessage ::
    "'n codec \<Rightarrow> TunnelMessageType \<Rightarrow> 'ep \<Rightarrow> ('g, 'n, 'ep) action list" where
  "sendControlMessage C type to =
     (case encapsulate C \<lparr>from_node = default_node C, msg_type = type, to_node = None, msg_size = 0\<rparr> [] of
        Inr (Some msg) \<Rightarrow> sendRaw msg (encapsulatedSize C type 0) to
      | _ \<Rightarrow> [])"

definition sendHello :: "'n codec \<Rightarrow> 'ep \<Rightarrow> ('g, 'n, 'ep) action list" where
  "sendHello C to = sendControlMessage C TUNNEL_HELLO to"

definition sendKeepalive :: "'n codec \<Rightarrow> 'ep \<Rightarrow> ('g, 'n, 'ep) action list" where
  "sendKeepalive C to = sendControlMessage C TUNNEL_KEEPALIVE to"

definition sendBye :: "'n codec \<Rightarrow> 'ep \<Rightarrow> ('g, 'n, 'ep) action list" where
  "sendBye C to = sendControlMessage C TUNNEL_BYE to"

subsection \<open>The peer table\<close>

definition erasePeerNodeIds :: "nat \<Rightarrow> ('g, 'n, 'ep) UdpTunnel \<Rightarrow> ('g, 'n, 'ep) UdpTunnel" where
  "erasePeerNodeIds peerIdx t =
     t\<lparr>remoteNodeIdToPeerIdx := erase_value peerIdx (remoteNodeIdToPeerIdx t)\<rparr>"

fun index_from :: "nat \<Rightarrow> 'ep PeerEntry list \<Rightarrow> ('ep \<rightharpoonup> nat) \<Rightarrow> ('ep \<rightharpoonup> nat)" where
  "index_from i [] m = m"
| "index_from i (p # ps) m = index_from (Suc i) ps (m(endpoint p \<mapsto> i))"

definition rebuildEndpointIndex :: "('g, 'n, 'ep) UdpTunnel \<Rightarrow> ('g, 'n, 'ep) UdpTunnel" where
  "rebuildEndpointIndex t = t\<lparr>mEndpointToPeerIdx := index_from 0 (mPeers t) Map.empty\<rparr>"

definition push_peer :: "'ep \<Rightarrow> ('g, 'n, 'ep) UdpTunnel \<Rightarrow> ('g, 'n, 'ep) UdpTunnel" where
  "push_peer ep t =
     t\<lparr>mPeers := mPeers t @ [\<lparr>endpoint = ep, state = DISCONNECTED, last_seen = 0\<rparr>],
       mEndpointToPeerIdx := (mEndpointToPeerIdx t)(ep \<mapsto> length (mPeers t))\<rparr>"

definition UdpTunnel_init :: "'ep list \<Rightarrow> ('g, 'n, 'ep) result" where
  "UdpTunnel_init initial_peers =
     (fold push_peer initial_peers
        \<lparr>gateways = [], mDedupCache = initial_cache, is_running = True, mPeers = [],
         remoteNodeIdToPeerIdx = Map.empty, mEndpointToPeerIdx = Map.empty,
         mPendingPeers = {}, mRejectedPeers = {}, mUnknownPeerCallback = AutoReject\<rparr>,
      [PostListen, PostMaintenance])"

definition addPeer :: "'n codec \<Rightarrow> 'ep \<Rightarrow> ('g, 'n, 'ep) UdpTunnel \<Rightarrow> ('g, 'n, 'ep) result" where
  "addPeer C ep t =
     (if mEndpointToPeerIdx t ep \<noteq> None then (t, [])
      else (push_peer ep t, sendHello C ep))"

definition removePeer ::
    "'n codec \<Rightarrow> 'ep \<Rightarrow> ('g, 'n, 'ep) UdpTunnel \<Rightarrow> fault + ('g, 'n, 'ep) result" where
  "removePeer C ep t =
     (case mEndpointToPeerIdx t ep of
        None \<Rightarrow> Inr (t, [])
      | Some idx \<Rightarrow>
          (let t1 = t\<lparr>remoteNodeIdToPeerIdx := erase_value idx (remoteNodeIdToPeerIdx t)\<rparr>;
               t2 = t1\<lparr>mEndpointToPeerIdx := (mEndpointToPeerIdx t1)(ep := None)\<rparr>
           in if length (mPeers t2) \<le> idx then Inl IndexOutOfRange
              else Inr (rebuildEndpointIndex
                          (t2\<lparr>mPeers := take idx (mPeers t2) @ drop (Suc idx) (mPeers t2)\<rparr>),
                        sendBye C ep)))"

definition setUnknownPeerCallback ::
    "UnknownPeerCallback \<Rightarrow> ('g, 'n, 'ep) UdpTunnel \<Rightarrow> ('g, 'n, 'ep) UdpTunnel" where
  "setUnknownPeerCallback cb t = t\<lparr>mUnknownPeerCallback := cb\<rparr>"

text \<open>The closures that \<open>accept()\<close> and \<open>reject()\<close> post, run on the IO thread.\<close>

definition acceptPeer :: "'n codec \<Rightarrow> 'ep \<Rightarrow> ('g, 'n, 'ep) UdpTunnel \<Rightarrow> ('g, 'n, 'ep) result" where
  "acceptPeer C from t =
     (let t1 = t\<lparr>mPendingPeers := mPendingPeers t - {from}\<rparr>
      in if mEndpointToPeerIdx t1 from = None then (push_peer from t1, sendHello C from)
         else (t1, []))"

definition rejectPeer :: "'ep \<Rightarrow> ('g, 'n, 'ep) UdpTunnel \<Rightarrow> ('g, 'n, 'ep) UdpTunnel" where
  "rejectPeer from t =
     t\<lparr>mPendingPeers := mPendingPeers t - {from}, mRejectedPeers := insert from (mRejectedPeers t)\<rparr>"

definition handleUnknownPeer :: "'ep \<Rightarrow> ('g, 'n, 'ep) UdpTunnel \<Rightarrow> ('g, 'n, 'ep) result" where
  "handleUnknownPeer from t =
     (if from \<in> mRejectedPeers t then (t, [])
      else if from \<in> mPendingPeers t then (t, [])
      else (t\<lparr>mPendingPeers := insert from (mPendingPeers t)\<rparr>,
            (case mUnknownPeerCallback t of
               AutoReject \<Rightarrow> [PostReject from]
             | Application \<Rightarrow> [AskApplication from])))"

subsection \<open>Outbound messages\<close>

definition forward ::
    "'n codec \<Rightarrow> TunnelMessageType \<Rightarrow> 'n \<Rightarrow> bytes \<Rightarrow> 'n option \<Rightarrow> time \<Rightarrow> ('g, 'n, 'ep) UdpTunnel \<Rightarrow>
       fault + ('g, 'n, 'ep) result" where
  "forward C messageType from_node_id message to_node_id now t =
     (case shouldForward messageType from_node_id message now t of
        Inl f \<Rightarrow> Inl f
      | Inr (False, t1) \<Rightarrow> Inr (t1, [])
      | Inr (True, t1) \<Rightarrow>
          (case encapsulate C \<lparr>from_node = from_node_id, msg_type = messageType,
                               to_node = to_node_id, msg_size = 0\<rparr> message of
             Inl f \<Rightarrow> Inl f
           | Inr None \<Rightarrow> Inr (t1, [])
           | Inr (Some msg) \<Rightarrow>
               (let sendSize = encapsulatedSize C messageType (length message)
                in if messageType = UNICAST \<or> messageType = MEASUREMENT_PING then
                     (case to_node_id of
                        None \<Rightarrow> Inr (t1, [])
                      | Some to \<Rightarrow>
                          (case remoteNodeIdToPeerIdx t1 to of
                             Some i \<Rightarrow>
                               (if i < length (mPeers t1) \<and> state (mPeers t1 ! i) = CONNECTED
                                then Inr (t1, sendRaw msg sendSize (endpoint (mPeers t1 ! i)))
                                else Inr (t1, []))
                           | None \<Rightarrow> Inr (t1, [])))
                   else Inr (t1, concat (map (\<lambda>peer. if state peer = CONNECTED
                                                     then sendRaw msg sendSize (endpoint peer) else [])
                                             (mPeers t1))))))"

subsection \<open>Inbound messages\<close>

definition peer_at :: "('g, 'n, 'ep) UdpTunnel \<Rightarrow> nat \<Rightarrow> fault + 'ep PeerEntry" where
  "peer_at t i = (if i < length (mPeers t) then Inr (mPeers t ! i) else Inl IndexOutOfRange)"

definition handleHello ::
    "'n codec \<Rightarrow> 'ep \<Rightarrow> time \<Rightarrow> ('g, 'n, 'ep) UdpTunnel \<Rightarrow> fault + ('g, 'n, 'ep) result" where
  "handleHello C from now t =
     (case mEndpointToPeerIdx t from of
        None \<Rightarrow> Inr (handleUnknownPeer from t)
      | Some i \<Rightarrow>
          (case peer_at t i of
             Inl f \<Rightarrow> Inl f
           | Inr peer \<Rightarrow>
               (let wasConnected = (state peer = CONNECTED);
                    t1 = t\<lparr>mPeers := (mPeers t)[i := peer\<lparr>state := CONNECTED, last_seen := now\<rparr>]\<rparr>
                in Inr (t1, if wasConnected then [] else sendHello C from))))"

definition handleKeepalive ::
    "'ep \<Rightarrow> time \<Rightarrow> ('g, 'n, 'ep) UdpTunnel \<Rightarrow> fault + ('g, 'n, 'ep) result" where
  "handleKeepalive from now t =
     (case mEndpointToPeerIdx t from of
        None \<Rightarrow> Inr (t, [])
      | Some i \<Rightarrow>
          (case peer_at t i of
             Inl f \<Rightarrow> Inl f
           | Inr peer \<Rightarrow>
               (if state peer = CONNECTED
                then Inr (t\<lparr>mPeers := (mPeers t)[i := peer\<lparr>last_seen := now\<rparr>]\<rparr>, [])
                else Inr (t, []))))"

definition handleBye :: "'ep \<Rightarrow> ('g, 'n, 'ep) UdpTunnel \<Rightarrow> fault + ('g, 'n, 'ep) result" where
  "handleBye from t =
     (case mEndpointToPeerIdx t from of
        None \<Rightarrow> Inr (t, [])
      | Some i \<Rightarrow>
          (case peer_at t i of
             Inl f \<Rightarrow> Inl f
           | Inr peer \<Rightarrow>
               Inr (erasePeerNodeIds i (t\<lparr>mPeers := (mPeers t)[i := peer\<lparr>state := DISCONNECTED\<rparr>]\<rparr>), [])))"

definition emplace :: "'k \<Rightarrow> 'v \<Rightarrow> ('k \<rightharpoonup> 'v) \<Rightarrow> ('k \<rightharpoonup> 'v)" where
  "emplace k v m = (if m k = None then m(k \<mapsto> v) else m)"

text \<open>The branches \<open>BYEBYE\<close> and \<open>BROADCAST ... default\<close>, for a message \<open>message\<close> of the stated size.\<close>

definition handleByebye ::
    "'ep \<Rightarrow> 'n MessageContext \<Rightarrow> bytes \<Rightarrow> ('g, 'n, 'ep) UdpTunnel \<Rightarrow> fault + ('g, 'n, 'ep) result" where
  "handleByebye from context message t =
     (case mEndpointToPeerIdx t from of
        None \<Rightarrow> Inr (t, [])
      | Some i \<Rightarrow>
          (case peer_at t i of
             Inl f \<Rightarrow> Inl f
           | Inr peer \<Rightarrow>
               (if state peer \<noteq> CONNECTED then Inr (t, [])
                else Inr (t\<lparr>remoteNodeIdToPeerIdx := (remoteNodeIdToPeerIdx t)(from_node context := None)\<rparr>,
                          map CallGateway (forward_locally (msg_type context) (from_node context)
                                             message (to_node context) t)))))"

definition handleLinkMessage ::
    "'ep \<Rightarrow> 'n MessageContext \<Rightarrow> bytes \<Rightarrow> ('g, 'n, 'ep) UdpTunnel \<Rightarrow> fault + ('g, 'n, 'ep) result" where
  "handleLinkMessage from context message t =
     (case mEndpointToPeerIdx t from of
        None \<Rightarrow> Inr (t, [])
      | Some i \<Rightarrow>
          (case peer_at t i of
             Inl f \<Rightarrow> Inl f
           | Inr peer \<Rightarrow>
               (if state peer \<noteq> CONNECTED then Inr (t, [])
                else Inr (t\<lparr>remoteNodeIdToPeerIdx :=
                              emplace (from_node context) i (remoteNodeIdToPeerIdx t)\<rparr>,
                          map CallGateway (forward_locally (msg_type context) (from_node context)
                                             message (to_node context) t)))))"

text \<open>
  \<open>messageBegin + context.size\<close> is computed for every message before the dispatch. The size is
  the sender's 16-bit field; beyond the payload buffer the pointer, and every read through it, is
  out of bounds.
\<close>

definition handleReceive ::
    "'n codec \<Rightarrow> 'ep \<Rightarrow> bytes \<Rightarrow> time \<Rightarrow> ('g, 'n, 'ep) UdpTunnel \<Rightarrow> fault + ('g, 'n, 'ep) result" where
  "handleReceive C from buf now t =
     (case decapsulate C buf of
        Inl f \<Rightarrow> Inl f
      | Inr None \<Rightarrow> Inr (t, [])
      | Inr (Some (context, payload_buf)) \<Rightarrow>
          (if length payload_buf < msg_size context then Inl BufferOverrun
           else (let message = take (msg_size context) payload_buf
                 in case msg_type context of
                      TUNNEL_HELLO \<Rightarrow> handleHello C from now t
                    | TUNNEL_KEEPALIVE \<Rightarrow> handleKeepalive from now t
                    | TUNNEL_BYE \<Rightarrow> handleBye from t
                    | BYEBYE \<Rightarrow> handleByebye from context message t
                    | _ \<Rightarrow> handleLinkMessage from context message t)))"

text \<open>
  \<open>listen\<close>: the handler of one datagram. The bytes received are copied into a zeroed message
  buffer; the socket's own buffer has \<open>kMaxMessageSize\<close> bytes.
\<close>

definition receive_buffer :: "'n codec \<Rightarrow> bytes \<Rightarrow> bytes" where
  "receive_buffer C datagram =
     (let received = take (kMaxMessageSize C) datagram
      in received @ replicate (kMaxMessageSize C - length received) 0)"

definition on_datagram ::
    "'n codec \<Rightarrow> 'ep \<Rightarrow> bytes \<Rightarrow> time \<Rightarrow> ('g, 'n, 'ep) UdpTunnel \<Rightarrow> fault + ('g, 'n, 'ep) result" where
  "on_datagram C from datagram now t =
     (case handleReceive C from (receive_buffer C datagram) now t of
        Inl f \<Rightarrow> Inl f
      | Inr (t1, acts) \<Rightarrow> Inr (t1, acts @ (if is_running t1 then [ReceiveAgain] else [])))"

subsection \<open>Maintenance and shutdown\<close>

fun maintain_peers ::
    "'n codec \<Rightarrow> time \<Rightarrow> nat \<Rightarrow> 'ep PeerEntry list \<Rightarrow> ('n \<rightharpoonup> nat) \<Rightarrow>
       'ep PeerEntry list \<times> ('n \<rightharpoonup> nat) \<times> ('g, 'n, 'ep) action list" where
  "maintain_peers C now idx [] nodes = ([], nodes, [])"
| "maintain_peers C now idx (peer # peers) nodes =
     (case state peer of
        CONNECTED \<Rightarrow>
          (if kKeepaliveTimeout < now - last_seen peer then
             (let (ps, ns, acts) = maintain_peers C now (Suc idx) peers (erase_value idx nodes)
              in (peer\<lparr>state := DISCONNECTED\<rparr> # ps, ns, acts))
           else
             (let (ps, ns, acts) = maintain_peers C now (Suc idx) peers nodes
              in (peer # ps, ns, sendKeepalive C (endpoint peer) @ acts)))
      | _ \<Rightarrow>
          (let (ps, ns, acts) = maintain_peers C now (Suc idx) peers nodes
           in (peer\<lparr>state := CONNECTING\<rparr> # ps, ns, sendHello C (endpoint peer) @ acts)))"

definition runMaintenance :: "'n codec \<Rightarrow> time \<Rightarrow> ('g, 'n, 'ep) UdpTunnel \<Rightarrow> ('g, 'n, 'ep) result" where
  "runMaintenance C now t =
     (if \<not> is_running t then (t, [])
      else (let (ps, ns, acts) = maintain_peers C now 0 (mPeers t) (remoteNodeIdToPeerIdx t)
            in (t\<lparr>mPeers := ps, remoteNodeIdToPeerIdx := ns\<rparr>, acts @ [ArmTimer kMaintenanceInterval])))"

definition stop_listening :: "'n codec \<Rightarrow> ('g, 'n, 'ep) UdpTunnel \<Rightarrow> ('g, 'n, 'ep) result" where
  "stop_listening C t =
     (t\<lparr>is_running := False, gateways := [], mPendingPeers := {}, mRejectedPeers := {},
        remoteNodeIdToPeerIdx := Map.empty, mEndpointToPeerIdx := Map.empty\<rparr>,
      CancelTimer #
      concat (map (\<lambda>peer. if state peer = CONNECTED then sendBye C (endpoint peer) else []) (mPeers t)) @
      map (\<lambda>g. CallGateway (StopListening g)) (gateways t))"

end
