(* ===== verification/UdpTunnel_Invariants.thy ===== *)
theory UdpTunnel_Invariants
  imports UdpTunnel
begin

text \<open>
  The UDP tunnel as a state machine: one rule of \<open>udp_step\<close> per way the tunnel is entered (a
  public member function, a posted closure, a received datagram, the timer), in any order. The
  theory shows what every reachable state satisfies: the endpoint index only points at the peer
  it names, pending and rejected peers are disjoint, the cache is well formed, and, as long as no
  peer is removed, every learned route leads to a connected peer.
\<close>

subsection \<open>Steps\<close>

datatype ('g, 'n, 'ep) event =
    AddPeer 'ep
  | RemovePeer 'ep
  | AcceptPeer 'ep
  | RejectPeer 'ep
  | SetCallback UnknownPeerCallback
  | Forward TunnelMessageType 'n bytes "'n option" time
  | Datagram 'ep bytes time
  | Maintenance time
  | Stop
  | AddGateway 'g
  | RemoveGateway 'g

inductive udp_step ::
    "'n codec \<Rightarrow> ('g, 'n, 'ep) UdpTunnel \<Rightarrow> ('g, 'n, 'ep) event \<Rightarrow> ('g, 'n, 'ep) action list \<Rightarrow>
       ('g, 'n, 'ep) UdpTunnel \<Rightarrow> bool" for C where
  step_add: "addPeer C ep t = (t', acts) \<Longrightarrow> udp_step C t (AddPeer ep) acts t'"
| step_remove: "removePeer C ep t = Inr (t', acts) \<Longrightarrow> udp_step C t (RemovePeer ep) acts t'"
| step_accept: "acceptPeer C ep t = (t', acts) \<Longrightarrow> udp_step C t (AcceptPeer ep) acts t'"
| step_reject: "udp_step C t (RejectPeer ep) [] (rejectPeer ep t)"
| step_callback: "udp_step C t (SetCallback cb) [] (setUnknownPeerCallback cb t)"
| step_forward: "forward C mt from msg to now t = Inr (t', acts) \<Longrightarrow>
    udp_step C t (Forward mt from msg to now) acts t'"
| step_datagram: "on_datagram C from d now t = Inr (t', acts) \<Longrightarrow> udp_step C t (Datagram from d now) acts t'"
| step_maintenance: "runMaintenance C now t = (t', acts) \<Longrightarrow> udp_step C t (Maintenance now) acts t'"
| step_stop: "stop_listening C t = (t', acts) \<Longrightarrow> udp_step C t Stop acts t'"
| step_add_gateway: "udp_step C t (AddGateway g) [] (addGateway g t)"
| step_remove_gateway: "udp_step C t (RemoveGateway g) [] (removeGateway g t)"

inductive_cases step_RemovePeerE: "udp_step C t (RemovePeer ep) acts t'"
inductive_cases step_DatagramE: "udp_step C t (Datagram from d now) acts t'"
inductive_cases step_MaintenanceE: "udp_step C t (Maintenance now) acts t'"

definition udp_init :: "('g, 'n, 'ep) UdpTunnel \<Rightarrow> bool" where
  "udp_init t \<longleftrightarrow> (\<exists>eps. t = fst (UdpTunnel_init eps))"

definition udp_move :: "'n codec \<Rightarrow> ('g, 'n, 'ep) UdpTunnel \<Rightarrow> ('g, 'n, 'ep) UdpTunnel \<Rightarrow> bool" where
  "udp_move C t t' \<longleftrightarrow> (\<exists>e acts. udp_step C t e acts t')"

subsection \<open>The peer table\<close>

definition index_ok :: "('g, 'n, 'ep) UdpTunnel \<Rightarrow> bool" where
  "index_ok t \<longleftrightarrow>
     (\<forall>ep i. mEndpointToPeerIdx t ep = Some i \<longrightarrow> i < length (mPeers t) \<and> endpoint (mPeers t ! i) = ep)"

definition index_complete :: "('g, 'n, 'ep) UdpTunnel \<Rightarrow> bool" where
  "index_complete t \<longleftrightarrow> (is_running t \<longrightarrow> endpoint ` set (mPeers t) \<subseteq> dom (mEndpointToPeerIdx t))"

definition udp_ok :: "('g, 'n, 'ep) UdpTunnel \<Rightarrow> bool" where
  "udp_ok t \<longleftrightarrow> index_ok t \<and> index_complete t \<and> mPendingPeers t \<inter> mRejectedPeers t = {} \<and>
     distinct (gateways t) \<and> dedup_ok (mDedupCache t)"

lemma udp_okD:
  assumes "udp_ok t"
  shows "index_ok t" "index_complete t" "mPendingPeers t \<inter> mRejectedPeers t = {}"
    "distinct (gateways t)" "dedup_ok (mDedupCache t)"
  using assms by (auto simp: udp_ok_def)

lemma index_okD: "index_ok t \<Longrightarrow> mEndpointToPeerIdx t ep = Some i \<Longrightarrow>
    i < length (mPeers t) \<and> endpoint (mPeers t ! i) = ep"
  by (simp add: index_ok_def)

text \<open>Both table predicates only read the endpoints of the peers.\<close>

lemma index_ok_cong:
  assumes "map endpoint (mPeers t') = map endpoint (mPeers t)" "mEndpointToPeerIdx t' = mEndpointToPeerIdx t"
  shows "index_ok t' \<longleftrightarrow> index_ok t"
  using assms map_eq_imp_length_eq [OF assms(1)] unfolding index_ok_def by (metis nth_map)

lemma index_complete_cong:
  assumes "map endpoint (mPeers t') = map endpoint (mPeers t)" "mEndpointToPeerIdx t' = mEndpointToPeerIdx t"
    "is_running t' = is_running t"
  shows "index_complete t' \<longleftrightarrow> index_complete t"
  using assms unfolding index_complete_def by (metis list.set_map)

lemma udp_ok_cong:
  assumes "map endpoint (mPeers t') = map endpoint (mPeers t)" "mEndpointToPeerIdx t' = mEndpointToPeerIdx t"
    "is_running t' = is_running t" "mPendingPeers t' = mPendingPeers t" "mRejectedPeers t' = mRejectedPeers t"
    "gateways t' = gateways t" "dedup_ok (mDedupCache t')"
  shows "udp_ok t \<Longrightarrow> udp_ok t'"
  using assms index_ok_cong index_complete_cong unfolding udp_ok_def by metis

lemma map_endpoint_update:
  "endpoint p = endpoint (ps ! i) \<Longrightarrow> map endpoint (ps[i := p]) = map endpoint ps"
  by (metis list_update_id map_update)

lemma index_from_Some:
  "index_from i ps m ep = Some j \<Longrightarrow>
     (\<exists>k < length ps. j = i + k \<and> endpoint (ps ! k) = ep) \<or> m ep = Some j"
proof (induction ps arbitrary: i m)
  case (Cons p ps)
  then have "index_from (Suc i) ps (m(endpoint p \<mapsto> i)) ep = Some j" by simp
  from Cons.IH [OF this] show ?case
  proof (elim disjE exE conjE)
    fix k assume "k < length ps" "j = Suc i + k" "endpoint (ps ! k) = ep"
    then show ?thesis by (intro disjI1 exI [of _ "Suc k"]) simp
  next
    assume "(m(endpoint p \<mapsto> i)) ep = Some j"
    then show ?thesis by (cases "ep = endpoint p") (auto intro: exI [of _ 0])
  qed
qed simp

lemma dom_index_from: "dom (index_from i ps m) = dom m \<union> endpoint ` set ps"
  by (induction ps arbitrary: i m) auto

lemma index_ok_rebuild: "index_ok (rebuildEndpointIndex t)"
  unfolding index_ok_def rebuildEndpointIndex_def
  by (auto dest: index_from_Some)

lemma index_complete_rebuild: "index_complete (rebuildEndpointIndex t)"
  by (simp add: index_complete_def rebuildEndpointIndex_def dom_index_from)

lemma index_ok_push: "index_ok t \<Longrightarrow> index_ok (push_peer ep t)"
  by (fastforce simp: index_ok_def push_peer_def nth_append split: if_splits)

lemma index_complete_push: "index_complete t \<Longrightarrow> index_complete (push_peer ep t)"
  by (auto simp: index_complete_def push_peer_def)

lemma udp_ok_push: "udp_ok t \<Longrightarrow> udp_ok (push_peer ep t)"
  using index_ok_push [of t ep] index_complete_push [of t ep]
  by (simp add: udp_ok_def push_peer_def)

lemma udp_ok_fold_push: "udp_ok t \<Longrightarrow> udp_ok (fold push_peer eps t)"
  by (induction eps arbitrary: t) (auto intro: udp_ok_push)

lemma udp_ok_empty:
  "udp_ok \<lparr>gateways = [], mDedupCache = initial_cache, is_running = True, mPeers = [],
     remoteNodeIdToPeerIdx = Map.empty, mEndpointToPeerIdx = Map.empty,
     mPendingPeers = {}, mRejectedPeers = {}, mUnknownPeerCallback = AutoReject\<rparr>"
  by (simp add: udp_ok_def index_ok_def index_complete_def dedup_ok_initial_cache)

lemma udp_ok_UdpTunnel_init: "udp_ok (fst (UdpTunnel_init eps))"
  using udp_ok_fold_push [OF udp_ok_empty] by (simp add: UdpTunnel_init_def)

lemma udp_ok_init: "udp_init t \<Longrightarrow> udp_ok t"
  unfolding udp_init_def using udp_ok_UdpTunnel_init by blast

subsection \<open>Maintenance, peer by peer\<close>

definition timed_out :: "time \<Rightarrow> 'ep PeerEntry \<Rightarrow> bool" where
  "timed_out now p \<longleftrightarrow> state p = CONNECTED \<and> kKeepaliveTimeout < now - last_seen p"

definition maintained :: "time \<Rightarrow> 'ep PeerEntry \<Rightarrow> 'ep PeerEntry" where
  "maintained now p =
     (if timed_out now p then p\<lparr>state := DISCONNECTED\<rparr>
      else if state p = CONNECTED then p else p\<lparr>state := CONNECTING\<rparr>)"

definition maintenance_sends :: "'n codec \<Rightarrow> time \<Rightarrow> 'ep PeerEntry \<Rightarrow> ('g, 'n, 'ep) action list" where
  "maintenance_sends C now p =
     (if timed_out now p then []
      else if state p = CONNECTED then sendKeepalive C (endpoint p) else sendHello C (endpoint p))"

lemma maintain_peers_eq:
  "maintain_peers C now idx ps nodes =
     (map (maintained now) ps,
      (\<lambda>n. case nodes n of
             Some j \<Rightarrow> if idx \<le> j \<and> j < idx + length ps \<and> timed_out now (ps ! (j - idx)) then None else Some j
           | None \<Rightarrow> None),
      concat (map (maintenance_sends C now) ps))"
proof (induction ps arbitrary: idx nodes)
  case Nil
  then show ?case by (auto simp: fun_eq_iff split: option.splits)
next
  case (Cons p ps)
  have shift: "(p # ps) ! (j - idx) = (if j = idx then p else ps ! (j - Suc idx))" if "idx \<le> j" for j
    using that by (auto simp: nth_Cons')
  have eq: "(\<lambda>n. case erase_value idx nodes n of
             Some j \<Rightarrow> if Suc idx \<le> j \<and> j < Suc idx + length ps \<and> timed_out now (ps ! (j - Suc idx)) then None else Some j
           | None \<Rightarrow> None) =
      (\<lambda>n. case nodes n of
             Some j \<Rightarrow> if idx \<le> j \<and> j < idx + length (p # ps) \<and> timed_out now ((p # ps) ! (j - idx)) then None else Some j
           | None \<Rightarrow> None)" if "timed_out now p"
    using that by (auto simp: fun_eq_iff erase_value_def shift split: option.splits if_splits)
  have eq': "(\<lambda>n. case nodes n of
             Some j \<Rightarrow> if Suc idx \<le> j \<and> j < Suc idx + length ps \<and> timed_out now (ps ! (j - Suc idx)) then None else Some j
           | None \<Rightarrow> None) =
      (\<lambda>n. case nodes n of
             Some j \<Rightarrow> if idx \<le> j \<and> j < idx + length (p # ps) \<and> timed_out now ((p # ps) ! (j - idx)) then None else Some j
           | None \<Rightarrow> None)" if "\<not> timed_out now p"
    using that by (auto simp: fun_eq_iff shift split: option.splits if_splits)
  show ?case
  proof (cases "timed_out now p")
    case True
    then show ?thesis using eq [OF True]
      by (simp add: Cons.IH timed_out_def maintained_def maintenance_sends_def)
  next
    case False
    then show ?thesis using eq' [OF False]
      by (auto simp: Cons.IH timed_out_def maintained_def maintenance_sends_def split: PeerConnectionState.split)
  qed
qed

lemma endpoint_maintained [simp]: "endpoint (maintained now p) = endpoint p"
  by (simp add: maintained_def)

lemma runMaintenance_eq:
  "runMaintenance C now t =
     (if is_running t then
        (t\<lparr>mPeers := map (maintained now) (mPeers t),
           remoteNodeIdToPeerIdx :=
             (\<lambda>n. case remoteNodeIdToPeerIdx t n of
                    Some j \<Rightarrow> if j < length (mPeers t) \<and> timed_out now (mPeers t ! j) then None else Some j
                  | None \<Rightarrow> None)\<rparr>,
         concat (map (maintenance_sends C now) (mPeers t)) @ [ArmTimer kMaintenanceInterval])
      else (t, []))"
  by (simp add: runMaintenance_def maintain_peers_eq cong: option.case_cong)

subsection \<open>Every operation keeps the invariant\<close>

lemma peer_at_ok:
  assumes "index_ok t" "mEndpointToPeerIdx t ep = Some i"
  shows "peer_at t i = Inr (mPeers t ! i)"
  using index_okD [OF assms] by (simp add: peer_at_def)

lemma addPeer_ok: "udp_ok t \<Longrightarrow> udp_ok (fst (addPeer C ep t))"
  by (simp add: addPeer_def udp_ok_push)

lemma removePeer_ok:
  assumes "udp_ok t"
  obtains t' acts where "removePeer C ep t = Inr (t', acts)" "udp_ok t'"
proof (cases "mEndpointToPeerIdx t ep")
  case None
  with assms that show ?thesis by (simp add: removePeer_def)
next
  case (Some i)
  let ?t1 = "t\<lparr>remoteNodeIdToPeerIdx := erase_value i (remoteNodeIdToPeerIdx t),
               mEndpointToPeerIdx := (mEndpointToPeerIdx t)(ep := None),
               mPeers := take i (mPeers t) @ drop (Suc i) (mPeers t)\<rparr>"
  have "udp_ok (rebuildEndpointIndex ?t1)"
    using assms index_ok_rebuild [of ?t1] index_complete_rebuild [of ?t1]
    by (simp add: udp_ok_def rebuildEndpointIndex_def)
  moreover have "i < length (mPeers t)" using index_okD [OF udp_okD(1) [OF assms] Some] by simp
  ultimately show ?thesis using Some that by (simp add: removePeer_def)
qed

lemma udp_ok_pending:
  "udp_ok t \<Longrightarrow> P \<inter> R = {} \<Longrightarrow> udp_ok (t\<lparr>mPendingPeers := P, mRejectedPeers := R\<rparr>)"
  by (simp add: udp_ok_def index_ok_def index_complete_def)

lemma acceptPeer_ok: "udp_ok t \<Longrightarrow> udp_ok (fst (acceptPeer C ep t))"
  using udp_ok_pending [of t "mPendingPeers t - {ep}" "mRejectedPeers t"]
  by (auto simp: acceptPeer_def Let_def udp_okD(3) intro!: udp_ok_push) (auto simp: udp_ok_def)

lemma rejectPeer_ok: "udp_ok t \<Longrightarrow> udp_ok (rejectPeer ep t)"
  using udp_ok_pending [of t "mPendingPeers t - {ep}" "insert ep (mRejectedPeers t)"]
  by (auto simp: rejectPeer_def udp_ok_def)

lemma setUnknownPeerCallback_ok: "udp_ok t \<Longrightarrow> udp_ok (setUnknownPeerCallback cb t)"
  by (simp add: setUnknownPeerCallback_def udp_ok_def index_ok_def index_complete_def)

lemma handleUnknownPeer_ok: "udp_ok t \<Longrightarrow> udp_ok (fst (handleUnknownPeer ep t))"
  using udp_ok_pending [of t "insert ep (mPendingPeers t)" "mRejectedPeers t"]
  by (auto simp: handleUnknownPeer_def udp_ok_def)

lemma udp_ok_update_peer:
  assumes "udp_ok t" "endpoint p = endpoint (mPeers t ! i)"
  shows "udp_ok (t\<lparr>mPeers := (mPeers t)[i := p]\<rparr>)"
  by (rule udp_ok_cong [OF _ _ _ _ _ _ _ assms(1)]) (simp_all add: map_endpoint_update assms(2) udp_okD(5) [OF assms(1)])

lemma udp_ok_routes: "udp_ok (t\<lparr>remoteNodeIdToPeerIdx := m\<rparr>) \<longleftrightarrow> udp_ok t"
  by (simp add: udp_ok_def index_ok_def index_complete_def)

lemma udp_ok_cache: "udp_ok t \<Longrightarrow> dedup_ok c \<Longrightarrow> udp_ok (t\<lparr>mDedupCache := c\<rparr>)"
  by (simp add: udp_ok_def index_ok_def index_complete_def)

lemmas handler_defs = handleHello_def handleKeepalive_def handleBye_def handleByebye_def
  handleLinkMessage_def

text \<open>
  The five branches of the receive dispatch on a well-formed tunnel: none faults, each keeps
  the invariant.
\<close>

lemma handleHello_known:
  assumes "udp_ok t" "mEndpointToPeerIdx t ep = Some i"
  shows "handleHello C ep now t =
    Inr (t\<lparr>mPeers := (mPeers t)[i := (mPeers t ! i)\<lparr>state := CONNECTED, last_seen := now\<rparr>]\<rparr>,
         if state (mPeers t ! i) = CONNECTED then [] else sendHello C ep)"
  using assms by (simp add: handleHello_def peer_at_ok [OF udp_okD(1)])

lemma handleHello_ok:
  assumes "udp_ok t"
  shows "\<exists>t' acts. handleHello C ep now t = Inr (t', acts) \<and> udp_ok t'"
proof (cases "mEndpointToPeerIdx t ep")
  case None
  obtain t' acts where "handleUnknownPeer ep t = (t', acts)" by force
  with None handleUnknownPeer_ok [OF assms, of ep] show ?thesis by (simp add: handleHello_def)
next
  case (Some i)
  then show ?thesis using assms by (simp add: handleHello_known udp_ok_update_peer)
qed

lemma handleKeepalive_ok:
  assumes "udp_ok t"
  shows "\<exists>t' acts. handleKeepalive ep now t = Inr (t', acts) \<and> udp_ok t'"
  using assms
  by (cases "mEndpointToPeerIdx t ep") (simp_all add: handleKeepalive_def peer_at_ok udp_okD(1) udp_ok_update_peer)

lemma handleBye_ok:
  assumes "udp_ok t"
  shows "\<exists>t' acts. handleBye ep t = Inr (t', acts) \<and> udp_ok t'"
  using assms
  by (cases "mEndpointToPeerIdx t ep")
     (simp_all add: handleBye_def peer_at_ok udp_okD(1) udp_ok_update_peer erasePeerNodeIds_def udp_ok_routes)

lemma handleByebye_ok:
  assumes "udp_ok t"
  shows "\<exists>t' acts. handleByebye ep ctx msg t = Inr (t', acts) \<and> udp_ok t'"
  using assms
  by (cases "mEndpointToPeerIdx t ep") (simp_all add: handleByebye_def peer_at_ok udp_okD(1) udp_ok_routes)

lemma handleLinkMessage_ok:
  assumes "udp_ok t"
  shows "\<exists>t' acts. handleLinkMessage ep ctx msg t = Inr (t', acts) \<and> udp_ok t'"
  using assms
  by (cases "mEndpointToPeerIdx t ep") (simp_all add: handleLinkMessage_def peer_at_ok udp_okD(1) udp_ok_routes)

lemmas handlers_ok = handleHello_ok handleKeepalive_ok handleBye_ok handleByebye_ok handleLinkMessage_ok

lemma handleReceive_ok:
  assumes "udp_ok t" "decapsulate C buf = Inr (Some (ctx, payload))" "msg_size ctx \<le> length payload"
  shows "\<exists>t' acts. handleReceive C ep buf now t = Inr (t', acts) \<and> udp_ok t'"
  using assms(2,3) handlers_ok [OF assms(1)]
  by (cases "msg_type ctx") (simp_all add: handleReceive_def not_less)

lemma handleReceive_keeps_ok:
  assumes "udp_ok t" "handleReceive C ep buf now t = Inr (t', acts)"
  shows "udp_ok t'"
proof (cases "decapsulate C buf")
  case (Inl f)
  with assms(2) show ?thesis by (simp add: handleReceive_def)
next
  case (Inr r)
  show ?thesis
  proof (cases r)
    case None
    with Inr assms show ?thesis by (simp add: handleReceive_def)
  next
    case (Some p)
    obtain ctx payload where p: "p = (ctx, payload)" by force
    have "msg_size ctx \<le> length payload"
      using assms(2) Inr Some p by (simp add: handleReceive_def not_le [symmetric] split: if_splits)
    with handleReceive_ok [OF assms(1), of C buf ctx payload ep now] Inr Some p assms(2)
    show ?thesis by auto
  qed
qed

lemma on_datagram_keeps_ok:
  "udp_ok t \<Longrightarrow> on_datagram C ep d now t = Inr (t', acts) \<Longrightarrow> udp_ok t'"
  by (auto simp: on_datagram_def split: sum.splits prod.splits dest: handleReceive_keeps_ok)

text \<open>\<open>forward\<close> changes nothing but the duplicate cache.\<close>

lemma forward_frame:
  assumes "udp_ok t" "forward C mt n msg to now t = Inr (t', acts)"
  obtains c where "t' = t\<lparr>mDedupCache := c\<rparr>" "dedup_ok c"
proof -
  obtain go c where c: "shouldForward mt n msg now t = Inr (go, t\<lparr>mDedupCache := c\<rparr>)" "dedup_ok c"
    using shouldForward_ok [OF udp_okD(5) [OF assms(1)]] by metis
  have "t' = t\<lparr>mDedupCache := c\<rparr>"
    using assms(2) c(1)
    by (auto simp: forward_def Let_def split: bool.splits sum.splits option.splits if_splits)
  with c(2) that show ?thesis by blast
qed

lemma runMaintenance_ok: "udp_ok t \<Longrightarrow> udp_ok (fst (runMaintenance C now t))"
  by (auto simp: runMaintenance_eq udp_okD(5) intro!: udp_ok_cong [of _ t])

lemma stop_listening_ok: "udp_ok t \<Longrightarrow> udp_ok (fst (stop_listening C t))"
  by (simp add: stop_listening_def udp_ok_def index_ok_def index_complete_def)

lemma udp_ok_gateways: "udp_ok t \<Longrightarrow> distinct gs \<Longrightarrow> udp_ok (t\<lparr>gateways := gs\<rparr>)"
  by (simp add: udp_ok_def index_ok_def index_complete_def)

lemma addGateway_ok: "udp_ok t \<Longrightarrow> udp_ok (addGateway g t)"
  by (simp add: addGateway_def udp_ok_gateways udp_okD(4))

lemma removeGateway_ok: "udp_ok t \<Longrightarrow> udp_ok (removeGateway g t)"
  by (simp add: removeGateway_def udp_ok_gateways udp_okD(4) distinct_remove1)

lemma udp_step_ok: "udp_step C t e acts t' \<Longrightarrow> udp_ok t \<Longrightarrow> udp_ok t'"
proof (induction rule: udp_step.induct)
  case (step_add ep t t' acts)
  then show ?case using addPeer_ok [of t C ep] by simp
next
  case (step_remove ep t t' acts)
  then show ?case using removePeer_ok [of t C ep] by (metis old.sum.inject(2) prod.inject)
next
  case (step_accept ep t t' acts)
  then show ?case using acceptPeer_ok [of t C ep] by simp
next
  case (step_forward mt n msg to now t t' acts)
  then show ?case using forward_frame udp_ok_cache by metis
next
  case (step_maintenance now t t' acts)
  then show ?case using runMaintenance_ok [of t C now] by simp
next
  case (step_stop t t' acts)
  then show ?case using stop_listening_ok [of t C] by simp
qed (auto intro: rejectPeer_ok setUnknownPeerCallback_ok on_datagram_keeps_ok addGateway_ok removeGateway_ok)

interpretation udp: invariant_system udp_init "udp_move C" udp_ok
  by unfold_locales (auto simp: udp_move_def intro: udp_ok_init udp_step_ok)

end
