(* ===== verification/UdpTunnel_Routing.thy ===== *)
theory UdpTunnel_Routing
  imports UdpTunnel_Invariants
begin

text \<open>
  Routing by the UDP tunnel: what \<open>forward\<close> sends and to whom, what a received datagram makes the
  tunnel do, and which learned routes are valid. A route (an entry of
  \<open>remoteNodeIdToPeerIdx\<close>) is valid when it leads to a connected peer; every step but
  \<open>removePeer\<close> keeps all routes valid.
\<close>

subsection \<open>What is on the wire\<close>

definition datagram_of :: "'n codec \<Rightarrow> 'n MessageContext \<Rightarrow> bytes \<Rightarrow> bytes" where
  "datagram_of C ctx message = header_bytes C ctx @ put_u16 C (of_nat (length message)) @ message"

abbreviation outbound :: "TunnelMessageType \<Rightarrow> 'n \<Rightarrow> 'n option \<Rightarrow> 'n MessageContext" where
  "outbound mt n to \<equiv> \<lparr>from_node = n, msg_type = mt, to_node = to, msg_size = 0\<rparr>"

abbreviation control :: "'n codec \<Rightarrow> TunnelMessageType \<Rightarrow> 'n MessageContext" where
  "control C mt \<equiv> outbound mt (default_node C) None"

lemma encapsulatedSize_header: "encapsulatedSize C mt k = header_size C mt + k"
  by (simp add: encapsulatedSize_def header_size_def carries_to_node_def)

context wire_codec
begin

lemma length_datagram_of: "length (datagram_of C ctx message) = header_size C (msg_type ctx) + length message"
  using length_header [of ctx] by (simp add: datagram_of_def)

lemma take_encapsulated:
  assumes "encapsulate C ctx message = Inr (Some buf)"
  shows "take (encapsulatedSize C (msg_type ctx) (length message)) buf = datagram_of C ctx message"
    and "receive_buffer C (datagram_of C ctx message) = buf"
  using assms length_header [of ctx] length_datagram_of [of ctx message] encapsulated_length(2) [OF assms]
  by (auto simp: encapsulate_cases datagram_of_def encapsulatedSize_header receive_buffer_def Let_def
      add.assoc [symmetric] split: if_splits)

lemma length_receive_buffer [simp]: "length (receive_buffer C d) = kMaxMessageSize C"
  by (simp add: receive_buffer_def Let_def)

lemma encapsulate_fits:
  assumes "header_size C (msg_type ctx) + length message \<le> kMaxMessageSize C"
    and "carries_to_node (msg_type ctx) \<Longrightarrow> to_node ctx \<noteq> None"
  obtains buf where "encapsulate C ctx message = Inr (Some buf)"
  using assms encapsulate_cases [of ctx message] by (auto simp: not_less)

text \<open>A control message always fits; what is sent decodes to the same type with an empty message.\<close>

lemma control_encapsulated:
  assumes "\<not> carries_to_node mt"
  shows "\<exists>buf. encapsulate C (control C mt) [] = Inr (Some buf)"
  using assms header_size_less [of mt] by (simp add: encapsulate_cases not_less)

lemma sendControlMessage_eq:
  assumes "\<not> carries_to_node mt"
  shows "sendControlMessage C mt ep = [SendTo (datagram_of C (control C mt) []) ep]"
  using control_encapsulated [OF assms] take_encapsulated(1) [of "control C mt" "[]"]
  by (auto simp: sendControlMessage_def sendRaw_def)

lemma sendHello_eq: "sendHello C ep = [SendTo (datagram_of C (control C TUNNEL_HELLO) []) ep]"
  and sendKeepalive_eq: "sendKeepalive C ep = [SendTo (datagram_of C (control C TUNNEL_KEEPALIVE) []) ep]"
  and sendBye_eq: "sendBye C ep = [SendTo (datagram_of C (control C TUNNEL_BYE) []) ep]"
  by (simp_all add: sendHello_def sendKeepalive_def sendBye_def sendControlMessage_eq carries_to_node_def)

lemma decapsulate_datagram:
  assumes "header_size C (msg_type ctx) + length message \<le> kMaxMessageSize C"
    and "valid_type (msg_type ctx)" "carries_to_node (msg_type ctx) \<longleftrightarrow> to_node ctx \<noteq> None"
  shows "decapsulate C (receive_buffer C (datagram_of C ctx message)) =
     Inr (Some (ctx\<lparr>msg_size := length message\<rparr>, message @ replicate (kMaxMessageSize C - length message) 0))"
proof -
  obtain buf where buf: "encapsulate C ctx message = Inr (Some buf)"
    using encapsulate_fits [OF assms(1)] assms(3) by blast
  then show ?thesis using decapsulate_encapsulate [OF buf assms(2,3)] take_encapsulated(2) [OF buf] by simp
qed

text \<open>A datagram that ends after the size field: the size is whatever it says.\<close>

lemma decapsulate_bare_header:
  assumes "valid_type (msg_type ctx)" "carries_to_node (msg_type ctx) \<longleftrightarrow> to_node ctx \<noteq> None"
  shows "decapsulate C (receive_buffer C (header_bytes C ctx @ put_u16 C w)) =
     Inr (Some (ctx\<lparr>msg_size := unat w\<rparr>, replicate (kMaxMessageSize C) 0))"
proof -
  let ?k = "header_size C (msg_type ctx)"
  have len: "length (header_bytes C ctx @ put_u16 C w) = ?k" using length_header [of ctx] by simp
  have "receive_buffer C (header_bytes C ctx @ put_u16 C w) =
      header_bytes C ctx @ put_u16 C w @ replicate (kMaxMessageSize C - ?k) 0"
    using header_size_less [of "msg_type ctx"] len by (simp add: receive_buffer_def Let_def)
  moreover have "replicate (kMaxMessageSize C - ?k) (0 :: byte) \<noteq> []"
    using header_size_less [of "msg_type ctx"] by simp
  ultimately show ?thesis using decapsulate_header [OF assms] header_size_less [of "msg_type ctx"]
    by (simp add: replicate_add [symmetric])
qed

lemma handleReceive_datagram:
  assumes "header_size C (msg_type ctx) + length message \<le> kMaxMessageSize C"
    and "valid_type (msg_type ctx)" "carries_to_node (msg_type ctx) \<longleftrightarrow> to_node ctx \<noteq> None"
  shows "handleReceive C ep (receive_buffer C (datagram_of C ctx message)) now t =
     (let ctx' = ctx\<lparr>msg_size := length message\<rparr>
      in case msg_type ctx of
           TUNNEL_HELLO \<Rightarrow> handleHello C ep now t
         | TUNNEL_KEEPALIVE \<Rightarrow> handleKeepalive ep now t
         | TUNNEL_BYE \<Rightarrow> handleBye ep t
         | BYEBYE \<Rightarrow> handleByebye ep ctx' message t
         | _ \<Rightarrow> handleLinkMessage ep ctx' message t)"
proof -
  have "length message \<le> kMaxMessageSize C" using assms(1) by simp
  then show ?thesis by (simp add: handleReceive_def decapsulate_datagram [OF assms] Let_def)
qed

lemma handleReceive_control:
  "handleReceive C ep (receive_buffer C (datagram_of C (control C TUNNEL_HELLO) [])) now t = handleHello C ep now t"
  "handleReceive C ep (receive_buffer C (datagram_of C (control C TUNNEL_KEEPALIVE) [])) now t = handleKeepalive ep now t"
  "handleReceive C ep (receive_buffer C (datagram_of C (control C TUNNEL_BYE) [])) now t = handleBye ep t"
  using header_size_less
  by (simp_all add: handleReceive_datagram carries_to_node_def less_imp_le Let_def)

lemma on_datagram_hello:
  "on_datagram C ep (datagram_of C (control C TUNNEL_HELLO) []) now t =
     (case handleHello C ep now t of
        Inl f \<Rightarrow> Inl f
      | Inr (t1, acts) \<Rightarrow> Inr (t1, acts @ (if is_running t1 then [ReceiveAgain] else [])))"
  by (simp add: on_datagram_def handleReceive_control)

text \<open>A Link message of a connected peer: its node is learned, every gateway gets the message.\<close>

lemma on_datagram_link:
  assumes mt: "mt = BROADCAST \<or> mt = UNICAST \<or> mt = MEASUREMENT_PING \<or> mt = MEASUREMENT_PONG"
    and fits: "header_size C mt + length message \<le> kMaxMessageSize C"
    and to: "carries_to_node mt \<longleftrightarrow> to \<noteq> None"
    and ep: "mEndpointToPeerIdx t ep = Some i" "i < length (mPeers t)" "state (mPeers t ! i) = CONNECTED"
  shows "on_datagram C ep (datagram_of C (outbound mt n to) message) now t =
     Inr (t\<lparr>remoteNodeIdToPeerIdx := emplace n i (remoteNodeIdToPeerIdx t)\<rparr>,
          map CallGateway (forward_locally mt n message to t) @ (if is_running t then [ReceiveAgain] else []))"
proof -
  let ?ctx = "outbound mt n to"
  have v: "valid_type mt" using mt by auto
  have "handleReceive C ep (receive_buffer C (datagram_of C ?ctx message)) now t =
      handleLinkMessage ep (?ctx\<lparr>msg_size := length message\<rparr>) message t"
    using mt handleReceive_datagram [of ?ctx message ep now t] fits v to by (auto simp: Let_def)
  then show ?thesis using ep by (simp add: on_datagram_def handleLinkMessage_def peer_at_def)
qed

subsection \<open>What \<open>forward\<close> sends\<close>

lemma forward_unfold:
  assumes "shouldForward mt n msg now t = Inr (True, t1)"
    and fits: "header_size C mt + length msg \<le> kMaxMessageSize C"
    and to: "carries_to_node mt \<Longrightarrow> to \<noteq> None"
  shows "forward C mt n msg to now t =
     (let d = datagram_of C (outbound mt n to) msg
      in if mt = UNICAST \<or> mt = MEASUREMENT_PING then
           (case remoteNodeIdToPeerIdx t1 (the to) of
              Some i \<Rightarrow> Inr (t1, if i < length (mPeers t1) \<and> state (mPeers t1 ! i) = CONNECTED
                               then [SendTo d (endpoint (mPeers t1 ! i))] else [])
            | None \<Rightarrow> Inr (t1, []))
         else Inr (t1, map (\<lambda>p. SendTo d (endpoint p)) (filter (\<lambda>p. state p = CONNECTED) (mPeers t1))))"
proof -
  obtain buf where buf: "encapsulate C (outbound mt n to) msg = Inr (Some buf)"
    using encapsulate_fits [of "outbound mt n to" msg] fits to by auto
  have sent: "take (encapsulatedSize C mt (length msg)) buf = datagram_of C (outbound mt n to) msg"
    using take_encapsulated(1) [OF buf] by simp
  show ?thesis
  proof (cases "mt = UNICAST \<or> mt = MEASUREMENT_PING")
    case True
    then obtain m where "to = Some m" using to by (auto simp: carries_to_node_def)
    with True assms(1) buf sent show ?thesis
      by (simp add: forward_def sendRaw_def Let_def split: option.split)
  next
    case False
    with assms(1) buf sent show ?thesis
      by (simp add: forward_def sendRaw_def Let_def concat_map_if_singleton cong: if_cong)
  qed
qed

lemma forward_duplicate:
  "shouldForward mt n msg now t = Inr (False, t1) \<Longrightarrow> forward C mt n msg to now t = Inr (t1, [])"
  by (simp add: forward_def)

end

subsection \<open>Case analysis of a received datagram\<close>

lemma handleReceive_elim [consumes 1, case_names nothing hello keepalive bye byebye link]:
  assumes "handleReceive C ep buf now t = Inr (t', acts)"
  obtains "t' = t" "acts = []"
  | "handleHello C ep now t = Inr (t', acts)"
  | "handleKeepalive ep now t = Inr (t', acts)"
  | "handleBye ep t = Inr (t', acts)" "\<exists>ctx p. decapsulate C buf = Inr (Some (ctx, p)) \<and> msg_type ctx = TUNNEL_BYE"
  | ctx msg where "handleByebye ep ctx msg t = Inr (t', acts)" "msg_type ctx = BYEBYE"
      "\<exists>p. decapsulate C buf = Inr (Some (ctx, p))"
  | ctx msg where "handleLinkMessage ep ctx msg t = Inr (t', acts)"
proof (cases "decapsulate C buf")
  case (Inl f)
  with assms show ?thesis by (simp add: handleReceive_def)
next
  case (Inr r)
  show ?thesis
  proof (cases r)
    case None
    with Inr assms that(1) show ?thesis by (simp add: handleReceive_def)
  next
    case (Some p)
    obtain ctx payload where p: "p = (ctx, payload)" by force
    let ?msg = "take (msg_size ctx) payload"
    have "(case msg_type ctx of TUNNEL_HELLO \<Rightarrow> handleHello C ep now t
            | TUNNEL_KEEPALIVE \<Rightarrow> handleKeepalive ep now t | TUNNEL_BYE \<Rightarrow> handleBye ep t
            | BYEBYE \<Rightarrow> handleByebye ep ctx ?msg t | _ \<Rightarrow> handleLinkMessage ep ctx ?msg t) = Inr (t', acts)"
      using assms Inr Some p by (simp add: handleReceive_def Let_def split: if_splits)
    then show ?thesis
      using that(2-4) that(5) [of ctx ?msg] that(6) [of ctx ?msg] Inr Some p by (cases "msg_type ctx") simp_all
  qed
qed

lemma on_datagram_elim:
  assumes "on_datagram C ep d now t = Inr (t', acts)"
  obtains acts' where "handleReceive C ep (receive_buffer C d) now t = Inr (t', acts')"
    "acts = acts' @ (if is_running t' then [ReceiveAgain] else [])"
  using assms by (auto simp: on_datagram_def split: sum.splits prod.splits)

lemma handleHello_elim:
  assumes "handleHello C ep now t = Inr (t', acts)"
  obtains "mEndpointToPeerIdx t ep = None" "handleUnknownPeer ep t = (t', acts)"
  | i where "mEndpointToPeerIdx t ep = Some i" "i < length (mPeers t)"
      "t' = t\<lparr>mPeers := (mPeers t)[i := (mPeers t ! i)\<lparr>state := CONNECTED, last_seen := now\<rparr>]\<rparr>"
      "acts = (if state (mPeers t ! i) = CONNECTED then [] else sendHello C ep)"
  using assms by (auto simp: handleHello_def peer_at_def Let_def split: option.splits if_splits)

lemma handleKeepalive_elim:
  assumes "handleKeepalive ep now t = Inr (t', acts)"
  obtains "t' = t" "acts = []"
  | i where "mEndpointToPeerIdx t ep = Some i" "i < length (mPeers t)" "state (mPeers t ! i) = CONNECTED"
      "t' = t\<lparr>mPeers := (mPeers t)[i := (mPeers t ! i)\<lparr>last_seen := now\<rparr>]\<rparr>" "acts = []"
  using assms by (auto simp: handleKeepalive_def peer_at_def split: option.splits if_splits)

lemma handleBye_elim:
  assumes "handleBye ep t = Inr (t', acts)"
  obtains "t' = t" "acts = []"
  | i where "mEndpointToPeerIdx t ep = Some i" "i < length (mPeers t)"
      "t' = erasePeerNodeIds i (t\<lparr>mPeers := (mPeers t)[i := (mPeers t ! i)\<lparr>state := DISCONNECTED\<rparr>]\<rparr>)" "acts = []"
  using assms by (auto simp: handleBye_def peer_at_def split: option.splits if_splits)

lemma handleByebye_elim:
  assumes "handleByebye ep ctx msg t = Inr (t', acts)"
  obtains "t' = t" "acts = []"
  | i where "mEndpointToPeerIdx t ep = Some i" "i < length (mPeers t)" "state (mPeers t ! i) = CONNECTED"
      "t' = t\<lparr>remoteNodeIdToPeerIdx := (remoteNodeIdToPeerIdx t)(from_node ctx := None)\<rparr>"
  using assms by (auto simp: handleByebye_def peer_at_def split: option.splits if_splits)

lemma handleLinkMessage_elim:
  assumes "handleLinkMessage ep ctx msg t = Inr (t', acts)"
  obtains "t' = t" "acts = []"
  | i where "mEndpointToPeerIdx t ep = Some i" "i < length (mPeers t)" "state (mPeers t ! i) = CONNECTED"
      "t' = t\<lparr>remoteNodeIdToPeerIdx := emplace (from_node ctx) i (remoteNodeIdToPeerIdx t)\<rparr>"
  using assms by (auto simp: handleLinkMessage_def peer_at_def split: option.splits if_splits)

lemma handleUnknownPeer_frame:
  assumes "handleUnknownPeer ep t = (t', acts)"
  shows "\<exists>P. t' = t\<lparr>mPendingPeers := P\<rparr>"
proof -
  have "t' = t \<or> t' = t\<lparr>mPendingPeers := insert ep (mPendingPeers t)\<rparr>"
    using assms by (auto simp: handleUnknownPeer_def split: if_splits)
  then show ?thesis
  proof
    assume "t' = t"
    then have "t' = t\<lparr>mPendingPeers := mPendingPeers t\<rparr>" by simp
    then show ?thesis by blast
  qed blast
qed

subsection \<open>Valid routes\<close>

definition routes_ok :: "('g, 'n, 'ep) UdpTunnel \<Rightarrow> bool" where
  "routes_ok t \<longleftrightarrow> (\<forall>n i. remoteNodeIdToPeerIdx t n = Some i \<longrightarrow>
     i < length (mPeers t) \<and> state (mPeers t ! i) = CONNECTED)"

definition udp_keep :: "'n codec \<Rightarrow> ('g, 'n, 'ep) UdpTunnel \<Rightarrow> ('g, 'n, 'ep) UdpTunnel \<Rightarrow> bool" where
  "udp_keep C t t' \<longleftrightarrow> (\<exists>e acts. udp_step C t e acts t' \<and> (\<forall>ep. e \<noteq> RemovePeer ep))"

lemma routes_ok_push: "routes_ok t \<Longrightarrow> routes_ok (push_peer ep t)"
  by (force simp: routes_ok_def push_peer_def nth_append)

lemma routes_ok_keep_peers:
  "mPeers t' = mPeers t \<Longrightarrow> remoteNodeIdToPeerIdx t' = remoteNodeIdToPeerIdx t \<Longrightarrow> routes_ok t \<Longrightarrow> routes_ok t'"
  by (simp add: routes_ok_def)

lemma routes_ok_update_connected:
  "routes_ok t \<Longrightarrow> state p = CONNECTED \<Longrightarrow> routes_ok (t\<lparr>mPeers := (mPeers t)[i := p]\<rparr>)"
  by (auto simp: routes_ok_def nth_list_update_if)

lemma routes_ok_bye:
  "routes_ok t \<Longrightarrow> routes_ok (erasePeerNodeIds i (t\<lparr>mPeers := (mPeers t)[i := p]\<rparr>))"
  by (auto simp: routes_ok_def erasePeerNodeIds_def nth_list_update_if)

lemma routes_ok_learn:
  "routes_ok t \<Longrightarrow> i < length (mPeers t) \<Longrightarrow> state (mPeers t ! i) = CONNECTED \<Longrightarrow>
     routes_ok (t\<lparr>remoteNodeIdToPeerIdx := emplace n i (remoteNodeIdToPeerIdx t)\<rparr>)"
  by (auto simp: routes_ok_def emplace_def)

lemma routes_ok_forget:
  "routes_ok t \<Longrightarrow> routes_ok (t\<lparr>remoteNodeIdToPeerIdx := (remoteNodeIdToPeerIdx t)(n := None)\<rparr>)"
  by (auto simp: routes_ok_def)

lemma routes_ok_receive:
  assumes "handleReceive C ep buf now t = Inr (t', acts)" "routes_ok t"
  shows "routes_ok t'"
  using assms(1)
proof (cases rule: handleReceive_elim)
  case hello
  then show ?thesis
  proof (cases rule: handleHello_elim)
    case 1
    then show ?thesis using handleUnknownPeer_frame assms(2) by (fastforce intro: routes_ok_keep_peers)
  qed (simp add: routes_ok_update_connected assms(2))
next
  case keepalive
  then show ?thesis
    by (cases rule: handleKeepalive_elim) (simp_all add: routes_ok_update_connected assms(2))
next
  case bye
  then show ?thesis by (cases rule: handleBye_elim) (simp_all add: routes_ok_bye assms(2))
next
  case (byebye ctx msg)
  then show ?thesis by (cases rule: handleByebye_elim) (simp_all add: routes_ok_forget assms(2))
next
  case (link ctx msg)
  then show ?thesis by (cases rule: handleLinkMessage_elim) (simp_all add: routes_ok_learn assms(2))
qed (simp add: assms(2))

lemma routes_ok_maintenance:
  assumes "routes_ok t"
  shows "routes_ok (fst (runMaintenance C now t))"
  using assms
  by (auto simp: routes_ok_def runMaintenance_eq maintained_def split: option.splits if_splits)

lemma udp_keep_routes:
  assumes "udp_step C t e acts t'" "\<And>ep. e \<noteq> RemovePeer ep" "udp_ok t" "routes_ok t"
  shows "routes_ok t'"
  using assms
proof (induction rule: udp_step.induct)
  case (step_add ep t t' acts)
  then show ?case by (auto simp: addPeer_def routes_ok_push split: if_splits)
next
  case (step_remove ep t t' acts)
  then show ?case by blast
next
  case (step_accept ep t t' acts)
  then show ?case
    using routes_ok_keep_peers [of "t\<lparr>mPendingPeers := mPendingPeers t - {ep}\<rparr>" t]
    by (auto simp: acceptPeer_def Let_def routes_ok_push split: if_splits)
next
  case (step_forward mt n msg to now t t' acts)
  then obtain c where "t' = t\<lparr>mDedupCache := c\<rparr>" using forward_frame by metis
  with step_forward.prems show ?case by (simp add: routes_ok_def)
next
  case (step_datagram ep d now t t' acts)
  then show ?case using routes_ok_receive by (metis on_datagram_elim)
next
  case (step_maintenance now t t' acts)
  then show ?case using routes_ok_maintenance [of t C now] by simp
next
  case (step_stop t t' acts)
  then show ?case by (auto simp: stop_listening_def routes_ok_def)
qed (auto simp: rejectPeer_def setUnknownPeerCallback_def addGateway_def removeGateway_def routes_ok_def)

lemma routes_ok_fold_push: "routes_ok t \<Longrightarrow> routes_ok (fold push_peer eps t)"
  by (induction eps arbitrary: t) (auto intro: routes_ok_push)

lemma routes_ok_empty: "remoteNodeIdToPeerIdx t = Map.empty \<Longrightarrow> routes_ok t"
  by (simp add: routes_ok_def)

lemma routes_ok_init: "udp_init t \<Longrightarrow> routes_ok t"
  unfolding udp_init_def UdpTunnel_init_def
  by (metis fst_conv routes_ok_empty routes_ok_fold_push UdpTunnel.select_convs(3))

interpretation udp_routes: invariant_system udp_init "udp_keep C" "\<lambda>t. udp_ok t \<and> routes_ok t"
  by unfold_locales
     (auto simp: udp_keep_def intro: udp_ok_init routes_ok_init udp_step_ok udp_keep_routes)

subsection \<open>The contract of a back end\<close>

lemma forward_cache:
  assumes "udp_ok t" "shouldForward mt n msg now t = Inr (go, t1)" "forward C mt n msg to now t = Inr (t', acts)"
  shows "t' = t1"
proof (cases go)
  case True
  with assms(2,3) show ?thesis
    by (simp add: forward_def Let_def split: sum.splits option.splits if_splits)
next
  case False
  with assms(2,3) show ?thesis by (simp add: forward_def)
qed

lemma forward_keeps_ok: "udp_ok t \<Longrightarrow> forward C mt n msg to now t = Inr (t', acts) \<Longrightarrow> udp_ok t'"
  using forward_frame udp_ok_cache by metis

interpretation udp_fwd: deduplicating_backend "forward C" fst "\<lambda>t r. snd r = []" mDedupCache udp_ok
  by unfold_locales
     (auto simp: shouldForward_deduplicated forward_def udp_okD(5)
        dest: forward_cache [OF _ shouldForward_deduplicated] intro: forward_keeps_ok)

end
