(* ===== verification/UdpTunnel_Properties.thy ===== *)
theory UdpTunnel_Properties
  imports UdpTunnel_Routing
begin

text \<open>
  The correctness properties of the UDP tunnel, with their witnesses. The witnesses use the
  network encoding of \<open>Wire\<close>, numbers as endpoints and gateways, and 64-bit node identifiers.
\<close>

subsection \<open>Helper lemmas\<close>

lemma is_running_step: "udp_step C t e acts t' \<Longrightarrow> udp_ok t \<Longrightarrow> \<not> is_running t \<Longrightarrow> \<not> is_running t'"
proof (induction rule: udp_step.induct)
  case (step_forward mt n msg to now t t' acts)
  then obtain c where "t' = t\<lparr>mDedupCache := c\<rparr>" using forward_frame by metis
  with step_forward.prems show ?case by simp
next
  case (step_datagram ep d now t t' acts)
  then obtain acts' where "handleReceive C ep (receive_buffer C d) now t = Inr (t', acts')"
    by (metis on_datagram_elim)
  then show ?case using step_datagram.prems
  proof (cases rule: handleReceive_elim)
    case hello
    then show ?thesis using step_datagram.prems
      by (cases rule: handleHello_elim) (auto dest!: handleUnknownPeer_frame)
  next
    case keepalive
    then show ?thesis using step_datagram.prems by (cases rule: handleKeepalive_elim) simp_all
  next
    case bye
    then show ?thesis using step_datagram.prems by (cases rule: handleBye_elim) (simp_all add: erasePeerNodeIds_def)
  next
    case (byebye ctx msg)
    then show ?thesis using step_datagram.prems by (cases rule: handleByebye_elim) simp_all
  next
    case (link ctx msg)
    then show ?thesis using step_datagram.prems by (cases rule: handleLinkMessage_elim) simp_all
  qed simp
next
  case (step_remove ep t t' acts)
  then show ?case by (auto simp: removePeer_def rebuildEndpointIndex_def Let_def split: option.splits if_splits)
qed (auto simp: addPeer_def acceptPeer_def push_peer_def rejectPeer_def setUnknownPeerCallback_def Let_def
      runMaintenance_def stop_listening_def addGateway_def removeGateway_def split: if_splits)

text \<open>An endpoint that is rejected and not in the peer table, under the steps that do not let it back in.\<close>

definition shut_out :: "'ep \<Rightarrow> ('g, 'n, 'ep) UdpTunnel \<Rightarrow> bool" where
  "shut_out ep t \<longleftrightarrow> udp_ok t \<and> ep \<in> mRejectedPeers t \<and> ep \<notin> endpoint ` set (mPeers t)"

definition readmits :: "'ep \<Rightarrow> ('g, 'n, 'ep) event \<Rightarrow> bool" where
  "readmits ep e \<longleftrightarrow> e = AddPeer ep \<or> e = AcceptPeer ep \<or> e = Stop"

definition udp_unadmitted :: "'n codec \<Rightarrow> 'ep \<Rightarrow> ('g, 'n, 'ep) UdpTunnel \<Rightarrow> ('g, 'n, 'ep) UdpTunnel \<Rightarrow> bool" where
  "udp_unadmitted C ep t t' \<longleftrightarrow> (\<exists>e acts. udp_step C t e acts t' \<and> \<not> readmits ep e)"

lemma shut_out_unindexed: "shut_out ep t \<Longrightarrow> mEndpointToPeerIdx t ep = None"
proof (rule ccontr)
  assume s: "shut_out ep t" and "mEndpointToPeerIdx t ep \<noteq> None"
  then obtain i where "mEndpointToPeerIdx t ep = Some i" by blast
  with s have "i < length (mPeers t)" "endpoint (mPeers t ! i) = ep"
    using index_okD udp_okD(1) unfolding shut_out_def by metis+
  with s show False by (auto simp: shut_out_def)
qed

lemma endpoints_of_cong:
  "map endpoint (mPeers t') = map endpoint (mPeers t) \<Longrightarrow> endpoint ` set (mPeers t') = endpoint ` set (mPeers t)"
  by (metis list.set_map)

lemma receive_endpoints:
  assumes "handleReceive C ep buf now t = Inr (t', acts)"
  shows "map endpoint (mPeers t') = map endpoint (mPeers t) \<and> mRejectedPeers t' = mRejectedPeers t"
  using assms
proof (cases rule: handleReceive_elim)
  case hello
  then show ?thesis
    by (cases rule: handleHello_elim) (auto simp: map_endpoint_update dest!: handleUnknownPeer_frame)
next
  case keepalive
  then show ?thesis by (cases rule: handleKeepalive_elim) (auto simp: map_endpoint_update)
next
  case bye
  then show ?thesis by (cases rule: handleBye_elim) (auto simp: map_endpoint_update erasePeerNodeIds_def)
next
  case (byebye ctx msg)
  then show ?thesis by (cases rule: handleByebye_elim) auto
next
  case (link ctx msg)
  then show ?thesis by (cases rule: handleLinkMessage_elim) auto
qed simp

lemma shut_out_step:
  assumes "udp_step C t e acts t'" "\<not> readmits ep e" "shut_out ep t"
  shows "shut_out ep t'"
proof -
  have "ep \<in> mRejectedPeers t' \<and> ep \<notin> endpoint ` set (mPeers t')"
    using assms
  proof (induction rule: udp_step.induct)
    case (step_remove ep' t t' acts)
    have sub: "e \<notin> endpoint ` set (mPeers t) \<Longrightarrow>
        e \<notin> endpoint ` set (take i (mPeers t) @ drop (Suc i) (mPeers t))" for e i
      by (auto dest: in_set_takeD in_set_dropD)
    from step_remove have "mPeers t' = mPeers t \<or>
        (\<exists>i. mPeers t' = take i (mPeers t) @ drop (Suc i) (mPeers t))"
      and "mRejectedPeers t' = mRejectedPeers t"
      by (auto simp: removePeer_def rebuildEndpointIndex_def Let_def split: option.splits if_splits)
    with step_remove.prems(2) sub show ?case unfolding shut_out_def by metis
  next
    case (step_forward mt n msg to now t t' acts)
    then obtain c where "t' = t\<lparr>mDedupCache := c\<rparr>" using forward_frame unfolding shut_out_def by metis
    with step_forward.prems show ?case by (simp add: shut_out_def)
  next
    case (step_datagram ep' d now t t' acts)
    then obtain acts' where "handleReceive C ep' (receive_buffer C d) now t = Inr (t', acts')"
      by (metis on_datagram_elim)
    from receive_endpoints [OF this] step_datagram.prems endpoints_of_cong [of t' t] show ?case
      by (simp add: shut_out_def)
  next
    case (step_maintenance now t t' acts)
    then show ?case by (auto simp: shut_out_def runMaintenance_eq split: if_splits)
  qed (auto simp: addPeer_def acceptPeer_def push_peer_def rejectPeer_def setUnknownPeerCallback_def Let_def
        stop_listening_def addGateway_def removeGateway_def shut_out_def readmits_def split: if_splits)
  then show ?thesis using assms udp_step_ok by (auto simp: shut_out_def)
qed

interpretation udp_shut: invariant_system "shut_out ep" "udp_unadmitted C ep" "shut_out ep"
  by unfold_locales (auto simp: udp_unadmitted_def intro: shut_out_step)

lemma shut_out_receive:
  assumes "shut_out ep t" "handleReceive C ep buf now t = Inr (t', acts)"
  shows "t' = t \<and> acts = []"
  using assms(2)
proof (cases rule: handleReceive_elim)
  case hello
  with assms(1) shut_out_unindexed [OF assms(1)] show ?thesis
    by (auto simp: handleHello_def handleUnknownPeer_def shut_out_def)
qed (use shut_out_unindexed [OF assms(1)] in
      \<open>auto simp: handleKeepalive_def handleBye_def handleByebye_def handleLinkMessage_def\<close>)

subsection \<open>The tables\<close>

text \<open>
  C11: In every state the tunnel reaches, by any sequence of calls, datagrams, timer passes and
  posted decisions, the endpoint index points at an entry of the peer table with that endpoint;
  while the tunnel runs every peer is indexed; no endpoint is pending and rejected at once; no
  gateway is listed twice; and the duplicate cache is well formed.
\<close>

theorem udp_tables_sound:
  assumes "udp_init t0" "(udp_move C)\<^sup>*\<^sup>* t0 t"
  shows "(\<forall>ep i. mEndpointToPeerIdx t ep = Some i \<longrightarrow> i < length (mPeers t) \<and> endpoint (mPeers t ! i) = ep) \<and>
    (is_running t \<longrightarrow> (\<forall>p \<in> set (mPeers t). mEndpointToPeerIdx t (endpoint p) \<noteq> None)) \<and>
    mPendingPeers t \<inter> mRejectedPeers t = {} \<and> distinct (gateways t) \<and> dedup_ok (mDedupCache t)"
  using udp.inv_reachable [OF assms] by (auto simp: udp_ok_def index_ok_def index_complete_def)

definition example_udp :: "(nat, u64, nat) UdpTunnel" where
  "example_udp = fst (UdpTunnel_init [10, 20, 30])"

lemma example_udp_init: "udp_init example_udp"
  by (auto simp: udp_init_def example_udp_def)

theorem udp_tables_sound_witness:
  "udp_init example_udp \<and> dedup_ok (mDedupCache (rejectPeer 5 example_udp))"
proof -
  have "(udp_move network_codec)\<^sup>*\<^sup>* example_udp (rejectPeer 5 example_udp)"
    by (rule r_into_rtranclp) (auto simp: udp_move_def intro: step_reject)
  from udp_tables_sound [OF example_udp_init this] example_udp_init show ?thesis by simp
qed

text \<open>
  C17: What an arriving datagram can do to the process. On a reachable state the handler of a
  datagram ends in a fault in exactly one case: the size field of the message is larger than the
  message buffer, so that the end pointer of the payload lies beyond the array. Every other byte
  sequence, from any endpoint, is handled and leaves a well-formed state.
\<close>

theorem on_datagram_fault_iff:
  assumes "wire_codec C" "udp_init t0" "(udp_move C)\<^sup>*\<^sup>* t0 t"
  shows "on_datagram C ep d now t = Inl f \<longleftrightarrow> f = BufferOverrun \<and>
     (\<exists>ctx payload. decapsulate C (receive_buffer C d) = Inr (Some (ctx, payload)) \<and>
        kMaxMessageSize C < msg_size ctx)"
proof -
  obtain ctx payload where d: "decapsulate C (receive_buffer C d) = Inr (Some (ctx, payload))"
    and len: "length payload = kMaxMessageSize C"
    using wire_codec.decapsulate_total [OF assms(1) wire_codec.length_receive_buffer [OF assms(1), of d]] by metis
  show ?thesis
  proof (cases "kMaxMessageSize C < msg_size ctx")
    case True
    with d len show ?thesis by (auto simp: on_datagram_def handleReceive_def)
  next
    case False
    then obtain t' acts where "handleReceive C ep (receive_buffer C d) now t = Inr (t', acts)"
      using handleReceive_ok [OF udp.inv_reachable [OF assms(2,3)] d, of ep now] len by auto
    with False d show ?thesis by (simp add: on_datagram_def)
  qed
qed

theorem on_datagram_fault_iff_witness:
  "on_datagram network_codec 10
     (header_bytes network_codec (outbound BROADCAST 7 None) @ put_u16 network_codec 513) 0 example_udp =
   Inl BufferOverrun"
proof -
  have "(outbound BROADCAST 7 None)\<lparr>msg_size := unat (513 :: u16)\<rparr> =
      \<lparr>from_node = 7 :: u64, msg_type = BROADCAST, to_node = None, msg_size = 513\<rparr>" by simp
  with net.decapsulate_bare_header [of "outbound BROADCAST 7 None" 513]
  have "\<exists>ctx payload. decapsulate network_codec (receive_buffer network_codec
      (header_bytes network_codec (outbound BROADCAST 7 None) @ put_u16 network_codec 513)) =
      Inr (Some (ctx, payload)) \<and> kMaxMessageSize network_codec < msg_size ctx"
    by (simp add: carries_to_node_def network_codec_sizes)
  with on_datagram_fault_iff [OF net.wire_codec_axioms example_udp_init rtranclp.rtrancl_refl] show ?thesis by simp
qed

subsection \<open>Routing\<close>

text \<open>
  A tunnel with three connected peers that has heard of node 77 behind the second one: the state
  of the witnesses, reached from the constructor by three HELLO datagrams and a broadcast.
\<close>

definition example_peers :: "PeerConnectionState \<Rightarrow> PeerConnectionState \<Rightarrow> PeerConnectionState \<Rightarrow> nat PeerEntry list" where
  "example_peers a b c = [\<lparr>endpoint = 10, state = a, last_seen = 0\<rparr>, \<lparr>endpoint = 20, state = b, last_seen = 0\<rparr>,
     \<lparr>endpoint = 30, state = c, last_seen = 0\<rparr>]"

definition example_tunnel :: "nat PeerEntry list \<Rightarrow> (u64 \<rightharpoonup> nat) \<Rightarrow> (nat, u64, nat) UdpTunnel" where
  "example_tunnel ps r = \<lparr>gateways = [], mDedupCache = initial_cache, is_running = True, mPeers = ps,
     remoteNodeIdToPeerIdx = r, mEndpointToPeerIdx = [10 \<mapsto> 0, 20 \<mapsto> 1, 30 \<mapsto> 2],
     mPendingPeers = {}, mRejectedPeers = {}, mUnknownPeerCallback = AutoReject\<rparr>"

abbreviation example_connected :: "(nat, u64, nat) UdpTunnel" where
  "example_connected \<equiv> example_tunnel (example_peers CONNECTED CONNECTED CONNECTED) [77 \<mapsto> 1]"

lemma example_udp_eq: "example_udp = example_tunnel (example_peers DISCONNECTED DISCONNECTED DISCONNECTED) Map.empty"
  by (simp add: example_udp_def UdpTunnel_init_def push_peer_def example_tunnel_def example_peers_def numeral_2_eq_2)

lemma example_hello:
  assumes "mEndpointToPeerIdx t ep = Some i" "i < length (mPeers t)"
    and "t' = t\<lparr>mPeers := (mPeers t)[i := (mPeers t ! i)\<lparr>state := CONNECTED, last_seen := 0\<rparr>]\<rparr>"
  shows "udp_keep network_codec t t'"
proof -
  have "on_datagram network_codec ep (datagram_of network_codec (control network_codec TUNNEL_HELLO) []) 0 t =
    Inr (t', (if state (mPeers t ! i) = CONNECTED then [] else sendHello network_codec ep)
              @ (if is_running t' then [ReceiveAgain] else []))"
    using assms by (simp add: net.on_datagram_hello handleHello_def peer_at_def Let_def)
  then show ?thesis using step_datagram unfolding udp_keep_def by fastforce
qed

lemma example_connected_reachable: "(udp_keep network_codec)\<^sup>*\<^sup>* example_udp example_connected"
proof -
  let ?t = "\<lambda>a b c. example_tunnel (example_peers a b c) Map.empty"
  have "udp_keep network_codec example_udp (?t CONNECTED DISCONNECTED DISCONNECTED)"
    unfolding example_udp_eq by (rule example_hello [of _ 10 0]) (simp_all add: example_tunnel_def example_peers_def)
  moreover have "udp_keep network_codec (?t CONNECTED DISCONNECTED DISCONNECTED) (?t CONNECTED CONNECTED DISCONNECTED)"
    by (rule example_hello [of _ 20 1]) (simp_all add: example_tunnel_def example_peers_def)
  moreover have "udp_keep network_codec (?t CONNECTED CONNECTED DISCONNECTED) (?t CONNECTED CONNECTED CONNECTED)"
    by (rule example_hello [of _ 30 2]) (simp_all add: example_tunnel_def example_peers_def)
  moreover have "on_datagram network_codec 20 (datagram_of network_codec (outbound BROADCAST 77 None) [1]) 0
      (?t CONNECTED CONNECTED CONNECTED) = Inr (example_connected, [ReceiveAgain])"
    by (subst net.on_datagram_link [of _ _ _ _ _ 1])
       (simp_all add: header_size_def carries_to_node_def network_codec_sizes example_tunnel_def
          example_peers_def emplace_def forward_locally_def)
  then have "udp_keep network_codec (?t CONNECTED CONNECTED CONNECTED) example_connected"
    using step_datagram unfolding udp_keep_def by fastforce
  ultimately show ?thesis by (meson converse_rtranclp_into_rtranclp r_into_rtranclp)
qed

text \<open>
  C27: As long as no peer is removed, every entry of the routing table leads to a connected peer
  of the table, in every state the tunnel reaches: a peer that says BYE or times out takes its
  routes with it.
\<close>

theorem udp_routes_connected:
  assumes "udp_init t0" "(udp_keep C)\<^sup>*\<^sup>* t0 t" "remoteNodeIdToPeerIdx t n = Some i"
  shows "i < length (mPeers t) \<and> state (mPeers t ! i) = CONNECTED"
  using udp_routes.inv_reachable [OF assms(1,2)] assms(3) by (simp add: routes_ok_def)

theorem udp_routes_connected_witness:
  "remoteNodeIdToPeerIdx example_connected 77 = Some 1 \<and> state (mPeers example_connected ! 1) = CONNECTED"
  using udp_routes_connected [OF example_udp_init example_connected_reachable, of 77 1]
  by (simp add: example_tunnel_def)

text \<open>
  Removing a peer breaks the routes of the peers behind it in the table: the table closes the
  gap and rebuilds the endpoint index, but routes keep the old positions. A node that was reached
  through the peer at position \<open>j\<close> is, after the removal of a peer at an earlier position, reached
  through the peer that was listed after the right one: a unicast message for the node is sent to
  a different site.
\<close>

theorem removePeer_misroutes:
  assumes "wire_codec C" "udp_ok t" "mEndpointToPeerIdx t ep = Some i" "i < j" "Suc j < length (mPeers t)"
    and "remoteNodeIdToPeerIdx t n = Some j" "state (mPeers t ! Suc j) = CONNECTED"
    and "removePeer C ep t = Inr (t', acts)"
    and "header_size C MEASUREMENT_PING + length msg \<le> kMaxMessageSize C"
  shows "forward C MEASUREMENT_PING m msg (Some n) now t' =
     Inr (t', [SendTo (datagram_of C (outbound MEASUREMENT_PING m (Some n)) msg) (endpoint (mPeers t ! Suc j))])"
proof -
  have t': "mPeers t' = take i (mPeers t) @ drop (Suc i) (mPeers t)" "remoteNodeIdToPeerIdx t' n = Some j"
    using assms(3-6,8) by (auto simp: removePeer_def rebuildEndpointIndex_def Let_def split: if_splits)
  then have "mPeers t' ! j = mPeers t ! Suc j" "j < length (mPeers t')"
    using assms(4,5) by (simp_all add: nth_append min_def)
  moreover have "shouldForward MEASUREMENT_PING m msg now t' = Inr (True, t')" by (simp add: shouldForward_def)
  ultimately show ?thesis
    using wire_codec.forward_unfold [OF assms(1) _ assms(9), of m now t' t' "Some n"] t'(2) assms(7)
    by (simp add: Let_def)
qed

theorem removePeer_misroutes_witness:
  "endpoint (mPeers example_connected ! 1) = 20 \<and>
   (\<exists>t' acts. removePeer network_codec 10 example_connected = Inr (t', acts) \<and>
      forward network_codec MEASUREMENT_PING 5 [1] (Some 77) 0 t' =
        Inr (t', [SendTo (datagram_of network_codec (outbound MEASUREMENT_PING 5 (Some 77)) [1]) 30]))"
proof -
  have ok: "udp_ok example_connected"
    using udp_routes.inv_reachable [OF example_udp_init example_connected_reachable] by simp
  obtain t' acts where r: "removePeer network_codec 10 example_connected = Inr (t', acts)"
    by (rule removePeer_ok [OF ok])
  have "forward network_codec MEASUREMENT_PING 5 [1] (Some 77) 0 t' =
        Inr (t', [SendTo (datagram_of network_codec (outbound MEASUREMENT_PING 5 (Some 77)) [1])
          (endpoint (mPeers example_connected ! Suc 1))])"
    by (rule removePeer_misroutes [OF net.wire_codec_axioms ok _ _ _ _ _ r, of 0])
       (simp_all add: example_tunnel_def example_peers_def header_size_def carries_to_node_def network_codec_sizes)
  with r show ?thesis by (simp add: example_tunnel_def example_peers_def)
qed

text \<open>
  Node \<open>n\<close> is bound to the connected peer \<open>ep\<close>. What may unbind it is a BYEBYE of the node, the removal of a peer
  (which moves the peers behind it in the table) and the stop of the tunnel.
\<close>

definition indexed_connected :: "'ep \<Rightarrow> ('g, 'n, 'ep) UdpTunnel \<Rightarrow> nat \<Rightarrow> bool" where
  "indexed_connected ep t i \<longleftrightarrow> mEndpointToPeerIdx t ep = Some i \<and> i < length (mPeers t) \<and> state (mPeers t ! i) = CONNECTED"

definition bound :: "'n \<Rightarrow> 'ep \<Rightarrow> ('g, 'n, 'ep) UdpTunnel \<Rightarrow> bool" where
  "bound n ep t \<longleftrightarrow> udp_ok t \<and> (\<exists>i. indexed_connected ep t i \<and> remoteNodeIdToPeerIdx t n = Some i)"

definition says_byebye :: "'n codec \<Rightarrow> 'n \<Rightarrow> bytes \<Rightarrow> bool" where
  "says_byebye C n d \<longleftrightarrow>
     (\<exists>ctx p. decapsulate C (receive_buffer C d) = Inr (Some (ctx, p)) \<and> msg_type ctx = BYEBYE \<and> from_node ctx = n)"

fun unbinds :: "'n codec \<Rightarrow> 'n \<Rightarrow> ('g, 'n, 'ep) event \<Rightarrow> bool" where
  "unbinds C n (RemovePeer ep) \<longleftrightarrow> True"
| "unbinds C n Stop \<longleftrightarrow> True"
| "unbinds C n (Datagram ep d now) \<longleftrightarrow> says_byebye C n d"
| "unbinds C n _ \<longleftrightarrow> False"

definition udp_binding :: "'n codec \<Rightarrow> 'n \<Rightarrow> 'ep \<Rightarrow> ('g, 'n, 'ep) UdpTunnel \<Rightarrow> ('g, 'n, 'ep) UdpTunnel \<Rightarrow> bool" where
  "udp_binding C n ep t t' \<longleftrightarrow>
     (\<exists>e acts. udp_step C t e acts t' \<and> \<not> unbinds C n e) \<and> (\<exists>i. indexed_connected ep t' i)"

lemma bound_receive:
  assumes "handleReceive C from (receive_buffer C d) now t = Inr (t', acts)" "bound n ep t" "\<not> says_byebye C n d"
    and "indexed_connected ep t' k"
  shows "remoteNodeIdToPeerIdx t' n = mEndpointToPeerIdx t' ep"
proof -
  from assms(2) obtain i where i: "mEndpointToPeerIdx t ep = Some i" "remoteNodeIdToPeerIdx t n = Some i"
    by (auto simp: bound_def indexed_connected_def)
  from assms(1) show ?thesis
  proof (cases rule: handleReceive_elim)
    case hello
    then show ?thesis using i by (cases rule: handleHello_elim) (auto dest!: handleUnknownPeer_frame)
  next
    case keepalive
    then show ?thesis using i by (cases rule: handleKeepalive_elim) auto
  next
    case bye
    from bye(1) show ?thesis
    proof (cases rule: handleBye_elim)
      case (2 j)
      with assms(4) i(1) have "i \<noteq> j" by (auto simp: indexed_connected_def erasePeerNodeIds_def)
      with 2 i show ?thesis by (simp add: erasePeerNodeIds_def erase_value_def)
    qed (use i in simp)
  next
    case (byebye ctx msg)
    then have "n \<noteq> from_node ctx" using assms(3) by (auto simp: says_byebye_def)
    with byebye(1) i show ?thesis by (cases rule: handleByebye_elim) auto
  next
    case (link ctx msg)
    then show ?thesis using i by (cases rule: handleLinkMessage_elim) (auto simp: emplace_def)
  qed (use i in simp)
qed

lemma bound_step:
  "udp_step C t e acts t' \<Longrightarrow> \<not> unbinds C n e \<Longrightarrow> indexed_connected ep t' k \<Longrightarrow> bound n ep t \<Longrightarrow>
     remoteNodeIdToPeerIdx t' n = mEndpointToPeerIdx t' ep"
proof (induction rule: udp_step.induct)
  case (step_add ep' t t' acts)
  then show ?case by (auto simp: addPeer_def push_peer_def bound_def indexed_connected_def split: if_splits)
next
  case (step_accept ep' t t' acts)
  then show ?case by (auto simp: acceptPeer_def push_peer_def bound_def indexed_connected_def Let_def split: if_splits)
next
  case (step_forward mt m msg to now t t' acts)
  then obtain c where "t' = t\<lparr>mDedupCache := c\<rparr>" using forward_frame unfolding bound_def by metis
  with step_forward.prems show ?case by (auto simp: bound_def indexed_connected_def)
next
  case (step_datagram source d now t t' acts)
  then show ?case using bound_receive by (fastforce elim: on_datagram_elim)
next
  case (step_maintenance now t t' acts)
  then show ?case
    by (auto simp: runMaintenance_eq bound_def indexed_connected_def maintained_def split: if_splits)
qed (auto simp: rejectPeer_def setUnknownPeerCallback_def addGateway_def removeGateway_def bound_def indexed_connected_def split: if_splits)

lemma udp_binding_bound:
  assumes "udp_binding C n ep t t'" "bound n ep t"
  shows "bound n ep t'"
proof -
  from assms(1) obtain e acts k where e: "udp_step C t e acts t'" "\<not> unbinds C n e" and k: "indexed_connected ep t' k"
    by (auto simp: udp_binding_def)
  have "udp_ok t'" using udp_step_ok [OF e(1)] assms(2) by (simp add: bound_def)
  moreover have "remoteNodeIdToPeerIdx t' n = Some k" using bound_step [OF e k assms(2)] k by (simp add: indexed_connected_def)
  ultimately show "bound n ep t'" using k by (auto simp: bound_def)
qed

interpretation udp_bound: invariant_system "bound n ep" "udp_binding C n ep" "bound n ep"
  by unfold_locales (auto intro: udp_binding_bound)

lemma learned_bound:
  assumes "wire_codec C" "udp_ok t" "indexed_connected ep t i" "remoteNodeIdToPeerIdx t n = None"
    and "mt = BROADCAST \<or> mt = UNICAST \<or> mt = MEASUREMENT_PING \<or> mt = MEASUREMENT_PONG"
    and "header_size C mt + length message \<le> kMaxMessageSize C" "carries_to_node mt \<longleftrightarrow> to \<noteq> None"
    and "on_datagram C ep (datagram_of C (outbound mt n to) message) now t = Inr (t', acts)"
  shows "bound n ep t'"
proof -
  from assms(3) have i: "mEndpointToPeerIdx t ep = Some i" "i < length (mPeers t)" "state (mPeers t ! i) = CONNECTED"
    by (auto simp: indexed_connected_def)
  have "t' = t\<lparr>remoteNodeIdToPeerIdx := emplace n i (remoteNodeIdToPeerIdx t)\<rparr>"
    using assms(8) by (simp add: wire_codec.on_datagram_link [OF assms(1,5-7) i])
  with assms(2-4) show ?thesis by (auto simp: bound_def indexed_connected_def emplace_def udp_ok_routes)
qed

text \<open>
  C28: The first sender keeps a node. When a connected peer delivers the first Link message of a node (one
  without a route), the node is bound to that peer, and stays so whatever happens while that peer stays connected,
  Link messages of the same node from other connected peers included, until a BYEBYE of the node arrives, some
  peer is removed or the tunnel stops. In all that time a unicast message or a ping addressed to
  the node (unless it is suppressed as a duplicate) is sent to that peer's endpoint, to no one else, and
  exactly once.
\<close>

theorem reply_reaches_first_sender:
  assumes "wire_codec C" "udp_ok t" "indexed_connected ep t i" "remoteNodeIdToPeerIdx t n = None"
    and "mt = BROADCAST \<or> mt = UNICAST \<or> mt = MEASUREMENT_PING \<or> mt = MEASUREMENT_PONG"
    and "header_size C mt + length message \<le> kMaxMessageSize C" "carries_to_node mt \<longleftrightarrow> to \<noteq> None"
    and "on_datagram C ep (datagram_of C (outbound mt n to) message) now t = Inr (t1, acts)"
    and "(udp_binding C n ep)\<^sup>*\<^sup>* t1 t2"
    and "rt = UNICAST \<or> rt = MEASUREMENT_PING"
    and "header_size C rt + length reply \<le> kMaxMessageSize C"
    and "shouldForward rt m reply later t2 = Inr (True, t3)"
  shows "forward C rt m reply (Some n) later t2 =
     Inr (t3, [SendTo (datagram_of C (outbound rt m (Some n)) reply) ep])"
proof -
  have b: "bound n ep t2" by (rule udp_bound.inv_reachable [OF learned_bound [OF assms(1-8)] assms(9)])
  then obtain j where j: "udp_ok t2" "mEndpointToPeerIdx t2 ep = Some j" "j < length (mPeers t2)" "state (mPeers t2 ! j) = CONNECTED"
    "remoteNodeIdToPeerIdx t2 n = Some j" by (auto simp: bound_def indexed_connected_def)
  then have "endpoint (mPeers t2 ! j) = ep" using index_okD [OF udp_okD(1) [OF j(1)] j(2)] by simp
  moreover obtain c where "t3 = t2\<lparr>mDedupCache := c\<rparr>"
    using shouldForward_ok [OF udp_okD(5) [OF j(1)]] assms(12) by (metis old.sum.inject(2) prod.inject)
  moreover have "forward C rt m reply (Some n) later t2 =
     (let d = datagram_of C (outbound rt m (Some n)) reply
      in case remoteNodeIdToPeerIdx t3 n of
           Some i \<Rightarrow> Inr (t3, if i < length (mPeers t3) \<and> state (mPeers t3 ! i) = CONNECTED
                             then [SendTo d (endpoint (mPeers t3 ! i))] else [])
         | None \<Rightarrow> Inr (t3, []))"
    using wire_codec.forward_unfold [OF assms(1,12,11), of "Some n"] assms(10) by (simp add: Let_def)
  ultimately show ?thesis using j(3-5) by (simp add: Let_def)
qed

text \<open>Node 88 is first heard through peer 30; a broadcast of the same node then comes through peer 10.\<close>

theorem reply_reaches_first_sender_witness:
  "\<exists>t1 acts t2 acts2. on_datagram network_codec 30 (datagram_of network_codec (outbound BROADCAST 88 None) [1]) 0 example_connected =
       Inr (t1, acts) \<and>
     on_datagram network_codec 10 (datagram_of network_codec (outbound BROADCAST 88 None) [1]) 0 t1 = Inr (t2, acts2) \<and>
     forward network_codec MEASUREMENT_PING 5 [2] (Some 88) 1 t2 =
       Inr (t2, [SendTo (datagram_of network_codec (outbound MEASUREMENT_PING 5 (Some 88)) [2]) 30])"
proof -
  let ?d = "datagram_of network_codec (outbound BROADCAST 88 None) [1]"
  have ok: "udp_ok example_connected"
    using udp_routes.inv_reachable [OF example_udp_init example_connected_reachable] by simp
  have i: "indexed_connected 30 example_connected 2"
    by (simp add: indexed_connected_def example_tunnel_def example_peers_def)
  obtain t1 acts where r: "on_datagram network_codec 30 ?d 0 example_connected = Inr (t1, acts)"
    and t1: "t1 = example_tunnel (example_peers CONNECTED CONNECTED CONNECTED) [77 \<mapsto> 1, 88 \<mapsto> 2]"
    by (subst (asm) net.on_datagram_link [of _ _ _ _ _ 2])
       (simp_all add: example_tunnel_def example_peers_def header_size_def carries_to_node_def network_codec_sizes emplace_def)
  obtain acts2 where r2: "on_datagram network_codec 10 ?d 0 t1 = Inr (t1, acts2)"
    unfolding t1
    by (subst (asm) net.on_datagram_link [of _ _ _ _ _ 0])
       (simp_all add: example_tunnel_def example_peers_def header_size_def carries_to_node_def network_codec_sizes emplace_def)
  have "\<not> says_byebye network_codec 88 ?d"
    by (simp add: says_byebye_def net.decapsulate_datagram header_size_def carries_to_node_def network_codec_sizes)
  then have "udp_binding network_codec 88 30 t1 t1"
    using step_datagram [OF r2] by (force simp: udp_binding_def t1 indexed_connected_def example_tunnel_def example_peers_def)
  then have "(udp_binding network_codec 88 30)\<^sup>*\<^sup>* t1 t1" by (rule r_into_rtranclp)
  note run = this
  have "forward network_codec MEASUREMENT_PING 5 [2] (Some 88) 1 t1 =
       Inr (t1, [SendTo (datagram_of network_codec (outbound MEASUREMENT_PING 5 (Some 88)) [2]) 30])"
    by (rule reply_reaches_first_sender [OF net.wire_codec_axioms ok i _ _ _ _ r run])
       (simp_all add: example_tunnel_def example_peers_def header_size_def carries_to_node_def network_codec_sizes
          shouldForward_def)
  with r r2 show ?thesis by blast
qed

text \<open>
  A broadcast, a BYEBYE or a pong is sent to exactly the connected peers, once each, in the
  order of the peer table, and always as the same datagram.
\<close>

theorem forward_broadcast_reaches_connected:
  assumes "wire_codec C" "udp_ok t" "mt \<noteq> UNICAST" "mt \<noteq> MEASUREMENT_PING"
    and "header_size C mt + length msg \<le> kMaxMessageSize C" "carries_to_node mt \<longrightarrow> to \<noteq> None"
    and "shouldForward mt n msg now t = Inr (True, t1)"
  shows "forward C mt n msg to now t =
     Inr (t1, map (\<lambda>p. SendTo (datagram_of C (outbound mt n to) msg) (endpoint p))
                  (filter (\<lambda>p. state p = CONNECTED) (mPeers t)))"
proof -
  obtain c where "t1 = t\<lparr>mDedupCache := c\<rparr>"
    using shouldForward_ok [OF udp_okD(5) [OF assms(2)]] assms(7) by (metis old.sum.inject(2) prod.inject)
  then show ?thesis
    using wire_codec.forward_unfold [OF assms(1,7,5)] assms(3,4,6) by (simp add: Let_def)
qed

theorem forward_broadcast_reaches_connected_witness:
  "\<exists>t1. forward network_codec MEASUREMENT_PONG 5 [1] (Some 77) 0
      (example_tunnel (example_peers CONNECTED CONNECTING CONNECTED) Map.empty) =
     Inr (t1, [SendTo (datagram_of network_codec (outbound MEASUREMENT_PONG 5 (Some 77)) [1]) 10,
               SendTo (datagram_of network_codec (outbound MEASUREMENT_PONG 5 (Some 77)) [1]) 30])"
proof -
  let ?t = "example_tunnel (example_peers CONNECTED CONNECTING CONNECTED) Map.empty"
  have ok: "udp_ok ?t"
    by (auto simp: udp_ok_def index_ok_def index_complete_def example_tunnel_def example_peers_def
        dedup_ok_initial_cache split: if_splits)
  have go: "shouldForward MEASUREMENT_PONG 5 [1] 0 ?t = Inr (True, ?t)" by (simp add: shouldForward_def)
  from forward_broadcast_reaches_connected [OF net.wire_codec_axioms ok _ _ _ _ go, of "Some 77"]
  show ?thesis by (simp add: example_tunnel_def example_peers_def header_size_def carries_to_node_def network_codec_sizes)
qed

text \<open>
  A message crosses the tunnel once: after a broadcast, unicast or BYEBYE message was let
  through, a copy with the same type, source node and payload sends nothing while the window is
  open. The target of the copy plays no part, so a unicast answer with the same bytes to a second
  node is suppressed as well.
\<close>

theorem forward_second_copy_silent:
  assumes "udp_ok t" "deduplicated mt"
    and "isDuplicate (to_byte mt) n msg now (mDedupCache t) = Inr (False, c)"
    and "forward C mt n msg to now t = Inr (t1, acts)" "later - now < mWindow (mDedupCache t)"
  shows "\<exists>t2. forward C mt n msg to' later t1 = Inr (t2, [])"
  using udp_fwd.second_copy_silent [OF assms] by auto

lemma isDuplicate_initial_cache: "\<exists>c. isDuplicate ty n msg now initial_cache = Inr (False, c)"
  by (simp add: isDuplicate_def check_key_def initial_cache_def DedupCache_init_def kDedupCacheCapacity_def)

lemma example_connected_ok: "udp_ok example_connected"
  using udp_routes.inv_reachable [OF example_udp_init example_connected_reachable] by simp

theorem forward_second_copy_silent_witness:
  "\<exists>t1 acts t2. forward network_codec UNICAST 5 [1] (Some 77) 0 example_connected = Inr (t1, acts) \<and> acts \<noteq> [] \<and>
     forward network_codec UNICAST 5 [1] (Some 88) (milliseconds 49) t1 = Inr (t2, [])"
proof -
  obtain c where c: "isDuplicate (to_byte UNICAST) 5 [1] 0 (mDedupCache example_connected) = Inr (False, c)"
    using isDuplicate_initial_cache [of "to_byte UNICAST" 5 "[1]" 0] by (auto simp: example_tunnel_def)
  obtain t1 acts where f: "forward network_codec UNICAST 5 [1] (Some 77) 0 example_connected = Inr (t1, acts)" "acts \<noteq> []"
    using c net.forward_unfold [OF shouldForward_deduplicated [OF _ c, simplified]]
    by (simp add: deduplicated_def header_size_def carries_to_node_def network_codec_sizes Let_def
        example_tunnel_def example_peers_def)
  have "\<exists>t2. forward network_codec UNICAST 5 [1] (Some 88) (milliseconds 49) t1 = Inr (t2, [])"
    by (rule forward_second_copy_silent [OF example_connected_ok _ c f(1)])
       (simp_all add: deduplicated_def example_tunnel_def initial_cache_def DedupCache_init_def
          kDedupWindow_def milliseconds_def)
  with f show ?thesis by blast
qed

subsection \<open>Who is heard\<close>

lemma handleReceive_gateway_call:
  assumes "handleReceive C ep buf now t = Inr (t', acts)" "CallGateway c \<in> set acts"
  shows "\<exists>i mt n msg to. mEndpointToPeerIdx t ep = Some i \<and> i < length (mPeers t) \<and>
     state (mPeers t ! i) = CONNECTED \<and> acts = map CallGateway (forward_locally mt n msg to t)"
  using assms(1)
proof (cases rule: handleReceive_elim)
  case hello
  with assms(2) show ?thesis
    by (auto simp: handleHello_def handleUnknownPeer_def peer_at_def sendHello_def sendControlMessage_def sendRaw_def
        Let_def split: option.splits if_splits UnknownPeerCallback.splits sum.splits)
next
  case keepalive
  with assms(2) show ?thesis by (auto elim!: handleKeepalive_elim)
next
  case bye
  with assms(2) show ?thesis by (auto elim!: handleBye_elim)
next
  case (byebye ctx msg)
  with assms(2) show ?thesis
    by (simp add: handleByebye_def peer_at_def split: option.splits if_splits) blast
next
  case (link ctx msg)
  with assms(2) show ?thesis
    by (simp add: handleLinkMessage_def peer_at_def split: option.splits if_splits) blast
qed (use assms(2) in simp)

lemma handleReceive_no_rearm:
  assumes "handleReceive C ep buf now t = Inr (t', acts)"
  shows "ReceiveAgain \<notin> set acts"
  using assms
proof (cases rule: handleReceive_elim)
  case hello
  then show ?thesis
    by (auto simp: handleHello_def handleUnknownPeer_def peer_at_def sendHello_def sendControlMessage_def sendRaw_def
        Let_def split: option.splits if_splits UnknownPeerCallback.splits sum.splits)
next
  case keepalive
  then show ?thesis by (auto elim!: handleKeepalive_elim)
next
  case bye
  then show ?thesis by (auto elim!: handleBye_elim)
next
  case (byebye ctx msg)
  then show ?thesis by (auto simp: handleByebye_def peer_at_def split: option.splits if_splits)
next
  case (link ctx msg)
  then show ?thesis by (auto simp: handleLinkMessage_def peer_at_def split: option.splits if_splits)
qed simp

text \<open>
  C16: Only connected peers are heard. Whatever bytes arrive, a gateway is called only when the
  datagram comes from the endpoint of a peer that has completed the handshake; the message is then
  handed to every gateway of the tunnel.
\<close>

theorem gateways_hear_connected_peers_only:
  assumes "on_datagram C ep d now t = Inr (t', acts)" "CallGateway c \<in> set acts"
  shows "(\<exists>i. mEndpointToPeerIdx t ep = Some i \<and> i < length (mPeers t) \<and> state (mPeers t ! i) = CONNECTED) \<and>
    (\<exists>mt n msg to. \<forall>g \<in> set (gateways t). CallGateway (ForwardMessageLocally g mt n msg to) \<in> set acts)"
proof -
  from assms(1) obtain acts' where h: "handleReceive C ep (receive_buffer C d) now t = Inr (t', acts')"
    and acts: "acts = acts' @ (if is_running t' then [ReceiveAgain] else [])" by (rule on_datagram_elim)
  from assms(2) have "CallGateway c \<in> set acts'" by (auto simp: acts split: if_splits)
  from handleReceive_gateway_call [OF h this] obtain i mt n msg to where i:
    "mEndpointToPeerIdx t ep = Some i" "i < length (mPeers t)" "state (mPeers t ! i) = CONNECTED"
    and a: "acts' = map CallGateway (forward_locally mt n msg to t)" by blast
  have "\<forall>g \<in> set (gateways t). CallGateway (ForwardMessageLocally g mt n msg to) \<in> set acts"
    by (simp add: a acts forward_locally_def)
  with i show ?thesis by blast
qed

theorem gateways_hear_connected_peers_only_witness:
  "\<exists>t' acts. on_datagram network_codec 20 (datagram_of network_codec (outbound BROADCAST 88 None) [1]) 0
       (addGateway 3 example_connected) = Inr (t', acts) \<and>
     CallGateway (ForwardMessageLocally 3 BROADCAST 88 [1] None) \<in> set acts \<and>
     (\<exists>i. mEndpointToPeerIdx example_connected 20 = Some i)"
proof -
  let ?t = "addGateway 3 example_connected"
  have "on_datagram network_codec 20 (datagram_of network_codec (outbound BROADCAST 88 None) [1]) 0 ?t =
      Inr (?t\<lparr>remoteNodeIdToPeerIdx := emplace 88 1 (remoteNodeIdToPeerIdx ?t)\<rparr>,
           map CallGateway (forward_locally BROADCAST 88 [1] None ?t) @ (if is_running ?t then [ReceiveAgain] else []))"
    by (rule net.on_datagram_link)
       (simp_all add: example_tunnel_def example_peers_def addGateway_def header_size_def carries_to_node_def network_codec_sizes)
  moreover have "CallGateway (ForwardMessageLocally 3 BROADCAST 88 [1] None) \<in>
      set (map CallGateway (forward_locally BROADCAST 88 [1] None ?t) @ (if is_running ?t then [ReceiveAgain] else []))"
    by (simp add: forward_locally_def addGateway_def example_tunnel_def)
  ultimately show ?thesis
    using gateways_hear_connected_peers_only by (fastforce simp: addGateway_def example_tunnel_def)
qed

text \<open>
  C29: A rejected endpoint stays out. Once an endpoint outside the peer table is rejected, then
  through any further calls, datagrams and timer passes, as long as the application neither adds
  nor accepts it and the tunnel is not stopped, nothing the endpoint sends has an effect: the state
  does not change and the only action is to receive the next datagram.
\<close>

theorem rejected_endpoint_stays_out:
  assumes "udp_ok t" "ep \<notin> endpoint ` set (mPeers t)"
    and "(udp_unadmitted C ep)\<^sup>*\<^sup>* (rejectPeer ep t) t'"
    and "on_datagram C ep d now t' = Inr (t'', acts)"
  shows "t'' = t' \<and> set acts \<subseteq> {ReceiveAgain}"
proof -
  have "shut_out ep (rejectPeer ep t)"
    using rejectPeer_ok [OF assms(1)] assms(2) by (simp add: shut_out_def rejectPeer_def)
  then have "shut_out ep t'" using udp_shut.inv_reachable assms(3) by metis
  moreover from assms(4) obtain acts' where "handleReceive C ep (receive_buffer C d) now t' = Inr (t'', acts')"
    "acts = acts' @ (if is_running t'' then [ReceiveAgain] else [])" by (rule on_datagram_elim)
  ultimately show ?thesis using shut_out_receive [of ep t'] by fastforce
qed

theorem rejected_endpoint_stays_out_witness:
  "\<exists>acts. on_datagram network_codec 40 (datagram_of network_codec (control network_codec TUNNEL_HELLO) []) 0
       (rejectPeer 40 example_connected) = Inr (rejectPeer 40 example_connected, acts) \<and> set acts \<subseteq> {ReceiveAgain}"
proof -
  have "\<exists>t'' acts. on_datagram network_codec 40 (datagram_of network_codec (control network_codec TUNNEL_HELLO) []) 0
      (rejectPeer 40 example_connected) = Inr (t'', acts)"
    by (simp add: net.on_datagram_hello handleHello_def example_tunnel_def rejectPeer_def handleUnknownPeer_def)
  moreover have "40 \<notin> endpoint ` set (mPeers example_connected)"
    by (simp add: example_tunnel_def example_peers_def)
  ultimately show ?thesis
    using rejected_endpoint_stays_out [OF example_connected_ok _ rtranclp.rtrancl_refl] by blast
qed

subsection \<open>Maintenance and shutdown\<close>

text \<open>
  C30: One pass of the maintenance timer on a running tunnel, peer by peer: a connected peer that was
  silent for more than 15 seconds becomes disconnected, is sent nothing and loses its routes; any other
  connected peer stays as it is and gets a KEEPALIVE; every other peer becomes connecting and gets a
  HELLO. These are the only datagrams, and the timer is armed again for 5 seconds.
\<close>

theorem runMaintenance_exact:
  fixes t :: "('g, 'n, 'ep) UdpTunnel"
  assumes "wire_codec C" "is_running t" "runMaintenance C now t = (t', acts)"
  shows "mPeers t' = map (\<lambda>p. if state p \<noteq> CONNECTED then p\<lparr>state := CONNECTING\<rparr>
                              else if seconds 15 < now - last_seen p then p\<lparr>state := DISCONNECTED\<rparr> else p) (mPeers t) \<and>
    acts = concat (map (\<lambda>p. if state p \<noteq> CONNECTED
                             then [SendTo (datagram_of C (control C TUNNEL_HELLO) []) (endpoint p)]
                             else if seconds 15 < now - last_seen p then []
                             else [SendTo (datagram_of C (control C TUNNEL_KEEPALIVE) []) (endpoint p)]) (mPeers t))
            @ [ArmTimer (seconds 5)] \<and>
    (\<forall>n i. remoteNodeIdToPeerIdx t' n = Some i \<longleftrightarrow> remoteNodeIdToPeerIdx t n = Some i \<and>
        \<not> (i < length (mPeers t) \<and> state (mPeers t ! i) = CONNECTED \<and> seconds 15 < now - last_seen (mPeers t ! i)))"
proof (intro conjI allI)
  note m = assms(3) [unfolded runMaintenance_eq if_P [OF assms(2)]]
  show "mPeers t' = map (\<lambda>p. if state p \<noteq> CONNECTED then p\<lparr>state := CONNECTING\<rparr>
      else if seconds 15 < now - last_seen p then p\<lparr>state := DISCONNECTED\<rparr> else p) (mPeers t)"
    using m by (auto simp: maintained_def timed_out_def kKeepaliveTimeout_def)
  have "(maintenance_sends C now :: 'ep PeerEntry \<Rightarrow> ('g, 'n, 'ep) action list) = (\<lambda>p. if state p \<noteq> CONNECTED
                             then [SendTo (datagram_of C (control C TUNNEL_HELLO) []) (endpoint p)]
                             else if seconds 15 < now - last_seen p then []
                             else [SendTo (datagram_of C (control C TUNNEL_KEEPALIVE) []) (endpoint p)])"
    by (simp add: fun_eq_iff maintenance_sends_def timed_out_def kKeepaliveTimeout_def
        wire_codec.sendHello_eq [OF assms(1)] wire_codec.sendKeepalive_eq [OF assms(1)])
  with m show "acts = concat (map (\<lambda>p. if state p \<noteq> CONNECTED
                             then [SendTo (datagram_of C (control C TUNNEL_HELLO) []) (endpoint p)]
                             else if seconds 15 < now - last_seen p then []
                             else [SendTo (datagram_of C (control C TUNNEL_KEEPALIVE) []) (endpoint p)]) (mPeers t))
            @ [ArmTimer (seconds 5)]" by (simp add: kMaintenanceInterval_def)
  show "remoteNodeIdToPeerIdx t' n = Some i \<longleftrightarrow> remoteNodeIdToPeerIdx t n = Some i \<and>
        \<not> (i < length (mPeers t) \<and> state (mPeers t ! i) = CONNECTED \<and> seconds 15 < now - last_seen (mPeers t ! i))" for n i
    using m by (auto simp: timed_out_def kKeepaliveTimeout_def split: option.splits if_splits)
qed

theorem runMaintenance_exact_witness:
  "\<exists>t' acts. runMaintenance network_codec (seconds 16) example_connected = (t', acts) \<and>
     remoteNodeIdToPeerIdx t' 77 = None \<and> acts = [ArmTimer (seconds 5)]"
proof -
  obtain t' acts where m: "runMaintenance network_codec (seconds 16) example_connected = (t', acts)" by force
  have r: "is_running example_connected" by (simp add: example_tunnel_def)
  from runMaintenance_exact [OF net.wire_codec_axioms r m] m show ?thesis
    by (cases "remoteNodeIdToPeerIdx t' 77") (auto simp: example_tunnel_def example_peers_def seconds_def)
qed

text \<open>Consecutive passes of the timer, and the datagrams each of them sends.\<close>

fun maintenance_passes :: "'n codec \<Rightarrow> time list \<Rightarrow> ('g, 'n, 'ep) UdpTunnel \<Rightarrow> ('g, 'n, 'ep) action list list" where
  "maintenance_passes C [] t = []"
| "maintenance_passes C (now # nows) t =
     (case runMaintenance C now t of (t', acts) \<Rightarrow> acts # maintenance_passes C nows t')"

lemma passes_redial:
  fixes t :: "('g, 'n, 'ep) UdpTunnel"
  assumes "wire_codec C" "is_running t" "i < length (mPeers t)" "state (mPeers t ! i) \<noteq> CONNECTED"
    and "acts \<in> set (maintenance_passes C nows t)"
  shows "SendTo (datagram_of C (control C TUNNEL_HELLO) []) (endpoint (mPeers t ! i)) \<in> set acts"
  using assms(2-)
proof (induction nows arbitrary: t)
  case (Cons now nows)
  obtain t' acts' where m: "runMaintenance C now t = (t', acts')" by force
  note eq = m [unfolded runMaintenance_eq if_P [OF Cons.prems(1)]]
  have p: "maintained now (mPeers t ! i) = (mPeers t ! i)\<lparr>state := CONNECTING\<rparr>"
    using Cons.prems(3) by (simp add: maintained_def timed_out_def)
  have nxt: "is_running t'" "i < length (mPeers t')" "state (mPeers t' ! i) \<noteq> CONNECTED"
    "endpoint (mPeers t' ! i) = endpoint (mPeers t ! i)"
    using eq p Cons.prems(1,2) by auto
  have "(maintenance_sends C now (mPeers t ! i) :: ('g, 'n, 'ep) action list) = [SendTo (datagram_of C (control C TUNNEL_HELLO) []) (endpoint (mPeers t ! i))]"
    using Cons.prems(3) by (simp add: maintenance_sends_def timed_out_def wire_codec.sendHello_eq [OF assms(1)])
  moreover have "mPeers t ! i \<in> set (mPeers t)" using Cons.prems(2) by simp
  ultimately have "SendTo (datagram_of C (control C TUNNEL_HELLO) []) (endpoint (mPeers t ! i)) \<in> set acts'"
    using eq by force
  with Cons.prems(4) Cons.IH [OF nxt(1-3)] nxt(4) show ?case by (auto simp: m)
qed simp

text \<open>
  A peer that falls silent is dialled again. If the first of a sequence of timer passes comes
  more than 15 seconds after a connected peer was last seen, every later pass sends that peer a HELLO, as
  long as nothing is heard from it; so does every pass for a peer that is not connected.
\<close>

theorem silent_peer_is_redialled:
  assumes "wire_codec C" "is_running t" "i < length (mPeers t)" "seconds 15 < now - last_seen (mPeers t ! i)"
    and "acts \<in> set (tl (maintenance_passes C (now # nows) t))"
  shows "SendTo (datagram_of C (control C TUNNEL_HELLO) []) (endpoint (mPeers t ! i)) \<in> set acts"
proof -
  obtain t' acts' where m: "runMaintenance C now t = (t', acts')" by force
  note eq = m [unfolded runMaintenance_eq if_P [OF assms(2)]]
  have "is_running t'" "i < length (mPeers t')" "state (mPeers t' ! i) \<noteq> CONNECTED"
    "endpoint (mPeers t' ! i) = endpoint (mPeers t ! i)"
    using eq assms(2-4) by (auto simp: maintained_def timed_out_def kKeepaliveTimeout_def split: if_splits)
  with passes_redial [OF assms(1), of t' i acts nows] assms(5) m show ?thesis by simp
qed

theorem silent_peer_is_redialled_witness:
  "\<exists>a b. maintenance_passes network_codec [seconds 16, seconds 21] example_connected = [a, b] \<and>
     SendTo (datagram_of network_codec (control network_codec TUNNEL_HELLO) []) 20 \<in> set b"
proof -
  obtain a b where ab: "maintenance_passes network_codec [seconds 16, seconds 21] example_connected = [a, b]"
    by (simp add: split_beta)
  with silent_peer_is_redialled [OF net.wire_codec_axioms, of example_connected 1 "seconds 16" b "[seconds 21]"]
  show ?thesis by (simp add: example_tunnel_def example_peers_def seconds_def)
qed

subsection \<open>The receive that is armed\<close>

text \<open>
  The socket hands over a datagram only while a receive is armed. The constructor posts the first one
  (\<open>PostListen\<close>); the handler of a datagram uses its own up and, with \<open>ReceiveAgain\<close>, arms the next. A run of
  the tunnel from \<open>armed\<close> receives to those left, with its events and what each of them did.
\<close>

abbreviation arms :: "('g, 'n, 'ep) action list \<Rightarrow> nat" where
  "arms acts \<equiv> length (filter (\<lambda>a. a = ReceiveAgain) acts)"

fun is_datagram :: "('g, 'n, 'ep) event \<Rightarrow> bool" where
  "is_datagram (Datagram ep d now) \<longleftrightarrow> True"
| "is_datagram _ \<longleftrightarrow> False"

inductive socket_run ::
    "'n codec \<Rightarrow> ('g, 'n, 'ep) UdpTunnel \<Rightarrow> nat \<Rightarrow> (('g, 'n, 'ep) event \<times> ('g, 'n, 'ep) action list) list \<Rightarrow>
       ('g, 'n, 'ep) UdpTunnel \<Rightarrow> nat \<Rightarrow> bool" for C where
  run_ends: "socket_run C t armed [] t armed"
| run_receives:
    "on_datagram C ep d now t = Inr (t1, acts) \<Longrightarrow> socket_run C t1 (armed + arms acts) tr t2 left_over \<Longrightarrow>
     socket_run C t (Suc armed) ((Datagram ep d now, acts) # tr) t2 left_over"
| run_steps:
    "udp_step C t e acts t1 \<Longrightarrow> \<not> is_datagram e \<Longrightarrow> socket_run C t1 (armed + arms acts) tr t2 left_over \<Longrightarrow>
     socket_run C t armed ((e, acts) # tr) t2 left_over"

lemma sendControlMessage_arms [simp]:
  "filter (\<lambda>a. a = ReceiveAgain) (sendControlMessage C mt ep) = []" "ReceiveAgain \<notin> set (sendControlMessage C mt ep)"
  by (auto simp: sendControlMessage_def sendRaw_def split: sum.splits option.splits)

lemma arms_concat: "(\<And>x. x \<in> set xs \<Longrightarrow> filter P (f x) = []) \<Longrightarrow> filter P (concat (map f xs)) = []"
  by (induction xs) auto

lemma arms_forward:
  assumes "forward C mt n msg to now t = Inr (t', acts)"
  shows "arms acts = 0"
  using assms
  by (auto simp: forward_def sendRaw_def Let_def intro!: arms_concat split: sum.splits bool.splits option.splits if_splits)

lemma arms_datagram:
  assumes "on_datagram C ep d now t = Inr (t', acts)"
  shows "arms acts = (if is_running t' then 1 else 0)"
proof -
  from assms obtain acts' where h: "handleReceive C ep (receive_buffer C d) now t = Inr (t', acts')"
    "acts = acts' @ (if is_running t' then [ReceiveAgain] else [])" by (rule on_datagram_elim)
  with handleReceive_no_rearm [OF h(1)] have "arms acts' = 0" by (auto simp: filter_empty_conv)
  with h(2) show ?thesis by simp
qed

lemma arms_step: "udp_step C t e acts t' \<Longrightarrow> \<not> is_datagram e \<Longrightarrow> arms acts = 0"
proof (induction rule: udp_step.induct)
  case (step_forward mt n msg to now t t' acts)
  show ?case by (rule arms_forward [OF step_forward.hyps])
next
  case (step_maintenance now t t' acts)
  then show ?case
    by (auto simp: runMaintenance_eq maintenance_sends_def sendHello_def sendKeepalive_def intro!: arms_concat split: if_splits)
next
  case (step_stop t t' acts)
  then show ?case by (auto simp: stop_listening_def sendBye_def filter_empty_conv intro!: arms_concat)
qed (auto simp: addPeer_def removePeer_def acceptPeer_def sendHello_def sendBye_def Let_def split: if_splits option.splits)

lemma run_one_receive:
  "socket_run C t armed tr t2 left_over \<Longrightarrow> udp_ok t \<Longrightarrow> armed \<le> 1 \<Longrightarrow> udp_ok t2 \<and> left_over \<le> 1"
proof (induction rule: socket_run.induct)
  case (run_receives ep d now t t1 acts armed tr t2 left_over)
  then show ?case using arms_datagram [OF run_receives.hyps(1)] udp_step_ok [OF step_datagram [OF run_receives.hyps(1)]] by simp
next
  case (run_steps t e acts t1 armed tr t2 left_over)
  then show ?case using arms_step [OF run_steps.hyps(1,2)] udp_step_ok [OF run_steps.hyps(1)] by simp
qed simp

lemma run_stopped:
  "socket_run C t armed tr t2 left_over \<Longrightarrow> udp_ok t \<Longrightarrow> \<not> is_running t \<Longrightarrow>
     length (filter (is_datagram \<circ> fst) tr) + left_over = armed \<and> (\<forall>(e, acts) \<in> set tr. arms acts = 0) \<and>
     (\<forall>now acts. (Maintenance now, acts) \<in> set tr \<longrightarrow> acts = [])"
proof (induction rule: socket_run.induct)
  case (run_receives ep d now t t1 acts armed tr t2 left_over)
  note step = step_datagram [OF run_receives.hyps(1)]
  have t1: "udp_ok t1" "\<not> is_running t1"
    using udp_step_ok [OF step] is_running_step [OF step] run_receives.prems by blast+
  with run_receives.IH arms_datagram [OF run_receives.hyps(1)] show ?case by auto
next
  case (run_steps t e acts t1 armed tr t2 left_over)
  have t1: "udp_ok t1" "\<not> is_running t1"
    using udp_step_ok [OF run_steps.hyps(1)] is_running_step [OF run_steps.hyps(1)] run_steps.prems by blast+
  have "acts = []" if "e = Maintenance now" for now
    using run_steps.hyps(1) run_steps.prems(2) unfolding that by (auto elim!: step_MaintenanceE simp: runMaintenance_def)
  with run_steps.IH [OF t1] run_steps.hyps(2) arms_step [OF run_steps.hyps(1,2)] show ?case by auto
qed simp

text \<open>
  C31: Stopping says goodbye and is final for the timer and, after one more datagram at most, for the socket.
  \<open>stop_listening\<close> cancels the timer, sends a BYE to exactly the connected peers, stops and forgets every
  gateway, and forgets all routes and decisions. Take any run from the constructor, with its one posted
  receive, to \<open>stop_listening\<close>, and any run from there. The maintenance pass then does nothing, and nothing arms the
  socket again; so at most one datagram is still handled, by the receive that was armed when the tunnel
  stopped. The socket loop has no check before the handler, so that one is answered like any other.
\<close>

theorem stop_listening_is_final:
  assumes "wire_codec C" "socket_run C (fst (UdpTunnel_init eps)) 1 tr t armed" "stop_listening C t = (t1, acts)"
    and "socket_run C t1 armed tr' t2 left_over"
  shows "acts = CancelTimer #
             map (\<lambda>p. SendTo (datagram_of C (control C TUNNEL_BYE) []) (endpoint p))
                 (filter (\<lambda>p. state p = CONNECTED) (mPeers t)) @
             map (\<lambda>g. CallGateway (StopListening g)) (gateways t) \<and>
    gateways t1 = [] \<and> remoteNodeIdToPeerIdx t1 = Map.empty \<and> mEndpointToPeerIdx t1 = Map.empty \<and>
    (\<forall>now acts'. (Maintenance now, acts') \<in> set tr' \<longrightarrow> acts' = []) \<and>
    (\<forall>(e, acts') \<in> set tr'. ReceiveAgain \<notin> set acts') \<and>
    length (filter (is_datagram \<circ> fst) tr') + left_over = armed \<and> armed \<le> 1"
proof -
  have ok: "udp_ok t" "armed \<le> 1" using run_one_receive [OF assms(2) udp_ok_UdpTunnel_init] by simp_all
  have "udp_ok t1" "\<not> is_running t1"
    using stop_listening_ok [OF ok(1), of C] assms(3) by (auto simp: stop_listening_def)
  note after = run_stopped [OF assms(4) this]
  have "ReceiveAgain \<notin> set acts'" if "(e, acts') \<in> set tr'" for e acts'
    using after that by (fastforce simp: filter_empty_conv)
  moreover have "acts = CancelTimer #
             map (\<lambda>p. SendTo (datagram_of C (control C TUNNEL_BYE) []) (endpoint p))
                 (filter (\<lambda>p. state p = CONNECTED) (mPeers t)) @
             map (\<lambda>g. CallGateway (StopListening g)) (gateways t)"
    using assms(3) by (auto simp: stop_listening_def wire_codec.sendBye_eq [OF assms(1)] concat_map_if_singleton cong: if_cong)
  ultimately show ?thesis using after ok(2) assms(3) by (auto simp: stop_listening_def)
qed

text \<open>
  A tunnel without peers is stopped; the datagram that the armed receive still takes, a HELLO of a stranger, has
  its sender put before the (automatic) rejection, and is the last.
\<close>

theorem stop_listening_is_final_witness:
  "\<exists>(t1 :: (nat, u64, nat) UdpTunnel) acts t2. stop_listening network_codec (fst (UdpTunnel_init [])) = (t1, acts) \<and>
     socket_run network_codec t1 1 [(Datagram 9 (datagram_of network_codec (control network_codec TUNNEL_HELLO) []) 5, [PostReject 9])] t2 0 \<and>
     length acts = 1"
proof -
  let ?t = "fst (UdpTunnel_init []) :: (nat, u64, nat) UdpTunnel"
  let ?d = "datagram_of network_codec (control network_codec TUNNEL_HELLO) []"
  obtain t1 acts where s: "stop_listening network_codec ?t = (t1, acts)" by force
  obtain t2 where d: "on_datagram network_codec 9 ?d 5 t1 = Inr (t2, [PostReject 9])"
    using s by (auto simp: net.on_datagram_hello handleHello_def handleUnknownPeer_def stop_listening_def UdpTunnel_init_def)
  then have run: "socket_run network_codec t1 1 [(Datagram 9 ?d 5, [PostReject 9])] t2 0"
    using run_receives [OF d, of 0 "[]" t2 0] run_ends [of network_codec t2 0] by simp
  from stop_listening_is_final [OF net.wire_codec_axioms run_ends s run] s run show ?thesis
    by (auto simp: UdpTunnel_init_def)
qed

end
