(* ===== verification/Two_Sites.thy ===== *)
theory Two_Sites
  imports UdpTunnel_Properties
begin

text \<open>
  Two UDP tunnels that know each other, and the network between them: the HELLO handshake, the half-open
  connection that it cannot repair, and a Link message from the gateway of one site to the
  gateways of the other. The network keeps datagrams in flight and delivers them in any order;
  only the datagrams between the two sites are in the picture, each tunnel may have other peers.
\<close>

subsection \<open>Sites and network\<close>

record ('g, 'n, 'ep) Net =
  siteA :: "('g, 'n, 'ep) UdpTunnel"
  siteB :: "('g, 'n, 'ep) UdpTunnel"
  to_a :: "bytes list"
  to_b :: "bytes list"

fun sent_to :: "'ep \<Rightarrow> ('g, 'n, 'ep) action list \<Rightarrow> bytes list" where
  "sent_to ep [] = []"
| "sent_to ep (SendTo d ep' # acts) = (if ep' = ep then d # sent_to ep acts else sent_to ep acts)"
| "sent_to ep (_ # acts) = sent_to ep acts"

definition knows :: "('g, 'n, 'ep) UdpTunnel \<Rightarrow> 'ep \<Rightarrow> bool" where
  "knows t ep \<longleftrightarrow> (\<exists>i. mEndpointToPeerIdx t ep = Some i \<and> i < length (mPeers t))"

definition peer_entry :: "('g, 'n, 'ep) UdpTunnel \<Rightarrow> 'ep \<Rightarrow> 'ep PeerEntry" where
  "peer_entry t ep = mPeers t ! the (mEndpointToPeerIdx t ep)"

definition connected :: "('g, 'n, 'ep) UdpTunnel \<Rightarrow> 'ep \<Rightarrow> bool" where
  "connected t ep \<longleftrightarrow> knows t ep \<and> state (peer_entry t ep) = CONNECTED"

abbreviation hello_datagram :: "'n codec \<Rightarrow> bytes" where
  "hello_datagram C \<equiv> datagram_of C (control C TUNNEL_HELLO) []"

abbreviation keepalive_datagram :: "'n codec \<Rightarrow> bytes" where
  "keepalive_datagram C \<equiv> datagram_of C (control C TUNNEL_KEEPALIVE) []"

text \<open>
  A step of the network delivers a datagram, or runs the maintenance pass of a site. \<open>patient\<close>: the pass of
  \<open>B\<close> comes while \<open>B\<close> still considers \<open>A\<close> alive.
\<close>

inductive delivery :: "'n codec \<Rightarrow> 'ep \<Rightarrow> 'ep \<Rightarrow> ('g, 'n, 'ep) Net \<Rightarrow> ('g, 'n, 'ep) Net \<Rightarrow> bool" for C a b where
  deliver_to_b:
    "d \<in> set (to_b N) \<Longrightarrow> on_datagram C a d now (siteB N) = Inr (B', acts) \<Longrightarrow>
     delivery C a b N (N\<lparr>siteB := B', to_b := remove1 d (to_b N), to_a := to_a N @ sent_to a acts\<rparr>)"
| deliver_to_a:
    "d \<in> set (to_a N) \<Longrightarrow> on_datagram C b d now (siteA N) = Inr (A', acts) \<Longrightarrow>
     delivery C a b N (N\<lparr>siteA := A', to_a := remove1 d (to_a N), to_b := to_b N @ sent_to b acts\<rparr>)"

definition patient :: "('g, 'n, 'ep) UdpTunnel \<Rightarrow> 'ep \<Rightarrow> time \<Rightarrow> bool" where
  "patient t ep now \<longleftrightarrow> now - last_seen (peer_entry t ep) \<le> kKeepaliveTimeout"

inductive net_step :: "'n codec \<Rightarrow> 'ep \<Rightarrow> 'ep \<Rightarrow> ('g, 'n, 'ep) Net \<Rightarrow> ('g, 'n, 'ep) Net \<Rightarrow> bool" for C a b where
  net_delivery: "delivery C a b N N' \<Longrightarrow> net_step C a b N N'"
| net_lose_a: "net_step C a b N (N\<lparr>to_a := remove1 d (to_a N)\<rparr>)"
| net_lose_b: "net_step C a b N (N\<lparr>to_b := remove1 d (to_b N)\<rparr>)"
| net_maintain_a:
    "runMaintenance C now (siteA N) = (A', acts) \<Longrightarrow> net_step C a b N (N\<lparr>siteA := A', to_b := to_b N @ sent_to b acts\<rparr>)"
| net_maintain_b:
    "patient (siteB N) a now \<Longrightarrow> runMaintenance C now (siteB N) = (B', acts) \<Longrightarrow>
     net_step C a b N (N\<lparr>siteB := B', to_a := to_a N @ sent_to a acts\<rparr>)"

lemma sent_to_append [simp]: "sent_to ep (as @ bs) = sent_to ep as @ sent_to ep bs"
  by (induction ep as rule: sent_to.induct) simp_all

subsection \<open>One datagram at one site\<close>

lemma connected_peers_cong:
  "mEndpointToPeerIdx t' = mEndpointToPeerIdx t \<Longrightarrow> mPeers t' = mPeers t \<Longrightarrow>
     connected t' ep = connected t ep \<and> knows t' ep = knows t ep"
  by (simp add: connected_def knows_def peer_entry_def)

context wire_codec
begin

lemma site_hello:
  assumes "knows t ep"
  obtains t' where "on_datagram C ep (hello_datagram C) now t =
      Inr (t', (if connected t ep then [] else [SendTo (hello_datagram C) ep]) @ (if is_running t then [ReceiveAgain] else []))"
    "connected t' ep" "map endpoint (mPeers t') = map endpoint (mPeers t)" "mEndpointToPeerIdx t' = mEndpointToPeerIdx t"
    "is_running t' = is_running t"
proof -
  from assms obtain i where i: "mEndpointToPeerIdx t ep = Some i" "i < length (mPeers t)" by (auto simp: knows_def)
  let ?t = "t\<lparr>mPeers := (mPeers t)[i := (mPeers t ! i)\<lparr>state := CONNECTED, last_seen := now\<rparr>]\<rparr>"
  have c: "connected t ep \<longleftrightarrow> state (mPeers t ! i) = CONNECTED" using i by (simp add: connected_def knows_def peer_entry_def)
  have "on_datagram C ep (hello_datagram C) now t =
      Inr (?t, (if connected t ep then [] else [SendTo (hello_datagram C) ep]) @ (if is_running t then [ReceiveAgain] else []))"
    using i by (simp add: on_datagram_hello handleHello_def peer_at_def c sendHello_eq)
  moreover have "connected ?t ep" using i by (simp add: connected_def knows_def peer_entry_def)
  moreover have "map endpoint (mPeers ?t) = map endpoint (mPeers t)" using i(2) by (simp add: map_endpoint_update)
  ultimately show thesis using that [of ?t] by simp
qed

lemma site_keepalive:
  assumes "knows t ep"
  obtains t' where "on_datagram C ep (keepalive_datagram C) now t = Inr (t', if is_running t then [ReceiveAgain] else [])"
    "connected t' ep = connected t ep" "map endpoint (mPeers t') = map endpoint (mPeers t)"
    "mEndpointToPeerIdx t' = mEndpointToPeerIdx t" "is_running t' = is_running t"
proof -
  from assms obtain i where i: "mEndpointToPeerIdx t ep = Some i" "i < length (mPeers t)" by (auto simp: knows_def)
  let ?t = "if state (mPeers t ! i) = CONNECTED then t\<lparr>mPeers := (mPeers t)[i := (mPeers t ! i)\<lparr>last_seen := now\<rparr>]\<rparr> else t"
  have "on_datagram C ep (keepalive_datagram C) now t = Inr (?t, if is_running t then [ReceiveAgain] else [])"
    using i by (simp add: on_datagram_def handleReceive_control handleKeepalive_def peer_at_def)
  moreover have "connected ?t ep = connected t ep" using i by (simp add: connected_def knows_def peer_entry_def)
  moreover have "map endpoint (mPeers ?t) = map endpoint (mPeers t)" using i(2) by (simp add: map_endpoint_update)
  ultimately show thesis using that [of ?t] by simp
qed

end

lemma knows_cong:
  assumes "map endpoint (mPeers t') = map endpoint (mPeers t)" "mEndpointToPeerIdx t' = mEndpointToPeerIdx t"
  shows "knows t' ep = knows t ep"
  using assms(2) map_eq_imp_length_eq [OF assms(1)] by (simp add: knows_def)

subsection \<open>The handshake\<close>

definition handshaking :: "'n codec \<Rightarrow> 'ep \<Rightarrow> 'ep \<Rightarrow> ('g, 'n, 'ep) Net \<Rightarrow> bool" where
  "handshaking C a b N \<longleftrightarrow> knows (siteA N) b \<and> knows (siteB N) a \<and>
     set (to_a N) \<subseteq> {hello_datagram C} \<and> set (to_b N) \<subseteq> {hello_datagram C} \<and>
     (\<not> connected (siteA N) b \<and> \<not> connected (siteB N) a \<longrightarrow> to_a N \<noteq> [] \<or> to_b N \<noteq> []) \<and>
     (\<not> connected (siteA N) b \<and> connected (siteB N) a \<longrightarrow> to_a N \<noteq> []) \<and>
     (connected (siteA N) b \<and> \<not> connected (siteB N) a \<longrightarrow> to_b N \<noteq> [])"

text \<open>An upper bound for the datagrams still to be delivered: each site answers at most one HELLO.\<close>

definition handshake_work :: "'ep \<Rightarrow> 'ep \<Rightarrow> ('g, 'n, 'ep) Net \<Rightarrow> nat" where
  "handshake_work a b N = length (to_a N) + length (to_b N) +
     (if connected (siteA N) b then 0 else 2) + (if connected (siteB N) a then 0 else 2)"

lemma remove1_hello: "set xs \<subseteq> {h} \<Longrightarrow> d \<in> set xs \<Longrightarrow> d = h \<and> set (remove1 d xs) \<subseteq> {h} \<and> Suc (length (remove1 d xs)) = length xs"
  using length_pos_if_in_set [of d xs] by (auto simp: length_remove1 dest: set_mp [OF set_remove1_subset])

context wire_codec
begin

lemma hello_outcome:
  assumes "knows t ep" "on_datagram C ep (hello_datagram C) now t = Inr (t', acts)"
  shows "connected t' ep \<and> knows t' ep' = knows t ep' \<and> map endpoint (mPeers t') = map endpoint (mPeers t) \<and>
    mEndpointToPeerIdx t' = mEndpointToPeerIdx t \<and>
    sent_to ep acts = (if connected t ep then [] else [hello_datagram C])"
proof (rule site_hello [OF assms(1), of now])
  fix t1
  assume "on_datagram C ep (hello_datagram C) now t =
      Inr (t1, (if connected t ep then [] else [SendTo (hello_datagram C) ep]) @ (if is_running t then [ReceiveAgain] else []))"
    and t1: "connected t1 ep" "map endpoint (mPeers t1) = map endpoint (mPeers t)" "mEndpointToPeerIdx t1 = mEndpointToPeerIdx t"
  with assms(2) have "t' = t1" "acts = (if connected t ep then [] else [SendTo (hello_datagram C) ep]) @ (if is_running t then [ReceiveAgain] else [])"
    by simp_all
  with t1 knows_cong [OF t1(2,3), of ep'] show ?thesis by simp
qed

lemma handshaking_delivery:
  assumes "delivery C a b N N'" "handshaking C a b N"
  shows "handshaking C a b N' \<and> handshake_work a b N' < handshake_work a b N"
  using assms
proof (induction rule: delivery.induct)
  case (deliver_to_b d N now B' acts)
  from deliver_to_b.prems have k: "knows (siteA N) b" "knows (siteB N) a" and h: "set (to_b N) \<subseteq> {hello_datagram C}"
    by (simp_all add: handshaking_def)
  note r = remove1_hello [OF h deliver_to_b.hyps(1)]
  from hello_outcome [OF k(2), of now B' acts a] deliver_to_b.hyps(2) r
  have B': "connected B' a" "knows B' a" "sent_to a acts = (if connected (siteB N) a then [] else [hello_datagram C])"
    using k by auto
  show ?case using deliver_to_b.prems r B' by (cases "connected (siteB N) a") (auto simp: handshaking_def handshake_work_def)
next
  case (deliver_to_a d N now A' acts)
  from deliver_to_a.prems have k: "knows (siteA N) b" "knows (siteB N) a" and h: "set (to_a N) \<subseteq> {hello_datagram C}"
    by (simp_all add: handshaking_def)
  note r = remove1_hello [OF h deliver_to_a.hyps(1)]
  from hello_outcome [OF k(1), of now A' acts b] deliver_to_a.hyps(2) r
  have A': "connected A' b" "knows A' b" "sent_to b acts = (if connected (siteA N) b then [] else [hello_datagram C])"
    using k by auto
  show ?case using deliver_to_a.prems r A' by (cases "connected (siteA N) b") (auto simp: handshaking_def handshake_work_def)
qed

lemma handshaking_run:
  "(delivery C a b ^^ n) N N' \<Longrightarrow> handshaking C a b N \<Longrightarrow> handshaking C a b N' \<and> handshake_work a b N' + n \<le> handshake_work a b N"
proof (induction n arbitrary: N')
  case (Suc n)
  then obtain N1 where N1: "(delivery C a b ^^ n) N N1" "delivery C a b N1 N'" by auto
  from Suc.IH [OF N1(1) Suc.prems(2)] handshaking_delivery [OF N1(2)] show ?case by auto
qed simp

lemma handshaking_can_deliver:
  assumes "handshaking C a b N" "to_a N \<noteq> [] \<or> to_b N \<noteq> []"
  shows "\<exists>N'. delivery C a b N N'"
proof (cases "to_b N = []")
  case False
  with assms(1) have "hello_datagram C \<in> set (to_b N)" "knows (siteB N) a"
    by (cases "to_b N"; auto simp: handshaking_def)+
  then show ?thesis by (metis site_hello deliver_to_b)
next
  case True
  with assms have "hello_datagram C \<in> set (to_a N)" "knows (siteA N) b"
    by (cases "to_a N"; auto simp: handshaking_def)+
  then show ?thesis by (metis site_hello deliver_to_a)
qed

end

subsection \<open>Half-open connections\<close>

text \<open>
  \<open>A\<close> does not consider \<open>B\<close> connected, but \<open>B\<close> does consider \<open>A\<close> connected: \<open>A\<close> was restarted, or lost
  the datagrams of \<open>B\<close> for a while.
\<close>

definition half_open :: "'n codec \<Rightarrow> 'ep \<Rightarrow> 'ep \<Rightarrow> ('g, 'n, 'ep) Net \<Rightarrow> bool" where
  "half_open C a b N \<longleftrightarrow> knows (siteA N) b \<and> \<not> connected (siteA N) b \<and>
     connected (siteB N) a \<and> index_ok (siteB N) \<and> distinct (map endpoint (mPeers (siteB N))) \<and>
     set (to_a N) \<subseteq> {keepalive_datagram C} \<and> set (to_b N) \<subseteq> {hello_datagram C, keepalive_datagram C}"

lemma sent_to_concat: "sent_to ep (concat ass) = concat (map (sent_to ep) ass)"
  by (induction ass) simp_all

context wire_codec
begin

lemma maintenance_sent:
  "sent_to ep (maintenance_sends C now p :: ('g, 'n, 'ep) action list) =
     (if endpoint p \<noteq> ep \<or> timed_out now p then []
      else if state p = CONNECTED then [keepalive_datagram C] else [hello_datagram C])"
  by (simp add: maintenance_sends_def sendHello_eq sendKeepalive_eq)

lemma maintenance_sent_all:
  "runMaintenance C now t = (t', acts) \<Longrightarrow> set (sent_to ep acts) \<subseteq> {hello_datagram C, keepalive_datagram C}"
  by (auto simp: runMaintenance_eq sent_to_concat maintenance_sent split: if_splits)

lemma maintenance_not_connected:
  assumes "runMaintenance C now t = (t', acts)"
  shows "knows t' ep = knows t ep \<and> (\<not> connected t ep \<longrightarrow> \<not> connected t' ep)"
proof (cases "is_running t")
  case True
  with assms have t': "mPeers t' = map (maintained now) (mPeers t)" "mEndpointToPeerIdx t' = mEndpointToPeerIdx t"
    by (auto simp: runMaintenance_eq)
  then show ?thesis
    by (auto simp: connected_def knows_def peer_entry_def maintained_def timed_out_def)
qed (use assms in \<open>auto simp: runMaintenance_eq\<close>)

lemma maintenance_patient:
  fixes t :: "('g, 'n, 'ep) UdpTunnel"
  assumes "runMaintenance C now t = (t', acts)" "patient t ep now" "connected t ep" "index_ok t"
    and "distinct (map endpoint (mPeers t))"
  shows "connected t' ep \<and> index_ok t' \<and> map endpoint (mPeers t') = map endpoint (mPeers t) \<and>
    set (sent_to ep acts) \<subseteq> {keepalive_datagram C}"
proof (cases "is_running t")
  case True
  with assms(1) have t': "mPeers t' = map (maintained now) (mPeers t)" "mEndpointToPeerIdx t' = mEndpointToPeerIdx t"
    and acts: "sent_to ep acts = concat (map (sent_to ep \<circ> (maintenance_sends C now :: _ \<Rightarrow> ('g, 'n, 'ep) action list)) (mPeers t))"
    by (auto simp: runMaintenance_eq sent_to_concat)
  from assms(3) obtain i where i: "mEndpointToPeerIdx t ep = Some i" "i < length (mPeers t)" "state (mPeers t ! i) = CONNECTED"
    by (auto simp: connected_def knows_def peer_entry_def)
  then have fresh: "\<not> timed_out now (mPeers t ! i)"
    using assms(2) by (simp add: patient_def peer_entry_def timed_out_def)
  have "p = mPeers t ! i" if "p \<in> set (mPeers t)" "endpoint p = ep" for p
    using that index_okD [OF assms(4) i(1)] assms(5) by (metis distinct_map inj_on_eq_iff nth_mem)
  then have "set (sent_to ep acts) \<subseteq> {keepalive_datagram C}"
    using i(3) fresh by (auto simp: acts maintenance_sent)
  moreover have "connected t' ep" using t' i fresh by (simp add: connected_def knows_def peer_entry_def maintained_def)
  moreover have e: "map endpoint (mPeers t') = map endpoint (mPeers t)" by (simp add: t')
  moreover have "index_ok t'" using index_ok_cong [OF e t'(2)] assms(4) by simp
  ultimately show ?thesis by blast
qed (use assms in \<open>auto simp: runMaintenance_eq\<close>)

lemma keepalive_outcome:
  assumes "knows t ep" "on_datagram C ep (keepalive_datagram C) now t = Inr (t', acts)"
  shows "connected t' ep = connected t ep \<and> knows t' ep' = knows t ep' \<and> map endpoint (mPeers t') = map endpoint (mPeers t) \<and>
    mEndpointToPeerIdx t' = mEndpointToPeerIdx t \<and> sent_to ep acts = []"
proof (rule site_keepalive [OF assms(1), of now])
  fix t1
  assume "on_datagram C ep (keepalive_datagram C) now t = Inr (t1, if is_running t then [ReceiveAgain] else [])"
    and t1: "connected t1 ep = connected t ep" "map endpoint (mPeers t1) = map endpoint (mPeers t)"
      "mEndpointToPeerIdx t1 = mEndpointToPeerIdx t"
  with assms(2) have "t' = t1" "acts = (if is_running t then [ReceiveAgain] else [])" by simp_all
  with t1 knows_cong [OF t1(2,3), of ep'] show ?thesis by simp
qed

lemma half_open_step:
  assumes "net_step C a b N N'" "half_open C a b N"
  shows "half_open C a b N'"
  using assms
proof (induction rule: net_step.induct)
  case (net_delivery N N')
  then show ?case
  proof (induction rule: delivery.induct)
    case (deliver_to_b d N now B' acts)
    then have k: "knows (siteB N) a" "connected (siteB N) a" and d: "d = hello_datagram C \<or> d = keepalive_datagram C"
      by (auto simp: half_open_def connected_def)
    have o: "connected B' a \<and> map endpoint (mPeers B') = map endpoint (mPeers (siteB N)) \<and>
        mEndpointToPeerIdx B' = mEndpointToPeerIdx (siteB N) \<and> sent_to a acts = []"
      using d hello_outcome [OF k(1), of now B' acts a] keepalive_outcome [OF k(1), of now B' acts a] deliver_to_b.hyps(2) k(2)
      by auto
    then have "index_ok B' = index_ok (siteB N)" by (intro index_ok_cong) simp_all
    with o deliver_to_b.prems show ?case by (auto simp: half_open_def dest: set_mp [OF set_remove1_subset])
  next
    case (deliver_to_a d N now A' acts)
    then have k: "knows (siteA N) b" "d = keepalive_datagram C" by (auto simp: half_open_def)
    from keepalive_outcome [OF k(1), of now A' acts b] deliver_to_a k(2) show ?case
      by (auto simp: half_open_def dest: set_mp [OF set_remove1_subset])
  qed
next
  case (net_maintain_a now N A' acts)
  from maintenance_not_connected [OF net_maintain_a.hyps, of b] maintenance_sent_all [OF net_maintain_a.hyps, of b]
    net_maintain_a.prems show ?case by (auto simp: half_open_def)
next
  case (net_maintain_b N now B' acts)
  from net_maintain_b.prems have "connected (siteB N) a" "index_ok (siteB N)" "distinct (map endpoint (mPeers (siteB N)))"
    by (simp_all add: half_open_def)
  from maintenance_patient [OF net_maintain_b.hyps(2,1) this] net_maintain_b.prems show ?case
    by (auto simp: half_open_def)
qed (auto simp: half_open_def dest: set_mp [OF set_remove1_subset])

end

interpretation half_open_net: invariant_system "\<lambda>N. wire_codec C \<and> half_open C a b N"
    "net_step C a b" "\<lambda>N. wire_codec C \<and> half_open C a b N"
  by unfold_locales (auto intro: wire_codec.half_open_step)

subsection \<open>A message from gateway to gateway\<close>

lemma message_crosses:
  assumes "wire_codec C" "mt = BROADCAST \<or> mt = MEASUREMENT_PONG" "carries_to_node mt \<longleftrightarrow> to \<noteq> None"
    and "header_size C mt + length msg \<le> kMaxMessageSize C"
    and "udp_ok A" "connected A b" "connected B a" "index_ok A"
    and "shouldForward mt n msg now A = Inr (True, A1)"
  shows "\<exists>A' acts d B' acts'. forward C mt n msg to now A = Inr (A', acts) \<and> d \<in> set (sent_to b acts) \<and>
    on_datagram C a d later B = Inr (B', acts') \<and>
    (\<forall>g \<in> set (gateways B). CallGateway (ForwardMessageLocally g mt n msg to) \<in> set acts') \<and>
    (remoteNodeIdToPeerIdx B n = None \<longrightarrow> remoteNodeIdToPeerIdx B' n = mEndpointToPeerIdx B a)"
proof -
  let ?d = "datagram_of C (outbound mt n to) msg"
  obtain c where A1: "A1 = A\<lparr>mDedupCache := c\<rparr>"
    using shouldForward_ok [OF udp_okD(5) [OF assms(5)]] assms(9) by (metis old.sum.inject(2) prod.inject)
  have f: "forward C mt n msg to now A = Inr (A1, map (\<lambda>p. SendTo ?d (endpoint p)) (filter (\<lambda>p. state p = CONNECTED) (mPeers A)))"
    using wire_codec.forward_unfold [OF assms(1,9,4)] assms(2,3) A1 by (auto simp: Let_def)
  from assms(6) obtain i where i: "mEndpointToPeerIdx A b = Some i" "i < length (mPeers A)" "state (mPeers A ! i) = CONNECTED"
    by (auto simp: connected_def knows_def peer_entry_def)
  have sent: "?d \<in> set (sent_to b (map (\<lambda>p. SendTo ?d (endpoint p)) ps))" if "p \<in> set ps" "endpoint p = b" for p ps
    using that by (induction ps) auto
  have s: "?d \<in> set (sent_to b (map (\<lambda>p. SendTo ?d (endpoint p)) (filter (\<lambda>p. state p = CONNECTED) (mPeers A))))"
    using i index_okD [OF assms(8) i(1)] by (intro sent [of "mPeers A ! i"]) auto
  from assms(7) obtain j where j: "mEndpointToPeerIdx B a = Some j" "j < length (mPeers B)" "state (mPeers B ! j) = CONNECTED"
    by (auto simp: connected_def knows_def peer_entry_def)
  have r: "on_datagram C a ?d later B =
      Inr (B\<lparr>remoteNodeIdToPeerIdx := emplace n j (remoteNodeIdToPeerIdx B)\<rparr>,
           map CallGateway (forward_locally mt n msg to B) @ (if is_running B then [ReceiveAgain] else []))"
    by (rule wire_codec.on_datagram_link [OF assms(1)]) (use assms(2-4) j in auto)
  show ?thesis using f s r j(1) by (auto simp: forward_locally_def emplace_def)
qed

text \<open>The sites of the witnesses: each has one gateway and one peer.\<close>

definition example_site :: "nat \<Rightarrow> PeerConnectionState \<Rightarrow> (nat, u64, nat) UdpTunnel" where
  "example_site ep s = \<lparr>gateways = [3], mDedupCache = initial_cache, is_running = True,
     mPeers = [\<lparr>endpoint = ep, state = s, last_seen = 0\<rparr>], remoteNodeIdToPeerIdx = Map.empty,
     mEndpointToPeerIdx = [ep \<mapsto> 0], mPendingPeers = {}, mRejectedPeers = {}, mUnknownPeerCallback = AutoReject\<rparr>"

lemma example_site_simps [simp]:
  "knows (example_site ep s) ep" "connected (example_site ep s) ep \<longleftrightarrow> s = CONNECTED" "udp_ok (example_site ep s)"
  "gateways (example_site ep s) = [3]"
  by (auto simp: example_site_def knows_def connected_def peer_entry_def udp_ok_def index_ok_def index_complete_def
      dedup_ok_initial_cache split: if_splits)

definition example_net :: "PeerConnectionState \<Rightarrow> PeerConnectionState \<Rightarrow> (nat, u64, nat) Net" where
  "example_net s s' = \<lparr>siteA = example_site 2 s, siteB = example_site 1 s', to_a = [], to_b = [hello_datagram network_codec]\<rparr>"

subsection \<open>Properties\<close>

text \<open>
  C7: The handshake completes. When two sites that know each other are not connected and HELLOs are in
  flight between them, in either direction or both, then every order of delivery ends: after at most
  four deliveries more than HELLOs that were in flight nothing is left to deliver, a delivery is
  possible until then, and at the end each site considers the other one connected.
\<close>

theorem handshake_completes:
  assumes "wire_codec C" "knows (siteA N) b" "knows (siteB N) a"
    and "\<not> connected (siteA N) b" "\<not> connected (siteB N) a"
    and "set (to_a N @ to_b N) = {hello_datagram C}"
    and "(delivery C a b ^^ n) N N'"
  shows "n + length (to_a N') + length (to_b N') \<le> length (to_a N) + length (to_b N) + 4 \<and>
    (if to_a N' = [] \<and> to_b N' = [] then connected (siteA N') b \<and> connected (siteB N') a
     else \<exists>N''. delivery C a b N' N'')"
proof -
  have hellos: "set (to_a N) \<union> set (to_b N) = {hello_datagram C}" using assms(6) by (simp only: set_append)
  then have "set (to_a N) \<subseteq> {hello_datagram C}" "set (to_b N) \<subseteq> {hello_datagram C}" by blast+
  moreover have "to_a N \<noteq> [] \<or> to_b N \<noteq> []"
    using hellos by (metis Un_empty insert_not_empty list.set(1))
  ultimately have h: "handshaking C a b N" unfolding handshaking_def using assms(2-5) by blast
  from wire_codec.handshaking_run [OF assms(1,7) h]
  have h': "handshaking C a b N'" and w: "handshake_work a b N' + n \<le> handshake_work a b N" by auto
  have "handshake_work a b N = length (to_a N) + length (to_b N) + 4"
    using assms(4,5) by (simp add: handshake_work_def)
  moreover have "length (to_a N') + length (to_b N') \<le> handshake_work a b N'" by (simp add: handshake_work_def)
  ultimately have "n + length (to_a N') + length (to_b N') \<le> length (to_a N) + length (to_b N) + 4" using w by linarith
  moreover have "connected (siteA N') b \<and> connected (siteB N') a" if "to_a N' = [] \<and> to_b N' = []"
    using h' that unfolding handshaking_def by blast
  moreover have "\<exists>N''. delivery C a b N' N''" if "\<not> (to_a N' = [] \<and> to_b N' = [])"
    using wire_codec.handshaking_can_deliver [OF assms(1) h'] that by blast
  ultimately show ?thesis by (simp split: if_split)
qed

theorem handshake_completes_witness:
  "\<exists>N. delivery network_codec 1 2 (example_net DISCONNECTED DISCONNECTED) N"
  using handshake_completes [OF net.wire_codec_axioms, of "example_net DISCONNECTED DISCONNECTED" 2 1 0]
  by (simp add: example_net_def)

text \<open>
  C6: A half-open connection is never repaired. When \<open>A\<close> has lost its connection to \<open>B\<close> but \<open>B\<close> still holds its
  connection to \<open>A\<close>, as after a restart of \<open>A\<close>, then as long as HELLOs of \<open>A\<close> reach \<open>B\<close> within its timeout,
  whatever is delivered, reordered or lost, \<open>B\<close> answers none of them (it does consider \<open>A\<close> connected) and
  \<open>A\<close> ignores the KEEPALIVEs it gets instead: \<open>A\<close> never becomes connected and hands no datagram from \<open>B\<close> to
  its gateways.
\<close>

theorem half_open_persists:
  assumes "wire_codec C" "half_open C a b N" "(net_step C a b)\<^sup>*\<^sup>* N N'"
  shows "\<not> connected (siteA N') b \<and> connected (siteB N') a \<and>
    (on_datagram C b d now (siteA N') = Inr (A', acts) \<longrightarrow> CallGateway call \<notin> set acts)"
proof -
  have h: "half_open C a b N'" using half_open_net.inv_reachable [OF _ assms(3)] assms(1,2) by blast
  then have nc: "\<not> connected (siteA N') b" "connected (siteB N') a" by (simp_all add: half_open_def)
  have "CallGateway call \<notin> set acts" if "on_datagram C b d now (siteA N') = Inr (A', acts)"
  proof
    assume c: "CallGateway call \<in> set acts"
    from that obtain acts' where r: "handleReceive C b (receive_buffer C d) now (siteA N') = Inr (A', acts')"
      and acts: "acts = acts' @ (if is_running A' then [ReceiveAgain] else [])" by (rule on_datagram_elim)
    from c have "CallGateway call \<in> set acts'" by (auto simp: acts split: if_splits)
    from handleReceive_gateway_call [OF r this] nc(1) show False by (auto simp: connected_def knows_def peer_entry_def)
  qed
  with nc show ?thesis by blast
qed

theorem half_open_persists_witness:
  "\<not> connected (fst (runMaintenance network_codec (seconds 5) (example_site 2 DISCONNECTED))) 2"
proof -
  let ?N = "example_net DISCONNECTED CONNECTED"
  have h: "half_open network_codec 1 2 ?N"
    using udp_okD(1) [of "example_site 1 CONNECTED"] by (auto simp: half_open_def example_net_def, simp add: example_site_def)
  obtain A' acts where m: "runMaintenance network_codec (seconds 5) (example_site 2 DISCONNECTED) = (A', acts)" by force
  then have "net_step network_codec 1 2 ?N (?N\<lparr>siteA := A', to_b := to_b ?N @ sent_to 2 acts\<rparr>)"
    by (intro net_maintain_a) (simp add: example_net_def)
  from half_open_persists [OF net.wire_codec_axioms h r_into_rtranclp [of "net_step network_codec 1 2", OF this]] m
  show ?thesis by simp
qed

text \<open>
  A Link message crosses the tunnel unchanged. What the gateway of one site forwards (a broadcast or a pong
  that fits and is not a duplicate) is sent, as one datagram, to every connected peer; and when that
  datagram arrives at the site of a peer that considers the sender connected, each gateway there is
  called with the same type, node, bytes and target, and answers for the node will go back to the sender.
\<close>

theorem link_message_crosses:
  assumes "wire_codec C" "mt = BROADCAST \<or> mt = MEASUREMENT_PONG" "carries_to_node mt \<longleftrightarrow> to \<noteq> None"
    and "header_size C mt + length msg \<le> kMaxMessageSize C"
    and "udp_ok A" "connected A b" "connected B a" "index_ok A"
    and "shouldForward mt n msg now A = Inr (True, A1)"
  shows "\<exists>A' acts d B' acts'. forward C mt n msg to now A = Inr (A', acts) \<and> d \<in> set (sent_to b acts) \<and>
    on_datagram C a d later B = Inr (B', acts') \<and>
    (\<forall>g \<in> set (gateways B). CallGateway (ForwardMessageLocally g mt n msg to) \<in> set acts') \<and>
    (remoteNodeIdToPeerIdx B n = None \<longrightarrow> remoteNodeIdToPeerIdx B' n = mEndpointToPeerIdx B a)"
  by (rule message_crosses [OF assms])

theorem link_message_crosses_witness:
  "\<exists>d B' acts. on_datagram network_codec 1 d 0 (example_site 1 CONNECTED) = Inr (B', acts) \<and>
     CallGateway (ForwardMessageLocally 3 MEASUREMENT_PONG 5 [1] (Some 77)) \<in> set acts"
proof -
  let ?A = "example_site 2 CONNECTED"
  have go: "shouldForward MEASUREMENT_PONG 5 [1] 0 ?A = Inr (True, ?A)" by (simp add: shouldForward_def)
  from link_message_crosses [OF net.wire_codec_axioms _ _ _ _ _ _ _ go, of "Some 77" 2 "example_site 1 CONNECTED" 1 0]
  show ?thesis
    using udp_okD(1) [of ?A] by (fastforce simp: header_size_def carries_to_node_def network_codec_sizes)
qed

end
