(* ===== verification/Sessions.thy ===== *)
theory Sessions
  imports Two_Sites
begin

text \<open>
  The life of a connection between two sites: how long it lasts after the other side was last heard, and
  how it is made again by the timer once both sides have given it up.
\<close>

subsection \<open>The index points at the last entry of an endpoint\<close>

text \<open>
  \<open>mPeers\<close> may hold an endpoint twice (given twice on the command line). The index then points at the later
  entry, which is what makes a rebuilt index find the same entries again after another peer is erased.
\<close>

definition index_last :: "('g, 'n, 'ep) UdpTunnel \<Rightarrow> bool" where
  "index_last t \<longleftrightarrow> (\<forall>ep i j. mEndpointToPeerIdx t ep = Some i \<and> i < j \<and> j < length (mPeers t) \<longrightarrow> endpoint (mPeers t ! j) \<noteq> ep)"

lemma index_last_cong:
  assumes "map endpoint (mPeers t') = map endpoint (mPeers t)" "mEndpointToPeerIdx t' = mEndpointToPeerIdx t"
  shows "index_last t' \<longleftrightarrow> index_last t"
  using assms map_eq_imp_length_eq [OF assms(1)] unfolding index_last_def by (metis nth_map)

lemma index_from_last:
  "index_from i ps m ep = Some j \<Longrightarrow> k < length ps \<Longrightarrow> j < i + k \<Longrightarrow> endpoint (ps ! k) \<noteq> ep"
proof (induction ps arbitrary: i m k)
  case (Cons p ps)
  have rest: "index_from (Suc i) ps (m(endpoint p \<mapsto> i)) ep = Some j" using Cons.prems(1) by simp
  show ?case
  proof (cases k)
    case 0
    with Cons.prems(3) index_from_Some [OF rest] show ?thesis by auto
  next
    case (Suc k')
    with Cons.IH [OF rest, of k'] Cons.prems show ?thesis by simp
  qed
qed simp

lemma index_last_rebuild: "index_last (rebuildEndpointIndex t)"
  unfolding index_last_def
proof (intro allI impI)
  fix ep i j
  assume "mEndpointToPeerIdx (rebuildEndpointIndex t) ep = Some i \<and> i < j \<and> j < length (mPeers (rebuildEndpointIndex t))"
  then show "endpoint (mPeers (rebuildEndpointIndex t) ! j) \<noteq> ep"
    using index_from_last [of 0 "mPeers t" Map.empty ep i j] by (simp add: rebuildEndpointIndex_def)
qed

lemma index_last_push: "index_ok t \<Longrightarrow> index_last t \<Longrightarrow> index_last (push_peer ep t)"
  by (fastforce simp: index_last_def index_ok_def push_peer_def nth_append less_Suc_eq split: if_splits)

lemma index_last_fold_push: "udp_ok t \<Longrightarrow> index_last t \<Longrightarrow> index_last (fold push_peer eps t)"
  by (induction eps arbitrary: t) (simp_all add: index_last_push udp_okD(1) udp_ok_push)

lemma index_last_init:
  fixes t :: "('g, 'n, 'ep) UdpTunnel"
  assumes "udp_init t"
  shows "index_last t"
proof -
  let ?empty = "\<lparr>gateways = [], mDedupCache = initial_cache, is_running = True, mPeers = [],
     remoteNodeIdToPeerIdx = Map.empty, mEndpointToPeerIdx = Map.empty,
     mPendingPeers = {}, mRejectedPeers = {}, mUnknownPeerCallback = AutoReject\<rparr> :: ('g, 'n, 'ep) UdpTunnel"
  obtain eps where "t = fold push_peer eps ?empty" using assms by (auto simp: udp_init_def UdpTunnel_init_def)
  moreover have "index_last ?empty" by (simp add: index_last_def)
  ultimately show ?thesis using index_last_fold_push [OF udp_ok_empty] by blast
qed

lemma index_last_peer:
  assumes "index_last t" "endpoint p = endpoint (mPeers t ! i)"
  shows "index_last (t\<lparr>mPeers := (mPeers t)[i := p]\<rparr>)"
  by (rule iffD2 [OF index_last_cong assms(1)]) (simp_all add: map_endpoint_update [OF assms(2)])

lemma index_last_frame:
  "mPeers t' = mPeers t \<Longrightarrow> mEndpointToPeerIdx t' = mEndpointToPeerIdx t \<Longrightarrow> index_last t \<Longrightarrow> index_last t'"
  by (simp add: index_last_def)

lemma index_last_receive:
  assumes "handleReceive C from buf now t = Inr (t', acts)" "index_last t"
  shows "index_last t'"
  using assms(1)
proof (cases rule: handleReceive_elim)
  case hello
  then show ?thesis
  proof (cases rule: handleHello_elim)
    case 1
    show ?thesis by (rule index_last_frame [OF _ _ assms(2)]) (use 1(2) in \<open>auto dest!: handleUnknownPeer_frame\<close>)
  next
    case (2 i)
    show ?thesis unfolding 2(3) by (rule index_last_peer [OF assms(2)]) simp
  qed
next
  case keepalive
  then show ?thesis
  proof (cases rule: handleKeepalive_elim)
    case (2 i)
    show ?thesis unfolding 2(4) by (rule index_last_peer [OF assms(2)]) simp
  qed (use assms(2) in simp)
next
  case bye
  from bye(1) show ?thesis
  proof (cases rule: handleBye_elim)
    case (2 i)
    show ?thesis
      by (rule index_last_frame [OF _ _ index_last_peer [OF assms(2), of "(mPeers t ! i)\<lparr>state := DISCONNECTED\<rparr>" i]])
        (simp_all add: 2(3) erasePeerNodeIds_def)
  qed (use assms(2) in simp)
next
  case (byebye ctx msg)
  from byebye(1) show ?thesis by (cases rule: handleByebye_elim) (use assms(2) in \<open>simp_all add: index_last_def\<close>)
next
  case (link ctx msg)
  then show ?thesis by (cases rule: handleLinkMessage_elim) (use assms(2) in \<open>simp_all add: index_last_def\<close>)
qed (use assms(2) in simp)

lemma index_last_step: "udp_step C t e acts t' \<Longrightarrow> udp_ok t \<Longrightarrow> index_last t \<Longrightarrow> index_last t'"
proof (induction rule: udp_step.induct)
  case (step_add ep' t t' acts)
  then show ?case using index_last_push [OF udp_okD(1)] by (auto simp: addPeer_def split: if_splits)
next
  case (step_remove ep' t t' acts)
  then show ?case using index_last_rebuild by (auto simp: removePeer_def Let_def split: option.splits if_splits)
next
  case (step_accept ep' t t' acts)
  have "index_ok (t\<lparr>mPendingPeers := mPendingPeers t - {ep'}\<rparr>)" "index_last (t\<lparr>mPendingPeers := mPendingPeers t - {ep'}\<rparr>)"
    using step_accept.prems by (simp_all add: udp_ok_def index_ok_def index_last_def)
  with step_accept.hyps show ?case using index_last_push by (fastforce simp: acceptPeer_def Let_def split: if_splits)
next
  case (step_forward mt n msg to now t t' acts)
  then obtain c where "t' = t\<lparr>mDedupCache := c\<rparr>" using forward_frame by metis
  with step_forward show ?case using index_last_frame [of t' t] by simp
next
  case (step_datagram source d now t t' acts)
  then show ?case using index_last_receive by (auto elim!: on_datagram_elim)
next
  case (step_maintenance now t t' acts)
  then show ?case using index_last_cong [of t' t] by (auto simp: runMaintenance_eq split: if_splits)
next
  case (step_stop t t' acts)
  then show ?case by (auto simp: stop_listening_def index_last_def)
qed (auto simp: rejectPeer_def setUnknownPeerCallback_def addGateway_def removeGateway_def intro: index_last_frame)

interpretation udp_last: invariant_system udp_init "udp_move C" "\<lambda>t. udp_ok t \<and> index_last t"
  by unfold_locales (auto simp: udp_move_def intro: udp_ok_init udp_step_ok index_last_init index_last_step)

text \<open>Erasing one peer: the index finds the entry of every other endpoint again, one place further down if need be.\<close>

lemma removed_other_peer:
  assumes "removePeer C ep' t = Inr (t', acts)" "udp_ok t" "index_last t" "ep \<noteq> ep'" "mEndpointToPeerIdx t ep = Some i"
  obtains k where "mEndpointToPeerIdx t' ep = Some k" "k < length (mPeers t')" "mPeers t' ! k = mPeers t ! i"
    "udp_ok t'" "index_last t'"
proof -
  have t': "udp_ok t'" "index_last t'"
    using udp_step_ok [OF step_remove [OF assms(1)] assms(2)] index_last_step [OF step_remove [OF assms(1)] assms(2,3)] .
  note i = index_okD [OF udp_okD(1) [OF assms(2)] assms(5)]
  show thesis
  proof (cases "mEndpointToPeerIdx t ep'")
    case None
    with assms(1) have "t' = t" by (simp add: removePeer_def)
    with t' i assms(5) that show thesis by blast
  next
    case (Some j)
    note j = index_okD [OF udp_okD(1) [OF assms(2)] Some]
    have "i \<noteq> j" using i j assms(4) by auto
    have eq: "mPeers t' = take j (mPeers t) @ drop (Suc j) (mPeers t)"
        "mEndpointToPeerIdx t' = index_from 0 (mPeers t') Map.empty"
      using assms(1) Some j by (auto simp: removePeer_def rebuildEndpointIndex_def Let_def)
    have len: "length (mPeers t') = length (mPeers t) - 1" using eq(1) j by simp
    have at: "mPeers t' ! k = mPeers t ! (if k < j then k else Suc k)" if "k < length (mPeers t')" for k
      using that len j by (auto simp: eq(1) nth_append)
    define k where "k = (if i < j then i else i - 1)"
    have k: "k < length (mPeers t')" "mPeers t' ! k = mPeers t ! i"
      using at [of k] i j len \<open>i \<noteq> j\<close> by (auto simp: k_def)
    have after: "endpoint (mPeers t' ! l) \<noteq> ep" if "k < l" "l < length (mPeers t')" for l
    proof -
      let ?l = "if l < j then l else Suc l"
      have "i < ?l" "?l < length (mPeers t)" using that len j \<open>i \<noteq> j\<close> by (auto simp: k_def split: if_splits)
      then have "endpoint (mPeers t ! ?l) \<noteq> ep" using assms(3,5) unfolding index_last_def by blast
      with at [OF that(2)] show ?thesis by simp
    qed
    have "endpoint (mPeers t' ! k) = ep" using k i by simp
    then have "ep \<in> endpoint ` set (mPeers t')" using k(1) by (metis image_eqI nth_mem)
    then obtain l where l: "mEndpointToPeerIdx t' ep = Some l" using dom_index_from [of 0 "mPeers t'" Map.empty] eq(2) by auto
    note l' = index_okD [OF udp_okD(1) [OF t'(1)] l]
    have "\<not> k < l" using after l' by blast
    moreover have "\<not> l < k" using t'(2) l k(1) \<open>endpoint (mPeers t' ! k) = ep\<close> by (auto simp: index_last_def)
    ultimately have "l = k" by simp
    with l k t' that show thesis by blast
  qed
qed

subsection \<open>A connection lasts\<close>

text \<open>The peer \<open>ep\<close> is connected and was seen at time \<open>since\<close> or later.\<close>

definition seen_since :: "time \<Rightarrow> 'ep \<Rightarrow> ('g, 'n, 'ep) UdpTunnel \<Rightarrow> bool" where
  "seen_since since ep t \<longleftrightarrow> udp_ok t \<and>
     (\<exists>i. mEndpointToPeerIdx t ep = Some i \<and> i < length (mPeers t) \<and> state (mPeers t ! i) = CONNECTED \<and>
        since \<le> last_seen (mPeers t ! i))"

definition says_bye :: "'n codec \<Rightarrow> bytes \<Rightarrow> bool" where
  "says_bye C d \<longleftrightarrow> (\<exists>ctx p. decapsulate C (receive_buffer C d) = Inr (Some (ctx, p)) \<and> msg_type ctx = TUNNEL_BYE)"

text \<open>
  What does not end the connection before its timeout: the clock does not run back, \<open>ep\<close> says no BYE, it is
  not \<open>ep\<close> that is removed. Any other peer may be.
\<close>

fun spares :: "'n codec \<Rightarrow> time \<Rightarrow> 'ep \<Rightarrow> ('g, 'n, 'ep) event \<Rightarrow> bool" where
  "spares C since ep (RemovePeer ep') \<longleftrightarrow> ep' \<noteq> ep"
| "spares C since ep Stop \<longleftrightarrow> False"
| "spares C since ep (Datagram from d now) \<longleftrightarrow> since \<le> now \<and> (from = ep \<longrightarrow> \<not> says_bye C d)"
| "spares C since ep (Maintenance now) \<longleftrightarrow> now - since \<le> kKeepaliveTimeout"
| "spares C since ep _ \<longleftrightarrow> True"

definition udp_sparing :: "'n codec \<Rightarrow> time \<Rightarrow> 'ep \<Rightarrow> ('g, 'n, 'ep) UdpTunnel \<Rightarrow> ('g, 'n, 'ep) UdpTunnel \<Rightarrow> bool" where
  "udp_sparing C since ep t t' \<longleftrightarrow> (\<exists>e acts. udp_step C t e acts t' \<and> spares C since ep e)"

lemma seen_since_cong:
  "seen_since since ep t \<Longrightarrow> udp_ok t' \<Longrightarrow> mPeers t' = mPeers t \<Longrightarrow> mEndpointToPeerIdx t' = mEndpointToPeerIdx t \<Longrightarrow>
     seen_since since ep t'"
  by (simp add: seen_since_def)

lemma seen_since_push:
  assumes "seen_since since ep t" "mEndpointToPeerIdx t ep' = None" "udp_ok (push_peer ep' t)"
  shows "seen_since since ep (push_peer ep' t)"
  using assms by (auto simp: seen_since_def push_peer_def nth_append)

lemma seen_since_update:
  assumes "seen_since since ep t" "udp_ok t'" "mEndpointToPeerIdx t' = mEndpointToPeerIdx t"
    and "mEndpointToPeerIdx t from = Some j" "mPeers t' = (mPeers t)[j := p]"
    and "from = ep \<Longrightarrow> state p = CONNECTED \<and> since \<le> last_seen p"
  shows "seen_since since ep t'"
proof -
  from assms(1) obtain i where i: "mEndpointToPeerIdx t ep = Some i" "i < length (mPeers t)"
    "state (mPeers t ! i) = CONNECTED" "since \<le> last_seen (mPeers t ! i)" and ok: "udp_ok t" by (auto simp: seen_since_def)
  have "from = ep" if "i = j"
    using index_okD [OF udp_okD(1) [OF ok] i(1)] index_okD [OF udp_okD(1) [OF ok] assms(4)] that by auto
  then show ?thesis using i assms(2,3,5,6) by (cases "i = j") (auto simp: seen_since_def)
qed

lemma seen_since_receive:
  assumes "handleReceive C from (receive_buffer C d) now t = Inr (t', acts)" "seen_since since ep t" "udp_ok t'"
    and "since \<le> now" "from = ep \<Longrightarrow> \<not> says_bye C d"
  shows "seen_since since ep t'"
  using assms(1)
proof (cases rule: handleReceive_elim)
  case hello
  then show ?thesis
  proof (cases rule: handleHello_elim)
    case 1
    then show ?thesis using seen_since_cong [OF assms(2,3)] by (auto dest!: handleUnknownPeer_frame)
  next
    case (2 i)
    then show ?thesis using seen_since_update [OF assms(2,3) _ 2(1)] assms(4) by simp
  qed
next
  case keepalive
  then show ?thesis
  proof (cases rule: handleKeepalive_elim)
    case (2 i)
    then show ?thesis using seen_since_update [OF assms(2,3) _ 2(1)] assms(4) by simp
  qed (use assms(2) in simp)
next
  case bye
  then have "from \<noteq> ep" using assms(5) by (auto simp: says_bye_def)
  from bye(1) show ?thesis
  proof (cases rule: handleBye_elim)
    case (2 i)
    then show ?thesis using seen_since_update [OF assms(2,3) _ 2(1)] \<open>from \<noteq> ep\<close> by (simp add: erasePeerNodeIds_def)
  qed (use assms(2) in simp)
next
  case (byebye ctx msg)
  from byebye(1) show ?thesis by (cases rule: handleByebye_elim) (use seen_since_cong [OF assms(2,3)] in auto)
next
  case (link ctx msg)
  then show ?thesis by (cases rule: handleLinkMessage_elim) (use seen_since_cong [OF assms(2,3)] in auto)
qed (use assms(2) in simp)

lemma seen_since_maintenance:
  assumes "seen_since since ep t" "now - since \<le> kKeepaliveTimeout"
  shows "seen_since since ep (fst (runMaintenance C now t))"
  using assms runMaintenance_ok [of t C now]
  by (auto simp: seen_since_def runMaintenance_eq maintained_def timed_out_def)

lemma seen_since_step:
  "udp_step C t e acts t' \<Longrightarrow> spares C since ep e \<Longrightarrow> index_last t \<Longrightarrow> seen_since since ep t \<Longrightarrow> seen_since since ep t'"
proof (induction rule: udp_step.induct)
  case (step_remove ep' t t' acts)
  then obtain i where "udp_ok t" "mEndpointToPeerIdx t ep = Some i" "state (mPeers t ! i) = CONNECTED" "since \<le> last_seen (mPeers t ! i)"
    "ep \<noteq> ep'" by (auto simp: seen_since_def)
  with removed_other_peer [OF step_remove.hyps this(1) step_remove.prems(2) this(5,2)] show ?case
    by (metis seen_since_def)
next
  case (step_add ep' t t' acts)
  then have "udp_ok t'" using addPeer_ok [of t C ep'] by (simp add: seen_since_def)
  with step_add show ?case using seen_since_push by (auto simp: addPeer_def split: if_splits)
next
  case (step_accept ep' t t' acts)
  have "udp_ok t'" using step_accept acceptPeer_ok [of t C ep'] by (simp add: seen_since_def)
  moreover have "seen_since since ep (t\<lparr>mPendingPeers := mPendingPeers t - {ep'}\<rparr>)"
    using step_accept.prems
    by (auto simp: seen_since_def udp_ok_def index_ok_def index_complete_def)
  ultimately show ?case using step_accept.hyps seen_since_push by (fastforce simp: acceptPeer_def Let_def split: if_splits)
next
  case (step_forward mt n msg to now t t' acts)
  then obtain c where "t' = t\<lparr>mDedupCache := c\<rparr>" "udp_ok t'"
    using forward_frame forward_keeps_ok unfolding seen_since_def by metis
  with step_forward show ?case using seen_since_cong by fastforce
next
  case (step_datagram source d now t t' acts)
  then have "udp_ok t'" using udp_step_ok [OF udp_step.step_datagram] by (auto simp: seen_since_def)
  with step_datagram show ?case using seen_since_receive by (fastforce elim: on_datagram_elim)
next
  case (step_maintenance now t t' acts)
  then show ?case using seen_since_maintenance [of since ep t now C] by simp
next
  case (step_reject ep' t)
  show ?case
    by (rule seen_since_cong [OF step_reject.prems(3) rejectPeer_ok])
      (use step_reject.prems(3) in \<open>simp_all add: seen_since_def rejectPeer_def\<close>)
next
  case (step_callback t cb)
  show ?case
    by (rule seen_since_cong [OF step_callback.prems(3) setUnknownPeerCallback_ok])
      (use step_callback.prems(3) in \<open>simp_all add: seen_since_def setUnknownPeerCallback_def\<close>)
next
  case (step_add_gateway t g)
  show ?case
    by (rule seen_since_cong [OF step_add_gateway.prems(3) addGateway_ok])
      (use step_add_gateway.prems(3) in \<open>simp_all add: seen_since_def addGateway_def\<close>)
next
  case (step_remove_gateway t g)
  show ?case
    by (rule seen_since_cong [OF step_remove_gateway.prems(3) removeGateway_ok])
      (use step_remove_gateway.prems(3) in \<open>simp_all add: seen_since_def removeGateway_def\<close>)
qed simp_all

interpretation session: invariant_system "\<lambda>t. seen_since since ep t \<and> index_last t" "udp_sparing C since ep"
    "\<lambda>t. seen_since since ep t \<and> index_last t"
proof unfold_locales
  fix t t' :: "('a, 'b, 'c) UdpTunnel"
  assume t: "seen_since since ep t \<and> index_last t" and "udp_sparing C since ep t t'"
  then obtain e acts where e: "udp_step C t e acts t'" "spares C since ep e" by (auto simp: udp_sparing_def)
  from t have "udp_ok t" by (simp add: seen_since_def)
  with seen_since_step [OF e] index_last_step [OF e(1)] t show "seen_since since ep t' \<and> index_last t'" by simp
qed simp

lemma seen_since_connected: "seen_since since ep t \<Longrightarrow> connected t ep \<and> since \<le> last_seen (peer_entry t ep)"
  by (auto simp: seen_since_def connected_def knows_def peer_entry_def)

lemma heard_seen_since:
  assumes "wire_codec C" "udp_ok t" "knows t ep"
    and "d = hello_datagram C \<or> d = keepalive_datagram C \<and> connected t ep" "on_datagram C ep d now t = Inr (t', acts)"
  shows "seen_since now ep t'"
proof -
  from assms(3) obtain i where i: "mEndpointToPeerIdx t ep = Some i" "i < length (mPeers t)" by (auto simp: knows_def)
  have "udp_ok t'" using udp_step_ok [OF step_datagram [OF assms(5)] assms(2)] .
  moreover have "\<exists>p. t' = t\<lparr>mPeers := (mPeers t)[i := p]\<rparr> \<and> state p = CONNECTED \<and> last_seen p = now"
    using assms(4,5) i
    by (auto simp: wire_codec.on_datagram_hello [OF assms(1)] on_datagram_def wire_codec.handleReceive_control [OF assms(1)]
        handleHello_def handleKeepalive_def peer_at_def connected_def peer_entry_def)
  ultimately show ?thesis using i by (auto simp: seen_since_def)
qed

subsection \<open>Properties\<close>

text \<open>
  C8: A connection lasts. In every reachable state of the tunnel, after a HELLO of a known peer, or a KEEPALIVE of
  a connected one, the peer is connected and stays so whatever the tunnel does next and whoever else sends it
  what, other peers being added or removed included, until that peer says BYE, is itself removed, the tunnel
  stops, or a pass of the timer comes more than 15 seconds after the message.
\<close>

theorem connection_lasts:
  assumes "wire_codec C" "udp_init t0" "(udp_move C)\<^sup>*\<^sup>* t0 t" "knows t ep"
    and "d = hello_datagram C \<or> d = keepalive_datagram C \<and> connected t ep"
    and "on_datagram C ep d now t = Inr (t1, acts)" "(udp_sparing C now ep)\<^sup>*\<^sup>* t1 t2"
  shows "connected t2 ep \<and> now \<le> last_seen (peer_entry t2 ep)"
proof -
  note t = udp_last.inv_reachable [OF assms(2,3)]
  have "seen_since now ep t1" using heard_seen_since [OF assms(1) _ assms(4-6)] t by blast
  moreover have "index_last t1" using index_last_step [OF step_datagram [OF assms(6)]] t by blast
  ultimately have "seen_since now ep t2" using session.inv_reachable [OF _ assms(7)] by blast
  then show ?thesis by (rule seen_since_connected)
qed

text \<open>
  A tunnel with the peers 7 and 2. A HELLO of 2 at time 0, then 7 is removed, which moves 2 to the front of the
  table, and the timer passes 15 seconds later.
\<close>

theorem connection_lasts_witness:
  "\<exists>(t1 :: (nat, u64, nat) UdpTunnel) acts t2 acts2. removePeer network_codec 7 t1 = Inr (t2, acts2) \<and>
     on_datagram network_codec 2 (hello_datagram network_codec) 0 (fst (UdpTunnel_init [7, 2])) = Inr (t1, acts) \<and>
     connected (fst (runMaintenance network_codec (seconds 15) t2)) 2"
proof -
  let ?t = "fst (UdpTunnel_init [7, 2]) :: (nat, u64, nat) UdpTunnel"
  have start: "udp_init ?t" by (auto simp: udp_init_def)
  have k: "knows ?t 2" by (simp add: knows_def UdpTunnel_init_def push_peer_def)
  obtain t1 acts where h: "on_datagram network_codec 2 (hello_datagram network_codec) 0 ?t = Inr (t1, acts)"
    using net.site_hello [OF k, of 0] by metis
  have "udp_ok t1" using udp_step_ok [OF step_datagram [OF h] udp_ok_init [OF start]] .
  then obtain t2 acts2 where r: "removePeer network_codec 7 t1 = Inr (t2, acts2)" by (rule removePeer_ok)
  obtain t3 acts3 where m: "runMaintenance network_codec (seconds 15) t2 = (t3, acts3)" by force
  have "udp_sparing network_codec 0 2 t1 t2" using step_remove [OF r] by (force simp: udp_sparing_def)
  moreover have "udp_sparing network_codec 0 2 t2 t3"
    using step_maintenance [OF m] by (force simp: udp_sparing_def kKeepaliveTimeout_def)
  ultimately have "(udp_sparing network_codec 0 2)\<^sup>*\<^sup>* t1 t3" by (meson converse_rtranclp_into_rtranclp r_into_rtranclp)
  from connection_lasts [OF net.wire_codec_axioms start rtranclp.rtrancl_refl k _ h this] have "connected t3 2" by simp
  with h r m show ?thesis by auto
qed

text \<open>
  C9: A lost connection is made again. When neither of two sites that know each other considers the other one
  connected, the next pass of the timer at either of them sends a HELLO; when that arrives, the other site
  is connected and answers, and when the answer arrives both are.
\<close>

theorem pass_reconnects:
  fixes A B :: "('g, 'n, 'ep) UdpTunnel"
  assumes "wire_codec C" "udp_ok A" "is_running A" "knows A b" "knows B a" "\<not> connected A b" "\<not> connected B a"
    and "runMaintenance C now A = (A', acts)"
  shows "hello_datagram C \<in> set (sent_to b acts) \<and>
    (\<exists>B' acts1 A'' acts2. on_datagram C a (hello_datagram C) t1 B = Inr (B', acts1) \<and> connected B' a \<and>
       sent_to a acts1 = [hello_datagram C] \<and>
       on_datagram C b (hello_datagram C) t2 A' = Inr (A'', acts2) \<and> connected A'' b)"
proof -
  from assms(4,6) obtain i where i: "mEndpointToPeerIdx A b = Some i" "i < length (mPeers A)" "state (mPeers A ! i) \<noteq> CONNECTED"
    by (auto simp: connected_def knows_def peer_entry_def)
  have "endpoint (mPeers A ! i) = b" using index_okD [OF udp_okD(1) [OF assms(2)] i(1)] by simp
  then have "hello_datagram C \<in> set (sent_to b (maintenance_sends C now (mPeers A ! i) :: ('g, 'n, 'ep) action list))"
    using i(3) by (simp add: wire_codec.maintenance_sent [OF assms(1)] timed_out_def)
  moreover have "sent_to b acts = concat (map (\<lambda>p. sent_to b (maintenance_sends C now p :: ('g, 'n, 'ep) action list)) (mPeers A))"
    using assms(3,8) by (auto simp: runMaintenance_eq sent_to_concat comp_def)
  ultimately have 1: "hello_datagram C \<in> set (sent_to b acts)" using i(2) by (auto intro!: bexI [of _ "mPeers A ! i"])
  obtain B' acts1 where B: "on_datagram C a (hello_datagram C) t1 B = Inr (B', acts1)"
    using wire_codec.site_hello [OF assms(1,5), of t1] by metis
  have A': "knows A' b" "\<not> connected A' b"
    using wire_codec.maintenance_not_connected [OF assms(1,8), of b] assms(4,6) by auto
  obtain A'' acts2 where A: "on_datagram C b (hello_datagram C) t2 A' = Inr (A'', acts2)"
    using wire_codec.site_hello [OF assms(1) A'(1), of t2] by metis
  from wire_codec.hello_outcome [OF assms(1,5) B] wire_codec.hello_outcome [OF assms(1) A'(1) A] 1 A B assms(7)
  show ?thesis by (intro conjI exI) auto
qed

theorem pass_reconnects_witness:
  "\<exists>A' acts A'' acts2. runMaintenance network_codec (seconds 5) (example_site 2 DISCONNECTED) = (A', acts) \<and>
     hello_datagram network_codec \<in> set (sent_to 2 acts) \<and>
     on_datagram network_codec 2 (hello_datagram network_codec) (seconds 6) A' = Inr (A'', acts2) \<and> connected A'' 2"
proof -
  obtain A' acts where m: "runMaintenance network_codec (seconds 5) (example_site 2 DISCONNECTED) = (A', acts)" by force
  have run: "is_running (example_site 2 DISCONNECTED)" by (simp add: example_site_def)
  from pass_reconnects [OF net.wire_codec_axioms _ run _ _ _ _ m, where B = "example_site 1 DISCONNECTED" and a = 1 and b = 2
      and ?t2.0 = "seconds 6"] m
  show ?thesis by auto
qed

end
