(* ===== verification/SharedMessages.thy ===== *)
theory SharedMessages
  imports Extender_Prelude
begin

text \<open>
  The ring buffers of \<open>include/ableton/extender/ShmTunnel.hpp\<close>: \<open>SharedMessages\<close>, one per client
  of the shared memory. \<open>push\<close> and \<open>pop\<close> hold the mutex of the ring, so each is one atomic step.
  Indices into the array are checked in the model: an index outside the array is a fault. The ring
  is shown to implement a bounded first-in first-out queue of 99 messages (the locale
  \<open>bounded_queue\<close>) that drops what does not fit.
\<close>

subsection \<open>The ring\<close>

definition MAX_MESSAGES :: nat where
  "MAX_MESSAGES = 100"

record 'm Message =
  source :: nat
  message :: 'm

record 'm SharedMessages =
  messages :: "'m Message list"
  messages_front :: nat
  messages_back :: nat

definition is_empty :: "'m SharedMessages \<Rightarrow> bool" where
  "is_empty q \<longleftrightarrow> messages_front q = messages_back q"

definition is_full :: "'m SharedMessages \<Rightarrow> bool" where
  "is_full q \<longleftrightarrow> (messages_back q + 1) mod MAX_MESSAGES = messages_front q"

definition push :: "nat \<Rightarrow> 'm \<Rightarrow> 'm SharedMessages \<Rightarrow> fault + 'm SharedMessages" where
  "push src msg q =
     (if is_full q then Inr q
      else if length (messages q) \<le> messages_back q then Inl IndexOutOfRange
      else Inr (q\<lparr>messages := (messages q)[messages_back q := \<lparr>source = src, message = msg\<rparr>],
                  messages_back := (messages_back q + 1) mod MAX_MESSAGES\<rparr>))"

text \<open>\<open>pop\<close> returns \<open>false\<close> (\<open>None\<close>) or the source and the message it assigns to its arguments.\<close>

definition pop :: "'m SharedMessages \<Rightarrow> fault + (nat \<times> 'm) option \<times> 'm SharedMessages" where
  "pop q =
     (if is_empty q then Inr (None, q)
      else if length (messages q) \<le> messages_front q then Inl IndexOutOfRange
      else (let m = messages q ! messages_front q
            in Inr (Some (source m, message m),
                    q\<lparr>messages_front := (messages_front q + 1) mod MAX_MESSAGES\<rparr>)))"

definition clear :: "'m SharedMessages \<Rightarrow> 'm SharedMessages" where
  "clear q = q\<lparr>messages_front := 0, messages_back := 0\<rparr>"

subsection \<open>Bounded queues\<close>

text \<open>
  The contract of a bounded queue, stated on the list of its contents: \<open>put\<close> appends while there
  is room and otherwise changes nothing, \<open>get\<close> removes the oldest element.
\<close>

datatype 'a queue_op = Put 'a | Get

fun queue_run ::
    "('a \<Rightarrow> 'q \<Rightarrow> fault + 'q) \<Rightarrow> ('q \<Rightarrow> fault + 'a option \<times> 'q) \<Rightarrow> 'q \<Rightarrow> 'a queue_op list \<Rightarrow>
       fault + 'a option list \<times> 'q" where
  "queue_run put get q [] = Inr ([], q)"
| "queue_run put get q (Put x # ops) =
     (case put x q of Inl f \<Rightarrow> Inl f | Inr q1 \<Rightarrow> queue_run put get q1 ops)"
| "queue_run put get q (Get # ops) =
     (case get q of
        Inl f \<Rightarrow> Inl f
      | Inr (r, q1) \<Rightarrow>
          (case queue_run put get q1 ops of Inl f \<Rightarrow> Inl f | Inr (rs, q2) \<Rightarrow> Inr (r # rs, q2)))"

fun fifo_run :: "nat \<Rightarrow> 'a list \<Rightarrow> 'a queue_op list \<Rightarrow> 'a option list \<times> 'a list" where
  "fifo_run cap xs [] = ([], xs)"
| "fifo_run cap xs (Put x # ops) = fifo_run cap (if length xs < cap then xs @ [x] else xs) ops"
| "fifo_run cap [] (Get # ops) = (let (rs, ys) = fifo_run cap [] ops in (None # rs, ys))"
| "fifo_run cap (x # xs) (Get # ops) = (let (rs, ys) = fifo_run cap xs ops in (Some x # rs, ys))"

locale bounded_queue =
  fixes put :: "'a \<Rightarrow> 'q \<Rightarrow> fault + 'q"
    and get :: "'q \<Rightarrow> fault + 'a option \<times> 'q"
    and contents :: "'q \<Rightarrow> 'a list"
    and ok :: "'q \<Rightarrow> bool"
    and cap :: nat
  assumes put_law: "ok q \<Longrightarrow> \<exists>q'. put x q = Inr q' \<and> ok q' \<and>
      contents q' = (if length (contents q) < cap then contents q @ [x] else contents q)"
    and get_empty: "ok q \<Longrightarrow> contents q = [] \<Longrightarrow> get q = Inr (None, q)"
    and get_first: "ok q \<Longrightarrow> contents q = x # xs \<Longrightarrow> \<exists>q'. get q = Inr (Some x, q') \<and> ok q' \<and> contents q' = xs"
    and bounded: "ok q \<Longrightarrow> length (contents q) \<le> cap"
begin

lemma run_refines:
  "ok q \<Longrightarrow> \<exists>q'. queue_run put get q ops = Inr (fst (fifo_run cap (contents q) ops), q') \<and>
     ok q' \<and> contents q' = snd (fifo_run cap (contents q) ops)"
proof (induction ops arbitrary: q)
  case (Cons op ops)
  show ?case
  proof (cases op)
    case (Put x)
    from put_law [OF Cons.prems, of x] obtain q1 where "put x q = Inr q1" "ok q1"
      "contents q1 = (if length (contents q) < cap then contents q @ [x] else contents q)" by blast
    with Cons.IH [of q1] Put show ?thesis by auto
  next
    case Get
    show ?thesis
    proof (cases "contents q")
      case Nil
      from Cons.IH [OF Cons.prems] get_empty [OF Cons.prems Nil] Get Nil show ?thesis by (auto simp: split_beta)
    next
      case (Cons x xs)
      from get_first [OF \<open>ok q\<close> Cons] obtain q1 where "get q = Inr (Some x, q1)" "ok q1" "contents q1 = xs" by blast
      with Cons.IH [of q1] Get Cons show ?thesis by (auto simp: split_beta)
    qed
  qed
qed simp

end

subsection \<open>The ring is a bounded queue\<close>

definition ring_length :: "'m SharedMessages \<Rightarrow> nat" where
  "ring_length q = (messages_back q + MAX_MESSAGES - messages_front q) mod MAX_MESSAGES"

definition ring_contents :: "'m SharedMessages \<Rightarrow> (nat \<times> 'm) list" where
  "ring_contents q = map (\<lambda>k. let m = messages q ! ((messages_front q + k) mod MAX_MESSAGES) in (source m, message m))
     [0..<ring_length q]"

definition ring_ok :: "'m SharedMessages \<Rightarrow> bool" where
  "ring_ok q \<longleftrightarrow> length (messages q) = MAX_MESSAGES \<and> messages_front q < MAX_MESSAGES \<and> messages_back q < MAX_MESSAGES"

lemma length_ring_contents [simp]: "length (ring_contents q) = ring_length q"
  by (simp add: ring_contents_def)

lemma ring_length_less: "ring_length q < MAX_MESSAGES"
  by (simp add: ring_length_def MAX_MESSAGES_def)

lemma ring_length_cases:
  assumes "ring_ok q"
  shows "ring_length q = (if messages_front q \<le> messages_back q then messages_back q - messages_front q
                          else messages_back q + MAX_MESSAGES - messages_front q)"
proof (cases "messages_front q \<le> messages_back q")
  case True
  then have "messages_back q + MAX_MESSAGES - messages_front q = (messages_back q - messages_front q) + MAX_MESSAGES" by simp
  then have "ring_length q = (messages_back q - messages_front q) mod MAX_MESSAGES"
    unfolding ring_length_def by (metis mod_add_self2)
  with True assms show ?thesis by (simp add: ring_ok_def less_imp_diff_less)
next
  case False
  then have "messages_back q + MAX_MESSAGES - messages_front q < MAX_MESSAGES" using assms unfolding ring_ok_def by linarith
  with False show ?thesis by (simp add: ring_length_def)
qed

lemma Suc_mod_ring: "i < MAX_MESSAGES \<Longrightarrow> (i + 1) mod MAX_MESSAGES = (if i + 1 = MAX_MESSAGES then 0 else i + 1)"
  by auto

lemma is_empty_contents: "ring_ok q \<Longrightarrow> is_empty q \<longleftrightarrow> ring_contents q = []"
  using ring_length_cases [of q] by (auto simp: is_empty_def ring_contents_def ring_ok_def split: if_splits)

lemma is_full_contents: "ring_ok q \<Longrightarrow> is_full q \<longleftrightarrow> ring_length q = MAX_MESSAGES - 1"
  using ring_length_cases [of q] Suc_mod_ring [of "messages_back q"]
  by (auto simp: is_full_def ring_ok_def split: if_splits)

lemma mod_less_twice: "x < n + n \<Longrightarrow> x mod n = (if x < n then x else x - n)" for x n :: nat
  by (simp add: le_mod_geq)

lemma ring_position:
  assumes "ring_ok q" "k \<le> ring_length q"
  shows "(messages_front q + k) mod MAX_MESSAGES = messages_back q \<longleftrightarrow> k = ring_length q"
proof -
  note bounds = assms(1) [unfolded ring_ok_def]
  show ?thesis
  proof (cases "messages_front q \<le> messages_back q")
    case True
    then have "ring_length q = messages_back q - messages_front q" using ring_length_cases [OF assms(1)] by simp
    moreover have "messages_front q + k < MAX_MESSAGES" using calculation True assms(2) bounds by linarith
    ultimately show ?thesis using True by auto
  next
    case False
    then have len: "ring_length q = messages_back q + MAX_MESSAGES - messages_front q"
      using ring_length_cases [OF assms(1)] by simp
    then have "messages_front q + k < MAX_MESSAGES + MAX_MESSAGES" using assms(2) bounds False by linarith
    from mod_less_twice [OF this] show ?thesis
      using False len assms(2) bounds by (simp split: if_split) linarith
  qed
qed

lemma push_room:
  assumes "ring_ok q" "\<not> is_full q"
  obtains q' where "push src msg q = Inr q'" "ring_ok q'" "ring_contents q' = ring_contents q @ [(src, msg)]"
proof -
  let ?q = "q\<lparr>messages := (messages q)[messages_back q := \<lparr>source = src, message = msg\<rparr>],
              messages_back := (messages_back q + 1) mod MAX_MESSAGES\<rparr>"
  have push: "push src msg q = Inr ?q" using assms by (simp add: push_def ring_ok_def)
  have ok: "ring_ok ?q" using assms(1) by (simp add: ring_ok_def MAX_MESSAGES_def)
  have len: "ring_length ?q = Suc (ring_length q)"
    using ring_length_cases [OF assms(1)] ring_length_cases [OF ok] assms Suc_mod_ring [of "messages_back q"]
    by (auto simp: is_full_def ring_ok_def split: if_splits)
  have old: "messages ?q ! ((messages_front q + k) mod MAX_MESSAGES) = messages q ! ((messages_front q + k) mod MAX_MESSAGES)"
    if "k < ring_length q" for k
    using ring_position [OF assms(1), of k] that by simp
  have "(messages_front q + ring_length q) mod MAX_MESSAGES = messages_back q"
    using ring_position [OF assms(1), of "ring_length q"] by simp
  then have new: "messages ?q ! ((messages_front q + ring_length q) mod MAX_MESSAGES) = \<lparr>source = src, message = msg\<rparr>"
    using assms(1) by (simp add: ring_ok_def)
  have "ring_contents ?q = ring_contents q @ [(src, msg)]"
    unfolding ring_contents_def len using old new by (simp add: Let_def)
  with push ok that show ?thesis by blast
qed

lemma pop_nonempty:
  assumes "ring_ok q" "ring_contents q = x # xs"
  obtains q' where "pop q = Inr (Some x, q')" "ring_ok q'" "ring_contents q' = xs"
proof -
  let ?q = "q\<lparr>messages_front := (messages_front q + 1) mod MAX_MESSAGES\<rparr>"
  have ok: "ring_ok ?q" using assms(1) by (simp add: ring_ok_def MAX_MESSAGES_def)
  have ne: "\<not> is_empty q" using assms is_empty_contents [OF assms(1)] by simp
  have "ring_length q = Suc (length xs)" using assms(2) by (metis length_Cons length_ring_contents)
  then have len: "ring_length q = Suc (ring_length ?q)"
    using ring_length_cases [OF assms(1)] ring_length_cases [OF ok] assms(1) Suc_mod_ring [of "messages_front q"]
    by (auto simp: ring_ok_def split: if_splits)
  have shift: "((messages_front q + 1) mod MAX_MESSAGES + k) mod MAX_MESSAGES = (messages_front q + Suc k) mod MAX_MESSAGES" for k
    by (simp add: mod_add_left_eq)
  let ?m = "messages q ! messages_front q"
  have "ring_contents q = (source ?m, message ?m) # ring_contents ?q"
    unfolding ring_contents_def len using assms(1) shift
    by (simp add: upt_conv_Cons map_Suc_upt [symmetric] ring_ok_def Let_def comp_def del: upt_Suc)
  with assms(2) have "x = (source ?m, message ?m)" "xs = ring_contents ?q" by simp_all
  with ne ok assms(1) that show ?thesis by (simp add: pop_def ring_ok_def Let_def)
qed

definition ring_put :: "nat \<times> 'm \<Rightarrow> 'm SharedMessages \<Rightarrow> fault + 'm SharedMessages" where
  "ring_put x q = push (fst x) (snd x) q"

interpretation ring: bounded_queue ring_put pop ring_contents ring_ok "MAX_MESSAGES - 1"
proof unfold_locales
  fix q :: "'m SharedMessages" and x
  assume ok: "ring_ok q"
  show "\<exists>q'. ring_put x q = Inr q' \<and> ring_ok q' \<and>
      ring_contents q' = (if length (ring_contents q) < MAX_MESSAGES - 1 then ring_contents q @ [x] else ring_contents q)"
  proof (cases "is_full q")
    case True
    with is_full_contents [OF ok] ok show ?thesis by (simp add: ring_put_def push_def)
  next
    case False
    from push_room [OF ok False, of "fst x" "snd x"] obtain q' where
      "ring_put x q = Inr q'" "ring_ok q'" "ring_contents q' = ring_contents q @ [x]"
      by (auto simp: ring_put_def)
    with False is_full_contents [OF ok] ring_length_less [of q] show ?thesis by auto
  qed
next
  fix q :: "'m SharedMessages"
  assume "ring_ok q" "ring_contents q = []"
  then show "pop q = Inr (None, q)" using is_empty_contents [of q] by (simp add: pop_def)
next
  fix q :: "'m SharedMessages" and x xs
  assume "ring_ok q" "ring_contents q = x # xs"
  then show "\<exists>q'. pop q = Inr (Some x, q') \<and> ring_ok q' \<and> ring_contents q' = xs" using pop_nonempty by metis
next
  fix q :: "'m SharedMessages"
  show "length (ring_contents q) \<le> MAX_MESSAGES - 1" using ring_length_less [of q] by simp
qed

lemma clear_ok: "length (messages q) = MAX_MESSAGES \<Longrightarrow> ring_ok (clear q) \<and> ring_contents (clear q) = []"
  by (simp add: clear_def ring_ok_def ring_contents_def ring_length_def MAX_MESSAGES_def)

subsection \<open>Properties\<close>

text \<open>
  C14: The ring of a client is a bounded queue. From a cleared ring, any sequence of pushes and pops,
  by any interleaving of writers and the reader, stays inside the array and returns exactly what a
  first-in first-out queue of 99 messages returns: a push into a full ring is dropped, a pop of an
  empty ring reports nothing, and messages come out once, in the order they went in.
\<close>

theorem ring_is_bounded_fifo:
  assumes "length (messages q) = MAX_MESSAGES"
  shows "\<exists>q'. queue_run (\<lambda>x. push (fst x) (snd x)) pop (clear q) ops = Inr (fst (fifo_run 99 [] ops), q') \<and>
     ring_contents q' = snd (fifo_run 99 [] ops) \<and> ring_ok q'"
  using ring.run_refines [of "clear q" ops] clear_ok [OF assms]
  by (auto simp: ring_put_def [abs_def] MAX_MESSAGES_def)

theorem ring_is_bounded_fifo_witness:
  "\<exists>q'. queue_run (\<lambda>x. push (fst x) (snd x)) pop
      (clear \<lparr>messages = replicate MAX_MESSAGES \<lparr>source = 0, message = 0 :: nat\<rparr>, messages_front = 7, messages_back = 9\<rparr>)
      [Put (1, 5), Put (2, 6), Get, Get, Get] = Inr ([Some (1, 5), Some (2, 6), None], q')"
proof -
  let ?q = "\<lparr>messages = replicate MAX_MESSAGES \<lparr>source = 0, message = 0 :: nat\<rparr>, messages_front = 7, messages_back = 9\<rparr>"
  have "length (messages ?q) = MAX_MESSAGES" by simp
  from ring_is_bounded_fifo [OF this, of "[Put (1, 5), Put (2, 6), Get, Get, Get]"] show ?thesis by auto
qed

end
