(* ===== verification/ShmTunnel.thy ===== *)
theory ShmTunnel
  imports Tunnel SharedMessages
begin

text \<open>
  \<open>include/ableton/extender/ShmTunnel.hpp\<close>: the tunnel between processes of one machine. The
  memory that all clients map (\<open>SharedMemory\<close>) is separate from the state of one client
  (\<open>ShmTunnel\<close>); every member function maps the client's state and the memory to new ones.
  Each access to a ring is the atomic \<open>push\<close> or \<open>pop\<close> of \<open>SharedMessages\<close>. The loop of \<open>listen\<close> runs among
  the pushes of other processes (\<open>ShmTunnel_listen_among\<close>); the other member functions, and \<open>listen\<close> in the
  system \<open>shm_step\<close> of \<open>ShmTunnel_Properties\<close>, run one at a time against the memory. Opening, truncating and mapping the memory
  object is the operating system's part: a new object is filled with zeros.
\<close>

subsection \<open>State\<close>

definition MAX_CLIENTS :: nat where
  "MAX_CLIENTS = 5"

record SharedMemory =
  num_clients :: nat
  broadcast :: "bytes SharedMessages list"

datatype TunnelClientState =
    TUNNEL_CLIENT_STATE_UNKNOWN
  | TUNNEL_CLIENT_STATE_HELLO
  | TUNNEL_CLIENT_STATE_CONNECTED

record ('g, 'n) ShmTunnel = "('g, 'n) Tunnel" +
  mClientId :: nat
  shm_is_running :: bool
  remoteNodeIdToTunnelClientIdx :: "'n \<rightharpoonup> nat"
  tunnelClientStates :: "nat \<rightharpoonup> TunnelClientState"

datatype ('g, 'n) shm_action =
    ShmCall "('g, 'n) gateway_call"
  | ShmPostListen                       \<comment> \<open>\<open>mIo->async([this] { listen(); })\<close>\<close>

type_synonym ('g, 'n) shm_result = "('g, 'n) ShmTunnel \<times> SharedMemory \<times> ('g, 'n) shm_action list"

text \<open>\<open>new (mSharedMemory) SharedMemory()\<close>: value-initialised.\<close>

definition empty_ring :: "'n codec \<Rightarrow> bytes SharedMessages" where
  "empty_ring C = \<lparr>messages = replicate MAX_MESSAGES \<lparr>source = 0, message = replicate (kMaxMessageSize C) 0\<rparr>,
     messages_front = 0, messages_back = 0\<rparr>"

definition new_memory :: "'n codec \<Rightarrow> SharedMemory" where
  "new_memory C = \<lparr>num_clients = 0, broadcast = replicate MAX_CLIENTS (empty_ring C)\<rparr>"

subsection \<open>Sending\<close>

definition push_to :: "nat \<Rightarrow> nat \<Rightarrow> bytes \<Rightarrow> SharedMemory \<Rightarrow> fault + SharedMemory" where
  "push_to clientIdx src msg m =
     (if length (broadcast m) \<le> clientIdx then Inl IndexOutOfRange
      else (case push src msg (broadcast m ! clientIdx) of
              Inl f \<Rightarrow> Inl f
            | Inr q \<Rightarrow> Inr (m\<lparr>broadcast := (broadcast m)[clientIdx := q]\<rparr>)))"

fun push_others :: "nat list \<Rightarrow> nat \<Rightarrow> bytes \<Rightarrow> SharedMemory \<Rightarrow> fault + SharedMemory" where
  "push_others [] src msg m = Inr m"
| "push_others (clientIdx # idxs) src msg m =
     (if clientIdx = src then push_others idxs src msg m
      else (case push_to clientIdx src msg m of
              Inl f \<Rightarrow> Inl f
            | Inr m1 \<Rightarrow> push_others idxs src msg m1))"

definition say_in_tunnel ::
    "'n codec \<Rightarrow> TunnelMessageType \<Rightarrow> bytes \<Rightarrow> nat option \<Rightarrow> nat \<Rightarrow> SharedMemory \<Rightarrow> fault + SharedMemory" where
  "say_in_tunnel C message_type msg to_tunnel_client_idx clientId m =
     (case encapsulate C \<lparr>from_node = default_node C, msg_type = message_type, to_node = None, msg_size = 0\<rparr> msg of
        Inl f \<Rightarrow> Inl f
      | Inr None \<Rightarrow> Inr m
      | Inr (Some buf) \<Rightarrow>
          (case to_tunnel_client_idx of
             Some idx \<Rightarrow> push_to idx clientId buf m
           | None \<Rightarrow> push_others [0..<num_clients m] clientId buf m))"

definition text_Hello :: bytes where "text_Hello = [72, 101, 108, 108, 111]"
definition text_ello :: bytes where "text_ello = [101, 108, 108, 111]"
definition text_Bye :: bytes where "text_Bye = [66, 121, 101]"

subsection \<open>Joining and leaving\<close>

text \<open>
  The constructor. When it throws, the object does not come to be and its destructor does not run, but
  the memory keeps what was written: the result is the memory with either the fault or the client.
\<close>

definition ShmTunnel_init ::
    "'n codec \<Rightarrow> SharedMemory \<Rightarrow> SharedMemory \<times> (fault + ('g, 'n) ShmTunnel \<times> ('g, 'n) shm_action list)" where
  "ShmTunnel_init C m =
     (let t = \<lparr>gateways = [], mDedupCache = initial_cache, mClientId = num_clients m, shm_is_running = True,
               remoteNodeIdToTunnelClientIdx = Map.empty, tunnelClientStates = Map.empty\<rparr>
      in if mClientId t = 0 then ((new_memory C)\<lparr>num_clients := 1\<rparr>, Inr (t, [ShmPostListen]))
         else (let m1 = m\<lparr>num_clients := num_clients m + 1\<rparr>
               in if MAX_CLIENTS \<le> num_clients m1 then (m1, Inl TooManyClients)
                  else (case say_in_tunnel C TUNNEL_HELLO text_Hello None (mClientId t) m1 of
                          Inl f \<Rightarrow> (m1, Inl f)
                        | Inr m2 \<Rightarrow> (m2, Inr (t, [ShmPostListen])))))"

text \<open>The destructor: \<open>None\<close> when it removes the memory object.\<close>

definition ShmTunnel_destroy :: "SharedMemory \<Rightarrow> SharedMemory option" where
  "ShmTunnel_destroy m = (if 1 < num_clients m then Some (m\<lparr>num_clients := num_clients m - 1\<rparr>) else None)"

subsection \<open>Forwarding\<close>

definition ShmTunnel_forward ::
    "'n codec \<Rightarrow> TunnelMessageType \<Rightarrow> 'n \<Rightarrow> bytes \<Rightarrow> 'n option \<Rightarrow> time \<Rightarrow>
       ('g, 'n) ShmTunnel \<times> SharedMemory \<Rightarrow> fault + ('g, 'n) ShmTunnel \<times> SharedMemory" where
  "ShmTunnel_forward C messageType from_node_id msg to_node_id now s =
     (case s of (t, m) \<Rightarrow>
        (case shouldForward messageType from_node_id msg now t of
           Inl f \<Rightarrow> Inl f
         | Inr (False, t1) \<Rightarrow> Inr (t1, m)
         | Inr (True, t1) \<Rightarrow>
             (case encapsulate C \<lparr>from_node = from_node_id, msg_type = messageType,
                                  to_node = to_node_id, msg_size = 0\<rparr> msg of
                Inl f \<Rightarrow> Inl f
              | Inr None \<Rightarrow> Inr (t1, m)
              | Inr (Some buf) \<Rightarrow>
                  (if messageType = UNICAST \<or> messageType = MEASUREMENT_PING then
                     (case to_node_id of
                        None \<Rightarrow> Inr (t1, m)
                      | Some to \<Rightarrow>
                          (case remoteNodeIdToTunnelClientIdx t1 to of
                             None \<Rightarrow> Inr (t1, m)
                           | Some clientIdx \<Rightarrow>
                               (case push_to clientIdx (mClientId t1) buf m of
                                  Inl f \<Rightarrow> Inl f
                                | Inr m1 \<Rightarrow> Inr (t1, m1))))
                   else (case push_others [0..<length (broadcast m)] (mClientId t1) buf m of
                           Inl f \<Rightarrow> Inl f
                         | Inr m1 \<Rightarrow> Inr (t1, m1))))))"

subsection \<open>Receiving\<close>

text \<open>The body of the loop, for a message \<open>msg\<close> of client \<open>src\<close>.\<close>

definition listen_message ::
    "'n codec \<Rightarrow> nat \<Rightarrow> bytes \<Rightarrow> ('g, 'n) ShmTunnel \<Rightarrow> SharedMemory \<Rightarrow> fault + ('g, 'n) shm_result" where
  "listen_message C src msg t m =
     (case decapsulate C msg of
        Inl f \<Rightarrow> Inl f
      | Inr None \<Rightarrow> Inr (t, m, [])
      | Inr (Some (ctx, payload)) \<Rightarrow>
          (if length payload < msg_size ctx then Inl BufferOverrun
           else (case msg_type ctx of
              TUNNEL_HELLO \<Rightarrow>
                (if tunnelClientStates t src = None then
                   (let t1 = t\<lparr>tunnelClientStates := (tunnelClientStates t)(src \<mapsto> TUNNEL_CLIENT_STATE_HELLO)\<rparr>
                    in case say_in_tunnel C TUNNEL_HELLO text_ello (Some src) (mClientId t) m of
                         Inl f \<Rightarrow> Inl f
                       | Inr m1 \<Rightarrow> Inr (t1, m1, []))
                 else Inr (t\<lparr>tunnelClientStates := (tunnelClientStates t)(src \<mapsto> TUNNEL_CLIENT_STATE_CONNECTED)\<rparr>, m, []))
            | TUNNEL_BYE \<Rightarrow> Inr (t\<lparr>tunnelClientStates := (tunnelClientStates t)(src := None)\<rparr>, m, [])
            | BYEBYE \<Rightarrow>
                Inr (t\<lparr>remoteNodeIdToTunnelClientIdx := (remoteNodeIdToTunnelClientIdx t)(from_node ctx := None)\<rparr>, m, [])
            | _ \<Rightarrow>
                Inr (t\<lparr>remoteNodeIdToTunnelClientIdx :=
                        (if remoteNodeIdToTunnelClientIdx t (from_node ctx) = None
                         then (remoteNodeIdToTunnelClientIdx t)(from_node ctx \<mapsto> src)
                         else remoteNodeIdToTunnelClientIdx t)\<rparr>, m,
                     map ShmCall (forward_locally (msg_type ctx) (from_node ctx)
                                    (take (msg_size ctx) payload) (to_node ctx) t)))))"

text \<open>
  \<open>while (pop(source, msg) && is_running)\<close>: the message is popped before the flag is read. The loop
  need not end on a corrupt ring; not ending is \<open>None\<close>.
\<close>

definition pop_own :: "('g, 'n) ShmTunnel \<Rightarrow> SharedMemory \<Rightarrow> fault + (nat \<times> bytes) option \<times> SharedMemory" where
  "pop_own t m =
     (if length (broadcast m) \<le> mClientId t then Inl IndexOutOfRange
      else (case pop (broadcast m ! mClientId t) of
              Inl f \<Rightarrow> Inl f
            | Inr (r, q) \<Rightarrow> Inr (r, m\<lparr>broadcast := (broadcast m)[mClientId t := q]\<rparr>)))"

text \<open>
  Other processes push into the rings while the loop runs; \<open>push\<close> and \<open>pop\<close> hold the mutex of the ring, so their
  messages arrive between two steps of the loop. \<open>env\<close> lists them, in the order of the gaps: what arrives before
  the first \<open>pop\<close>, what arrives before that message is handled, before the next \<open>pop\<close>, and so on. A push is the
  number of the ring, the number of the sender and the message.
\<close>

type_synonym pushes = "(nat \<times> nat \<times> bytes) list"

fun push_all :: "pushes \<Rightarrow> SharedMemory \<Rightarrow> fault + SharedMemory" where
  "push_all [] m = Inr m"
| "push_all ((clientIdx, src, msg) # ps) m =
     (case push_to clientIdx src msg m of Inl f \<Rightarrow> Inl f | Inr m1 \<Rightarrow> push_all ps m1)"

fun interfere :: "pushes list \<Rightarrow> SharedMemory \<Rightarrow> fault + pushes list \<times> SharedMemory" where
  "interfere [] m = Inr ([], m)"
| "interfere (ps # env) m = (case push_all ps m of Inl f \<Rightarrow> Inl f | Inr m1 \<Rightarrow> Inr (env, m1))"

partial_function (option) listen_loop_among ::
    "'n codec \<Rightarrow> pushes list \<Rightarrow> ('g, 'n) ShmTunnel \<Rightarrow> SharedMemory \<Rightarrow> (fault + ('g, 'n) shm_result) option" where
  "listen_loop_among C env t m0 =
     (case interfere env m0 of
        Inl f \<Rightarrow> Some (Inl f)
      | Inr (env1, m) \<Rightarrow>
     (case pop_own t m of
        Inl f \<Rightarrow> Some (Inl f)
      | Inr (None, m1) \<Rightarrow> Some (Inr (t, m1, []))
      | Inr (Some (src, msg), m1) \<Rightarrow>
          (if \<not> shm_is_running t then Some (Inr (t, m1, []))
           else (case interfere env1 m1 of
                   Inl f \<Rightarrow> Some (Inl f)
                 | Inr (env2, m2) \<Rightarrow>
                (case listen_message C src msg t m2 of
                   Inl f \<Rightarrow> Some (Inl f)
                 | Inr (t3, m3, acts) \<Rightarrow>
                     Option.bind (listen_loop_among C env2 t3 m3)
                       (\<lambda>r. Some (case r of
                                   Inl f \<Rightarrow> Inl f
                                 | Inr (t4, m4, acts') \<Rightarrow> Inr (t4, m4, acts @ acts'))))))))"

definition ShmTunnel_listen_among ::
    "'n codec \<Rightarrow> pushes list \<Rightarrow> ('g, 'n) ShmTunnel \<Rightarrow> SharedMemory \<Rightarrow> (fault + ('g, 'n) shm_result) option" where
  "ShmTunnel_listen_among C env t m =
     Option.bind (listen_loop_among C env t m)
       (\<lambda>r. Some (case r of
                   Inl f \<Rightarrow> Inl f
                 | Inr (t1, m1, acts) \<Rightarrow> Inr (t1, m1, acts @ (if shm_is_running t1 then [ShmPostListen] else []))))"

text \<open>Alone: nobody pushes while the loop runs.\<close>

definition ShmTunnel_listen ::
    "'n codec \<Rightarrow> ('g, 'n) ShmTunnel \<Rightarrow> SharedMemory \<Rightarrow> (fault + ('g, 'n) shm_result) option" where
  "ShmTunnel_listen C t m = ShmTunnel_listen_among C [] t m"

definition ShmTunnel_stop_listening ::
    "'n codec \<Rightarrow> ('g, 'n) ShmTunnel \<Rightarrow> SharedMemory \<Rightarrow> fault + ('g, 'n) shm_result" where
  "ShmTunnel_stop_listening C t m =
     (let t1 = t\<lparr>shm_is_running := False, gateways := []\<rparr>
      in if length (broadcast m) \<le> mClientId t then Inl IndexOutOfRange
         else (let m1 = m\<lparr>broadcast := (broadcast m)[mClientId t := clear (broadcast m ! mClientId t)]\<rparr>
               in case say_in_tunnel C TUNNEL_BYE text_Bye None (mClientId t) m1 of
                    Inl f \<Rightarrow> Inl f
                  | Inr m2 \<Rightarrow> Inr (t1, m2, map (\<lambda>g. ShmCall (StopListening g)) (gateways t))))"

end
