(* ===== verification/ShmTunnel_Invariants.thy ===== *)
theory ShmTunnel_Invariants
  imports ShmTunnel "HOL-Library.Sublist"
begin

text \<open>
  The clients of the shared memory as one system: what every ring of the memory holds, that no
  operation leaves the array of rings or a message buffer, that \<open>listen\<close> always returns with the
  client's ring drained, and which calls it makes on the gateways.
\<close>

subsection \<open>Well-formed memory and clients\<close>

definition deliverable :: "'n codec \<Rightarrow> bytes \<Rightarrow> bool" where
  "deliverable C buf \<longleftrightarrow> length buf = kMaxMessageSize C \<and>
     (\<forall>ctx payload. decapsulate C buf = Inr (Some (ctx, payload)) \<longrightarrow> msg_size ctx \<le> kMaxMessageSize C)"

definition queue :: "SharedMemory \<Rightarrow> nat \<Rightarrow> (nat \<times> bytes) list" where
  "queue m i = ring_contents (broadcast m ! i)"

definition shm_ok :: "'n codec \<Rightarrow> SharedMemory \<Rightarrow> bool" where
  "shm_ok C m \<longleftrightarrow> length (broadcast m) = MAX_CLIENTS \<and>
     (\<forall>i < MAX_CLIENTS. ring_ok (broadcast m ! i) \<and>
        (\<forall>x \<in> set (queue m i). fst x < MAX_CLIENTS \<and> deliverable C (snd x)))"

definition client_ok :: "('g, 'n) ShmTunnel \<Rightarrow> bool" where
  "client_ok t \<longleftrightarrow> mClientId t < MAX_CLIENTS \<and> distinct (gateways t) \<and> dedup_ok (mDedupCache t) \<and>
     (\<forall>n i. remoteNodeIdToTunnelClientIdx t n = Some i \<longrightarrow> i < MAX_CLIENTS)"

lemma shm_okD:
  assumes "shm_ok C m"
  shows "length (broadcast m) = MAX_CLIENTS"
    and "i < MAX_CLIENTS \<Longrightarrow> ring_ok (broadcast m ! i)"
    and "i < MAX_CLIENTS \<Longrightarrow> x \<in> set (queue m i) \<Longrightarrow> fst x < MAX_CLIENTS \<and> deliverable C (snd x)"
  using assms by (auto simp: shm_ok_def)

lemma shm_ok_new_memory: "shm_ok C (new_memory C)"
  by (simp add: shm_ok_def new_memory_def empty_ring_def queue_def ring_ok_def ring_contents_def ring_length_def
      MAX_MESSAGES_def)

lemma shm_ok_num_clients [simp]: "shm_ok C (m\<lparr>num_clients := k\<rparr>) \<longleftrightarrow> shm_ok C m"
  by (simp add: shm_ok_def queue_def)

lemma queue_num_clients [simp]: "queue (m\<lparr>num_clients := k\<rparr>) i = queue m i"
  by (simp add: queue_def)

lemma shm_ok_update:
  assumes "shm_ok C m" "i < MAX_CLIENTS" "ring_ok q"
    and "\<And>x. x \<in> set (ring_contents q) \<Longrightarrow> fst x < MAX_CLIENTS \<and> deliverable C (snd x)"
  shows "shm_ok C (m\<lparr>broadcast := (broadcast m)[i := q]\<rparr>)"
  using assms by (auto simp: shm_ok_def queue_def nth_list_update)

lemma queue_update:
  "length (broadcast m) = MAX_CLIENTS \<Longrightarrow> i < MAX_CLIENTS \<Longrightarrow>
     queue (m\<lparr>broadcast := (broadcast m)[i := q]\<rparr>) j = (if i = j then ring_contents q else queue m j)"
  by (auto simp: queue_def)

subsection \<open>Pushing\<close>

definition accepted :: "nat \<times> bytes \<Rightarrow> (nat \<times> bytes) list \<Rightarrow> (nat \<times> bytes) list" where
  "accepted x xs = (if length xs < 99 then xs @ [x] else xs)"

lemma push_to_ok:
  assumes "shm_ok C m" "i < MAX_CLIENTS" "src < MAX_CLIENTS" "deliverable C buf"
  shows "\<exists>m'. push_to i src buf m = Inr m' \<and> shm_ok C m' \<and> num_clients m' = num_clients m \<and>
    (\<forall>j. queue m' j = (if j = i then accepted (src, buf) (queue m j) else queue m j))"
proof -
  obtain q' where q': "push src buf (broadcast m ! i) = Inr q'" "ring_ok q'"
    "ring_contents q' = accepted (src, buf) (queue m i)"
    using ring.put_law [OF shm_okD(2) [OF assms(1,2)], of "(src, buf)"]
    by (auto simp: ring_put_def queue_def accepted_def MAX_MESSAGES_def)
  let ?m = "m\<lparr>broadcast := (broadcast m)[i := q']\<rparr>"
  have "push_to i src buf m = Inr ?m" using q'(1) assms(2) shm_okD(1) [OF assms(1)] by (simp add: push_to_def)
  moreover have "shm_ok C ?m"
  proof (rule shm_ok_update [OF assms(1,2) q'(2)])
    show "fst x < MAX_CLIENTS \<and> deliverable C (snd x)" if "x \<in> set (ring_contents q')" for x
      using that shm_okD(3) [OF assms(1,2), of x] assms(3,4) by (auto simp: q'(3) accepted_def split: if_splits)
  qed
  ultimately show ?thesis using queue_update [OF shm_okD(1) [OF assms(1)] assms(2), of q'] q'(3) by auto
qed

lemma push_others_ok:
  assumes "shm_ok C m" "set idxs \<subseteq> {..<MAX_CLIENTS}" "distinct idxs" "src < MAX_CLIENTS" "deliverable C buf"
  shows "\<exists>m'. push_others idxs src buf m = Inr m' \<and> shm_ok C m' \<and> num_clients m' = num_clients m \<and>
     (\<forall>j. queue m' j = (if j \<in> set idxs \<and> j \<noteq> src then accepted (src, buf) (queue m j) else queue m j))"
  using assms
proof (induction idxs arbitrary: m)
  case (Cons i idxs)
  show ?case
  proof (cases "i = src")
    case True
    with Cons.IH [OF Cons.prems(1)] Cons.prems(2-) show ?thesis by force
  next
    case False
    obtain m1 where m1: "push_to i src buf m = Inr m1" "shm_ok C m1" "num_clients m1 = num_clients m"
      "\<forall>j. queue m1 j = (if j = i then accepted (src, buf) (queue m j) else queue m j)"
      using push_to_ok [OF Cons.prems(1), of i src buf] Cons.prems by auto
    from Cons.IH [OF m1(2)] Cons.prems m1 False show ?thesis by auto
  qed
qed auto

text \<open>
  The greetings \<open>Hello\<close>, \<open>ello\<close> and \<open>Bye\<close> have to fit behind the header: a law of the
  message buffer this back end relies on beyond those of \<open>wire_codec\<close>.
\<close>

locale shm_codec = wire_codec C for C :: "'n codec" +
  assumes greeting_fits: "header_size C TUNNEL_HELLO + 5 \<le> kMaxMessageSize C"
begin

lemma encapsulate_deliverable:
  assumes "encapsulate C ctx msg = Inr (Some buf)" "valid_type (msg_type ctx)"
  shows "deliverable C buf"
    and "decapsulate C buf =
       Inr (Some (ctx\<lparr>to_node := (if carries_to_node (msg_type ctx) then to_node ctx else None), msg_size := length msg\<rparr>,
                  msg @ replicate (kMaxMessageSize C - length msg) 0))"
proof -
  let ?ctx = "ctx\<lparr>to_node := (if carries_to_node (msg_type ctx) then to_node ctx else None)\<rparr>"
  have "header_bytes C ?ctx = header_bytes C ctx" by (simp add: header_bytes_def)
  then have e: "encapsulate C ?ctx msg = Inr (Some buf)"
    using assms(1) by (simp add: encapsulate_cases split: if_splits)
  have "carries_to_node (msg_type ?ctx) \<longleftrightarrow> to_node ?ctx \<noteq> None"
    using assms(1) by (auto simp: encapsulate_cases split: if_splits)
  from decapsulate_encapsulate [OF e _ this] assms(2)
  show d: "decapsulate C buf = Inr (Some (?ctx\<lparr>msg_size := length msg\<rparr>, msg @ replicate (kMaxMessageSize C - length msg) 0))"
    by simp
  show "deliverable C buf"
    using encapsulated_length [OF assms(1)] by (simp add: deliverable_def d)
qed

lemma say_encapsulated:
  assumes "ty = TUNNEL_HELLO \<or> ty = TUNNEL_BYE" "length greeting \<le> 5"
  obtains buf where "encapsulate C \<lparr>from_node = default_node C, msg_type = ty, to_node = None, msg_size = 0\<rparr> greeting = Inr (Some buf)"
    "deliverable C buf"
    "decapsulate C buf = Inr (Some (\<lparr>from_node = default_node C, msg_type = ty, to_node = None, msg_size = length greeting\<rparr>,
       greeting @ replicate (kMaxMessageSize C - length greeting) 0))"
proof -
  let ?ctx = "\<lparr>from_node = default_node C, msg_type = ty, to_node = None, msg_size = 0\<rparr>"
  have nc: "\<not> carries_to_node ty" "valid_type ty" using assms(1) by (auto simp: carries_to_node_def)
  have "header_size C ty = header_size C TUNNEL_HELLO" using nc(1) by (simp add: header_size_def carries_to_node_def)
  then have "header_size C ty + length greeting \<le> kMaxMessageSize C" using greeting_fits assms(2) by simp
  then obtain buf where buf: "encapsulate C ?ctx greeting = Inr (Some buf)" using nc by (auto simp: encapsulate_cases not_less)
  from encapsulate_deliverable [OF buf] nc have "deliverable C buf"
    "decapsulate C buf = Inr (Some (?ctx\<lparr>msg_size := length greeting\<rparr>, greeting @ replicate (kMaxMessageSize C - length greeting) 0))"
    by simp_all
  with buf that show ?thesis by simp
qed

lemma say_to_one_ok:
  assumes "shm_ok C m" "i < MAX_CLIENTS" "src < MAX_CLIENTS" "length greeting \<le> 5"
  obtains m' buf where "say_in_tunnel C TUNNEL_HELLO greeting (Some i) src m = Inr m'" "shm_ok C m'"
    "num_clients m' = num_clients m"
    "\<forall>j. queue m' j = (if j = i then accepted (src, buf) (queue m j) else queue m j)"
    "\<exists>payload. decapsulate C buf = Inr (Some (\<lparr>from_node = default_node C, msg_type = TUNNEL_HELLO, to_node = None, msg_size = length greeting\<rparr>, payload))"
proof -
  obtain buf where buf: "encapsulate C \<lparr>from_node = default_node C, msg_type = TUNNEL_HELLO, to_node = None, msg_size = 0\<rparr> greeting = Inr (Some buf)"
    "deliverable C buf" "\<exists>payload. decapsulate C buf = Inr (Some (\<lparr>from_node = default_node C, msg_type = TUNNEL_HELLO, to_node = None, msg_size = length greeting\<rparr>, payload))"
    using say_encapsulated [of TUNNEL_HELLO greeting] assms(4) by metis
  obtain m' where m': "push_to i src buf m = Inr m'" "shm_ok C m'" "num_clients m' = num_clients m"
    "\<forall>j. queue m' j = (if j = i then accepted (src, buf) (queue m j) else queue m j)"
    using push_to_ok [OF assms(1-3) buf(2)] by blast
  then show ?thesis by (intro that [of m' buf]) (use buf in \<open>simp_all add: say_in_tunnel_def\<close>)
qed

lemma say_to_all_ok:
  assumes "shm_ok C m" "num_clients m \<le> MAX_CLIENTS" "src < MAX_CLIENTS" "length greeting \<le> 5"
    and "ty = TUNNEL_HELLO \<or> ty = TUNNEL_BYE"
  shows "\<exists>m'. say_in_tunnel C ty greeting None src m = Inr m' \<and> shm_ok C m' \<and> num_clients m' = num_clients m"
proof -
  obtain buf where buf: "encapsulate C \<lparr>from_node = default_node C, msg_type = ty, to_node = None, msg_size = 0\<rparr> greeting = Inr (Some buf)"
    "deliverable C buf" using say_encapsulated [OF assms(5,4)] by metis
  have "set [0..<num_clients m] \<subseteq> {..<MAX_CLIENTS}" using assms(2) by auto
  from push_others_ok [OF assms(1) this _ assms(3) buf(2)] buf(1) show ?thesis by (auto simp: say_in_tunnel_def)
qed

end

subsection \<open>Receiving\<close>

lemma pop_own_empty:
  assumes "shm_ok C m" "mClientId t < MAX_CLIENTS" "queue m (mClientId t) = []"
  shows "pop_own t m = Inr (None, m)"
  using assms ring.get_empty [OF shm_okD(2) [OF assms(1,2)]] shm_okD(1) [OF assms(1)]
  by (simp add: pop_own_def queue_def)

lemma pop_own_first:
  assumes "shm_ok C m" "mClientId t < MAX_CLIENTS" "queue m (mClientId t) = x # xs"
  shows "\<exists>m1. pop_own t m = Inr (Some x, m1) \<and> shm_ok C m1 \<and> num_clients m1 = num_clients m \<and>
     (\<forall>j. queue m1 j = (if j = mClientId t then xs else queue m j))"
proof -
  let ?i = "mClientId t"
  obtain q' where q': "pop (broadcast m ! ?i) = Inr (Some x, q')" "ring_ok q'" "ring_contents q' = xs"
    using ring.get_first [OF shm_okD(2) [OF assms(1,2)], of x xs] assms(3) by (auto simp: queue_def)
  let ?m = "m\<lparr>broadcast := (broadcast m)[?i := q']\<rparr>"
  have "pop_own t m = Inr (Some x, ?m)" using q'(1) assms(2) shm_okD(1) [OF assms(1)] by (simp add: pop_own_def)
  moreover have "shm_ok C ?m"
  proof (rule shm_ok_update [OF assms(1,2) q'(2)])
    show "fst y < MAX_CLIENTS \<and> deliverable C (snd y)" if "y \<in> set (ring_contents q')" for y
      using that shm_okD(3) [OF assms(1,2), of y] assms(3) by (simp add: q'(3))
  qed
  ultimately show ?thesis using queue_update [OF shm_okD(1) [OF assms(1)] assms(2), of q'] q'(3) by auto
qed

text \<open>The calls one message of the ring leads to, on the gateways \<open>gs\<close>.\<close>

definition delivers :: "'n codec \<Rightarrow> 'g list \<Rightarrow> bytes \<Rightarrow> ('g, 'n) shm_action list" where
  "delivers C gs buf =
     (case decapsulate C buf of
        Inr (Some (ctx, payload)) \<Rightarrow>
          (if msg_type ctx = TUNNEL_HELLO \<or> msg_type ctx = TUNNEL_BYE \<or> msg_type ctx = BYEBYE then []
           else map (\<lambda>g. ShmCall (ForwardMessageLocally g (msg_type ctx) (from_node ctx)
                                    (take (msg_size ctx) payload) (to_node ctx))) gs)
      | _ \<Rightarrow> [])"

definition ungreeted :: "('g, 'n) ShmTunnel \<Rightarrow> nat" where
  "ungreeted t = (if tunnelClientStates t (mClientId t) = None then 1 else 0)"

definition same_client :: "('g, 'n) ShmTunnel \<Rightarrow> ('g, 'n) ShmTunnel \<Rightarrow> bool" where
  "same_client t t' \<longleftrightarrow> mClientId t' = mClientId t \<and> shm_is_running t' = shm_is_running t \<and> gateways t' = gateways t \<and>
     mDedupCache t' = mDedupCache t"

lemma client_ok_same:
  "client_ok t \<Longrightarrow> same_client t t' \<Longrightarrow> remoteNodeIdToTunnelClientIdx t' = remoteNodeIdToTunnelClientIdx t \<Longrightarrow> client_ok t'"
  by (simp add: client_ok_def same_client_def)

text \<open>
  One message: nothing faults, the calls are those of \<open>delivers\<close>, and the client's own ring
  grows only when it answers a greeting that carries its own number, which it does once.
\<close>

definition listened :: "'n codec \<Rightarrow> bytes \<Rightarrow> ('g, 'n) ShmTunnel \<Rightarrow> SharedMemory \<Rightarrow> ('g, 'n) ShmTunnel \<Rightarrow> SharedMemory \<Rightarrow> bool" where
  "listened C buf t m t' m' \<longleftrightarrow> shm_ok C m' \<and> client_ok t' \<and> same_client t t' \<and> num_clients m' = num_clients m \<and>
     (queue m' (mClientId t) = queue m (mClientId t) \<or>
      ungreeted t = 1 \<and> ungreeted t' = 0 \<and>
        (\<exists>x. queue m' (mClientId t) = accepted x (queue m (mClientId t)) \<and> delivers C (gateways t) (snd x) = []))"

context shm_codec
begin

lemma listen_hello:
  assumes "shm_ok C m" "client_ok t" "src < MAX_CLIENTS" "decapsulate C buf = Inr (Some (ctx, payload))"
    and "msg_size ctx \<le> length payload" "msg_type ctx = TUNNEL_HELLO"
  shows "\<exists>t' m'. listen_message C src buf t m = Inr (t', m', []) \<and> listened C buf t m t' m'"
proof (cases "tunnelClientStates t src")
  case (Some st)
  then show ?thesis using assms
    by (auto simp: listen_message_def listened_def same_client_def client_ok_def)
next
  case None
  have id: "mClientId t < MAX_CLIENTS" using assms(2) by (simp add: client_ok_def)
  obtain m' buf' where m': "say_in_tunnel C TUNNEL_HELLO text_ello (Some src) (mClientId t) m = Inr m'" "shm_ok C m'"
    "num_clients m' = num_clients m"
    "\<forall>j. queue m' j = (if j = src then accepted (mClientId t, buf') (queue m j) else queue m j)"
    "\<exists>payload. decapsulate C buf' = Inr (Some (\<lparr>from_node = default_node C, msg_type = TUNNEL_HELLO, to_node = None,
        msg_size = length text_ello\<rparr>, payload))"
    using say_to_one_ok [OF assms(1,3) id, of text_ello] by (auto simp: text_ello_def)
  let ?t = "t\<lparr>tunnelClientStates := (tunnelClientStates t)(src \<mapsto> TUNNEL_CLIENT_STATE_HELLO)\<rparr>"
  have "listen_message C src buf t m = Inr (?t, m', [])" using assms m'(1) None by (simp add: listen_message_def Let_def)
  moreover have "delivers C (gateways t) buf' = []" using m'(5) by (auto simp: delivers_def)
  moreover have "client_ok ?t" "same_client t ?t" using assms(2) by (simp_all add: client_ok_def same_client_def)
  ultimately show ?thesis using m' None
    by (auto simp: listened_def ungreeted_def intro!: exI [of _ "mClientId t"] exI [of _ buf'])
qed

lemma listen_message_ok:
  assumes "shm_ok C m" "client_ok t" "src < MAX_CLIENTS" "deliverable C buf"
  shows "\<exists>t' m'. listen_message C src buf t m = Inr (t', m', delivers C (gateways t) buf) \<and> listened C buf t m t' m'"
proof -
  obtain ctx payload where d: "decapsulate C buf = Inr (Some (ctx, payload))" and len: "length payload = kMaxMessageSize C"
    using decapsulate_total [of buf] assms(4) unfolding deliverable_def by metis
  have size: "msg_size ctx \<le> length payload" using assms(4) d len by (simp add: deliverable_def)
  show ?thesis
  proof (cases "msg_type ctx = TUNNEL_HELLO")
    case True
    with listen_hello [OF assms(1-3) d size True] d show ?thesis by (simp add: delivers_def)
  next
    case False
    with d size assms show ?thesis
      by (cases "msg_type ctx")
         (auto simp: listen_message_def delivers_def forward_locally_def listened_def same_client_def client_ok_def comp_def)
  qed
qed

lemma listened_delivers:
  assumes "listened C buf t m1 t' m'"
  shows "concat (map (delivers C (gateways t') \<circ> snd) (queue m' (mClientId t'))) =
         concat (map (delivers C (gateways t) \<circ> snd) (queue m1 (mClientId t)))"
  using assms by (auto simp: listened_def same_client_def accepted_def split: if_splits)

end

subsection \<open>Pushes from outside\<close>

definition pushes_ok :: "'n codec \<Rightarrow> pushes \<Rightarrow> bool" where
  "pushes_ok C ps \<longleftrightarrow> (\<forall>(clientIdx, src, msg) \<in> set ps. clientIdx < MAX_CLIENTS \<and> src < MAX_CLIENTS \<and> deliverable C msg)"

definition pushed_to :: "nat \<Rightarrow> pushes \<Rightarrow> (nat \<times> bytes) list" where
  "pushed_to i ps = map snd (filter (\<lambda>p. fst p = i) ps)"

lemma pushed_to_append [simp]: "pushed_to i (ps @ qs) = pushed_to i ps @ pushed_to i qs"
  by (simp add: pushed_to_def)

lemma push_all_ok:
  assumes "shm_ok C m" "pushes_ok C ps"
  shows "\<exists>m' new. push_all ps m = Inr m' \<and> shm_ok C m' \<and> num_clients m' = num_clients m \<and>
     queue m' i = queue m i @ new \<and> subseq new (pushed_to i ps)"
  using assms
proof (induction ps arbitrary: m)
  case (Cons p ps)
  obtain j src msg where p: "p = (j, src, msg)" by (cases p)
  with Cons.prems(2) have ok: "j < MAX_CLIENTS" "src < MAX_CLIENTS" "deliverable C msg" "pushes_ok C ps"
    by (auto simp: pushes_ok_def)
  obtain m1 where m1: "push_to j src msg m = Inr m1" "shm_ok C m1" "num_clients m1 = num_clients m"
    "\<forall>k. queue m1 k = (if k = j then accepted (src, msg) (queue m k) else queue m k)"
    using push_to_ok [OF Cons.prems(1) ok(1-3)] by blast
  obtain m' new where m': "push_all ps m1 = Inr m'" "shm_ok C m'" "num_clients m' = num_clients m1"
    "queue m' i = queue m1 i @ new" "subseq new (pushed_to i ps)" using Cons.IH [OF m1(2) ok(4)] by blast
  define fst_new where "fst_new = (if i = j \<and> length (queue m i) < 99 then [(src, msg)] else [])"
  have "queue m1 i = queue m i @ fst_new" using m1(4) by (simp add: accepted_def fst_new_def)
  moreover have "subseq (fst_new @ new) (pushed_to i [p] @ pushed_to i ps)"
    by (rule list_emb_append_mono) (use m'(5) p in \<open>simp_all add: fst_new_def pushed_to_def\<close>)
  moreover have "push_all (p # ps) m = Inr m'" using m1(1) m'(1) p by simp
  ultimately show ?case using m'(2-4) m1(3) pushed_to_append [of i "[p]" ps]
    by (intro exI [of _ m'] exI [of _ "fst_new @ new"]) simp
qed (auto simp: pushed_to_def)

lemma interfere_ok:
  assumes "shm_ok C m" "pushes_ok C (concat env)"
  shows "\<exists>env' m' new pushed. interfere env m = Inr (env', m') \<and> shm_ok C m' \<and> num_clients m' = num_clients m \<and>
     queue m' i = queue m i @ new \<and> subseq new pushed \<and> pushed_to i (concat env) = pushed @ pushed_to i (concat env') \<and>
     pushes_ok C (concat env')"
proof (cases env)
  case (Cons ps env')
  then have "pushes_ok C ps" "pushes_ok C (concat env')" using assms(2) by (auto simp: pushes_ok_def)
  with push_all_ok [OF assms(1), of ps i] Cons show ?thesis by fastforce
qed (use assms in \<open>simp add: pushed_to_def\<close>)

context shm_codec
begin

text \<open>
  The loop of a running client returns, with the ring drained and every message delivered in order: those that
  waited and, after them, those that arrived in time. What it does lasts no longer than twice the messages that are
  waiting or still to come, and one greeting of its own.
\<close>

lemma listen_loop_among_drains:
  assumes "shm_ok C m" "client_ok t" "shm_is_running t" "pushes_ok C (concat env)"
  shows "\<exists>t' m' later. listen_loop_among C env t m =
       Some (Inr (t', m', concat (map (delivers C (gateways t) \<circ> snd) (queue m (mClientId t) @ later)))) \<and>
     subseq later (pushed_to (mClientId t) (concat env)) \<and>
     shm_ok C m' \<and> client_ok t' \<and> same_client t t' \<and> num_clients m' = num_clients m \<and> queue m' (mClientId t) = []"
  using assms
proof (induction "2 * (length (queue m (mClientId t)) + length (pushed_to (mClientId t) (concat env))) + ungreeted t"
    arbitrary: t m env rule: less_induct)
  case less
  let ?i = "mClientId t"
  have id: "?i < MAX_CLIENTS" using less.prems(2) by (simp add: client_ok_def)
  obtain env1 m1 new1 pushed1 where m1: "interfere env m = Inr (env1, m1)" "shm_ok C m1" "num_clients m1 = num_clients m"
    "queue m1 ?i = queue m ?i @ new1" "subseq new1 pushed1" "pushed_to ?i (concat env) = pushed1 @ pushed_to ?i (concat env1)"
    "pushes_ok C (concat env1)" using interfere_ok [OF less.prems(1,4)] by blast
  show ?case
  proof (cases "queue m1 ?i")
    case Nil
    then have "listen_loop_among C env t m = Some (Inr (t, m1, []))"
      using m1(1) pop_own_empty [OF m1(2) id Nil] by (subst listen_loop_among.simps) simp
    with less.prems m1 Nil show ?thesis by (intro exI [of _ t] exI [of _ m1] exI [of _ "[]"]) (simp add: same_client_def)
  next
    case (Cons x xs)
    obtain src buf where x: "x = (src, buf)" by force
    obtain m2 where m2: "pop_own t m1 = Inr (Some x, m2)" "shm_ok C m2" "num_clients m2 = num_clients m1" "queue m2 ?i = xs"
      using pop_own_first [OF m1(2) id Cons] by auto
    obtain env2 m3 new2 pushed2 where m3: "interfere env1 m2 = Inr (env2, m3)" "shm_ok C m3" "num_clients m3 = num_clients m2"
      "queue m3 ?i = xs @ new2" "subseq new2 pushed2" "pushed_to ?i (concat env1) = pushed2 @ pushed_to ?i (concat env2)"
      "pushes_ok C (concat env2)" using interfere_ok [OF m2(2) m1(7)] m2(4) by metis
    have "fst x < MAX_CLIENTS \<and> deliverable C (snd x)" using shm_okD(3) [OF m1(2) id, of x] Cons by simp
    then obtain t4 m4 where r: "listen_message C src buf t m3 = Inr (t4, m4, delivers C (gateways t) buf)"
      and l: "listened C buf t m3 t4 m4" using listen_message_ok [OF m3(2) less.prems(2)] x by fastforce
    from l have t4: "shm_ok C m4" "client_ok t4" "same_client t t4" "num_clients m4 = num_clients m3" by (simp_all add: listened_def)
    then have eqs: "mClientId t4 = ?i" "gateways t4 = gateways t" "shm_is_running t4" using less.prems(3) by (auto simp: same_client_def)
    have "length new1 \<le> length pushed1" "length new2 \<le> length pushed2"
      using list_emb_length [OF m1(5)] list_emb_length [OF m3(5)] .
    moreover have "length xs + 1 = length (queue m ?i) + length new1" using m1(4) Cons by (metis length_append length_Cons Suc_eq_plus1)
    moreover have "2 * length (queue m4 ?i) + ungreeted t4 \<le> 2 * (length xs + length new2) + 1 + ungreeted t"
      using l m3(4) by (auto simp: listened_def accepted_def ungreeted_def split: if_splits)
    ultimately have "2 * (length (queue m4 (mClientId t4)) + length (pushed_to (mClientId t4) (concat env2))) + ungreeted t4
        < 2 * (length (queue m ?i) + length (pushed_to ?i (concat env))) + ungreeted t"
      using m1(6) m3(6) eqs(1) by simp
    from less.hyps [OF this t4(1,2) eqs(3) m3(7)] eqs obtain t' m' later where IH:
      "listen_loop_among C env2 t4 m4 = Some (Inr (t', m', concat (map (delivers C (gateways t) \<circ> snd) (queue m4 ?i @ later))))"
      "subseq later (pushed_to ?i (concat env2))" "shm_ok C m'" "client_ok t'" "same_client t4 t'" "num_clients m' = num_clients m4"
      "queue m' ?i = []" by auto
    have "concat (map (delivers C (gateways t) \<circ> snd) (queue m4 ?i @ later)) =
        concat (map (delivers C (gateways t) \<circ> snd) (xs @ new2 @ later))"
      using listened_delivers [OF l] eqs m3(4) by simp
    moreover have q: "queue m ?i @ new1 @ new2 @ later = (src, buf) # xs @ new2 @ later"
      using m1(4) Cons x by (metis append_assoc append_Cons)
    moreover have "listen_loop_among C env t m = Some (Inr (t', m', delivers C (gateways t) buf @
        concat (map (delivers C (gateways t) \<circ> snd) (queue m4 ?i @ later))))"
      using m1(1) m2(1) m3(1) r less.prems(3) IH(1) by (subst listen_loop_among.simps) (simp add: x)
    ultimately have "listen_loop_among C env t m =
        Some (Inr (t', m', concat (map (delivers C (gateways t) \<circ> snd) (queue m ?i @ new1 @ new2 @ later))))" unfolding q by simp
    moreover have "subseq (new1 @ new2 @ later) (pushed_to ?i (concat env))"
      unfolding m1(6) m3(6) by (intro list_emb_append_mono m1(5) m3(5) IH(2))
    moreover have "same_client t t'" using t4(3) IH(5) by (simp add: same_client_def)
    ultimately show ?thesis using IH t4 m1 m2 m3
      by (intro exI [of _ t'] exI [of _ m'] exI [of _ "new1 @ new2 @ later"]) simp
  qed
qed

lemma listen_drains:
  assumes "shm_ok C m" "client_ok t" "shm_is_running t"
  shows "\<exists>t' m'. ShmTunnel_listen C t m =
       Some (Inr (t', m', concat (map (delivers C (gateways t) \<circ> snd) (queue m (mClientId t))) @ [ShmPostListen])) \<and>
     shm_ok C m' \<and> client_ok t' \<and> same_client t t' \<and> num_clients m' = num_clients m \<and> queue m' (mClientId t) = []"
  using listen_loop_among_drains [OF assms, of "[]"] assms(3)
  by (auto simp: ShmTunnel_listen_def ShmTunnel_listen_among_def pushes_ok_def pushed_to_def same_client_def dest!: list_emb_Nil2)

end

interpretation net_shm: shm_codec network_codec
  by unfold_locales (simp add: header_size_def carries_to_node_def network_codec_sizes)

end
