(* ===== verification/ShmTunnel_Properties.thy ===== *)
theory ShmTunnel_Properties
  imports ShmTunnel_Invariants
begin

text \<open>
  The shared-memory tunnel as a system of clients that join, forward, listen, stop and leave in
  any order, its invariant, and the properties of the back end with their witnesses.
\<close>

subsection \<open>What every operation keeps\<close>

lemma push_to_keeps:
  assumes "shm_ok C m" "src < MAX_CLIENTS" "deliverable C buf" "push_to i src buf m = Inr m'"
  shows "shm_ok C m' \<and> num_clients m' = num_clients m"
proof -
  have "i < MAX_CLIENTS" using assms(4) shm_okD(1) [OF assms(1)] by (simp add: push_to_def split: if_splits)
  with push_to_ok [OF assms(1) _ assms(2,3)] assms(4) show ?thesis by fastforce
qed

lemma push_others_keeps:
  "shm_ok C m \<Longrightarrow> src < MAX_CLIENTS \<Longrightarrow> deliverable C buf \<Longrightarrow> push_others idxs src buf m = Inr m' \<Longrightarrow>
     shm_ok C m' \<and> num_clients m' = num_clients m"
proof (induction idxs arbitrary: m)
  case (Cons i idxs)
  show ?case
  proof (cases "i = src")
    case True
    with Cons show ?thesis by simp
  next
    case False
    with Cons.prems(4) obtain m1 where m1: "push_to i src buf m = Inr m1" "push_others idxs src buf m1 = Inr m'"
      by (auto split: sum.splits)
    from push_to_keeps [OF Cons.prems(1-3) m1(1)] Cons.IH [OF _ Cons.prems(2,3) m1(2)] show ?thesis by simp
  qed
qed simp

lemma push_others_out_of_range:
  "length (broadcast m) \<le> i \<Longrightarrow> i \<in> set idxs \<Longrightarrow> i \<noteq> src \<Longrightarrow> \<exists>f. push_others idxs src buf m = Inl f"
proof (induction idxs arbitrary: m)
  case (Cons j idxs)
  show ?case
  proof (cases "j = src")
    case False
    show ?thesis
    proof (cases "push_to j src buf m")
      case (Inr m1)
      then have "length (broadcast m1) = length (broadcast m)" "j \<noteq> i"
        using Cons.prems(1) by (auto simp: push_to_def split: if_splits sum.splits)
      with Cons False Inr show ?thesis by auto
    qed (simp add: False)
  qed (use Cons in auto)
qed simp

context shm_codec
begin

lemma say_keeps:
  assumes "shm_ok C m" "src < MAX_CLIENTS" "ty = TUNNEL_HELLO \<or> ty = TUNNEL_BYE" "length greeting \<le> 5"
    and "say_in_tunnel C ty greeting to src m = Inr m'"
  shows "shm_ok C m' \<and> num_clients m' = num_clients m"
proof -
  obtain buf where buf: "encapsulate C \<lparr>from_node = default_node C, msg_type = ty, to_node = None, msg_size = 0\<rparr> greeting = Inr (Some buf)"
    "deliverable C buf" using say_encapsulated [OF assms(3,4)] by metis
  with assms(5) show ?thesis
    using push_to_keeps [OF assms(1,2) buf(2)] push_others_keeps [OF assms(1,2) buf(2)]
    by (auto simp: say_in_tunnel_def split: option.splits)
qed

lemma forward_keeps:
  assumes "shm_ok C m" "client_ok t" "valid_type mt" "ShmTunnel_forward C mt n msg to now (t, m) = Inr (t', m')"
  shows "shm_ok C m' \<and> num_clients m' = num_clients m \<and> client_ok t' \<and> mClientId t' = mClientId t"
proof -
  have t: "mClientId t < MAX_CLIENTS" "dedup_ok (mDedupCache t)" using assms(2) by (simp_all add: client_ok_def)
  obtain go c where c: "shouldForward mt n msg now t = Inr (go, t\<lparr>mDedupCache := c\<rparr>)" "dedup_ok c"
    using shouldForward_ok [OF t(2)] by metis
  have t1: "client_ok (t\<lparr>mDedupCache := c\<rparr>)" using assms(2) c(2) by (simp add: client_ok_def)
  show ?thesis
  proof (cases "\<exists>buf. go \<and> encapsulate C \<lparr>from_node = n, msg_type = mt, to_node = to, msg_size = 0\<rparr> msg = Inr (Some buf)")
    case True
    then obtain buf where buf: "encapsulate C \<lparr>from_node = n, msg_type = mt, to_node = to, msg_size = 0\<rparr> msg = Inr (Some buf)" go
      by blast
    have del: "deliverable C buf" using encapsulate_deliverable(1) [OF buf(1)] assms(3) by simp
    show ?thesis
      using assms(1,4) c(1) buf t1 push_to_keeps [OF assms(1) t(1) del] push_others_keeps [OF assms(1) t(1) del]
      by (auto simp: ShmTunnel_forward_def split: if_splits option.splits sum.splits)
  next
    case False
    with assms(1,4) c(1) t1 show ?thesis
      by (auto simp: ShmTunnel_forward_def split: bool.splits sum.splits option.splits)
  qed
qed

lemma listen_keeps:
  assumes "shm_ok C m" "client_ok t" "ShmTunnel_listen C t m = Some (Inr (t', m', acts))"
  shows "shm_ok C m' \<and> num_clients m' = num_clients m \<and> client_ok t' \<and> mClientId t' = mClientId t"
proof -
  have id: "mClientId t < MAX_CLIENTS" using assms(2) by (simp add: client_ok_def)
  show ?thesis
  proof (cases "shm_is_running t")
    case True
    from listen_drains [OF assms(1,2) True] assms(3) show ?thesis by (auto simp: same_client_def)
  next
    case False
    show ?thesis
    proof (cases "queue m (mClientId t)")
      case Nil
      with pop_own_empty [OF assms(1) id] assms False show ?thesis
        by (auto simp: ShmTunnel_listen_def ShmTunnel_listen_among_def listen_loop_among.simps [of C "[]"])
    next
      case (Cons x xs)
      with pop_own_first [OF assms(1) id Cons] assms False show ?thesis
        by (auto simp: ShmTunnel_listen_def ShmTunnel_listen_among_def listen_loop_among.simps [of C "[]"] split: prod.splits)
    qed
  qed
qed

lemma stop_keeps:
  assumes "shm_ok C m" "client_ok t" "ShmTunnel_stop_listening C t m = Inr (t', m', acts)"
  shows "shm_ok C m' \<and> num_clients m' = num_clients m \<and> client_ok t' \<and> mClientId t' = mClientId t"
proof -
  let ?i = "mClientId t"
  have id: "?i < MAX_CLIENTS" using assms(2) by (simp add: client_ok_def)
  let ?m = "m\<lparr>broadcast := (broadcast m)[?i := clear (broadcast m ! ?i)]\<rparr>"
  have c: "ring_ok (clear (broadcast m ! ?i)) \<and> ring_contents (clear (broadcast m ! ?i)) = []"
    by (rule clear_ok) (use shm_okD(2) [OF assms(1) id] in \<open>simp add: ring_ok_def\<close>)
  have ok: "shm_ok C ?m" by (rule shm_ok_update [OF assms(1) id]) (use c in simp_all)
  have say: "say_in_tunnel C TUNNEL_BYE text_Bye None ?i ?m = Inr m'" and t': "t' = t\<lparr>shm_is_running := False, gateways := []\<rparr>"
    using assms(3) by (simp_all add: ShmTunnel_stop_listening_def Let_def split: if_splits sum.splits)
  have "shm_ok C m' \<and> num_clients m' = num_clients ?m"
    by (rule say_keeps [OF ok id _ _ say]) (simp_all add: text_Bye_def)
  with assms(2) show ?thesis by (simp add: t' client_ok_def)
qed

lemma join_keeps:
  assumes "shm_ok C m" "ShmTunnel_init C m = (m', r)"
  shows "shm_ok C m' \<and> num_clients m' = num_clients m + 1 \<and>
     (case r of
        Inr (t, acts) \<Rightarrow> client_ok t \<and> mClientId t = num_clients m \<and> num_clients m + 1 < MAX_CLIENTS
      | Inl f \<Rightarrow> f = TooManyClients \<and> MAX_CLIENTS \<le> num_clients m + 1)"
proof -
  let ?m1 = "m\<lparr>num_clients := num_clients m + 1\<rparr>"
  consider "num_clients m = 0" | "num_clients m \<noteq> 0" "MAX_CLIENTS \<le> num_clients m + 1"
    | "num_clients m \<noteq> 0" "num_clients m + 1 < MAX_CLIENTS" by linarith
  then show ?thesis
  proof cases
    case 1
    with assms(2) shm_ok_new_memory [of C] dedup_ok_initial_cache show ?thesis
      by (auto simp: ShmTunnel_init_def client_ok_def MAX_CLIENTS_def)
  next
    case 2
    with assms show ?thesis by (auto simp: ShmTunnel_init_def)
  next
    case 3
    then have "num_clients ?m1 \<le> MAX_CLIENTS" "num_clients m < MAX_CLIENTS" by simp_all
    from say_to_all_ok [OF _ this, of text_Hello TUNNEL_HELLO] assms 3 dedup_ok_initial_cache show ?thesis
      by (auto simp: ShmTunnel_init_def client_ok_def text_Hello_def Let_def)
  qed
qed

end

subsection \<open>The system of clients\<close>

type_synonym ('g, 'n) shm_system = "SharedMemory \<times> ('g, 'n) ShmTunnel list"

inductive shm_step :: "'n codec \<Rightarrow> ('g, 'n) shm_system \<Rightarrow> ('g, 'n) shm_system \<Rightarrow> bool" for C where
  shm_join: "ShmTunnel_init C m = (m', Inr (t, acts)) \<Longrightarrow> shm_step C (m, ts) (m', ts @ [t])"
| shm_refused: "ShmTunnel_init C m = (m', Inl f :: fault + ('g, 'n) ShmTunnel \<times> ('g, 'n) shm_action list) \<Longrightarrow>
    shm_step C (m, ts :: ('g, 'n) ShmTunnel list) (m', ts)"
| shm_leave: "i < length ts \<Longrightarrow> ShmTunnel_destroy m = Some m' \<Longrightarrow> shm_step C (m, ts) (m', take i ts @ drop (Suc i) ts)"
| shm_last: "i < length ts \<Longrightarrow> ShmTunnel_destroy m = None \<Longrightarrow> shm_step C (m, ts) (new_memory C, take i ts @ drop (Suc i) ts)"
| shm_forward: "i < length ts \<Longrightarrow> valid_type mt \<Longrightarrow>
    ShmTunnel_forward C mt n msg to now (ts ! i, m) = Inr (t', m') \<Longrightarrow> shm_step C (m, ts) (m', ts[i := t'])"
| shm_listen: "i < length ts \<Longrightarrow> ShmTunnel_listen C (ts ! i) m = Some (Inr (t', m', acts)) \<Longrightarrow>
    shm_step C (m, ts) (m', ts[i := t'])"
| shm_stop: "i < length ts \<Longrightarrow> ShmTunnel_stop_listening C (ts ! i) m = Inr (t', m', acts) \<Longrightarrow>
    shm_step C (m, ts) (m', ts[i := t'])"
| shm_add_gateway: "i < length ts \<Longrightarrow> shm_step C (m, ts) (m, ts[i := addGateway g (ts ! i)])"
| shm_remove_gateway: "i < length ts \<Longrightarrow> shm_step C (m, ts) (m, ts[i := removeGateway g (ts ! i)])"

definition shm_start :: "'n codec \<Rightarrow> ('g, 'n) shm_system \<Rightarrow> bool" where
  "shm_start C s \<longleftrightarrow> s = (new_memory C, [])"

definition shm_sys_ok :: "'n codec \<Rightarrow> ('g, 'n) shm_system \<Rightarrow> bool" where
  "shm_sys_ok C s \<longleftrightarrow> shm_ok C (fst s) \<and> (\<forall>t \<in> set (snd s). client_ok t \<and> mClientId t < MAX_CLIENTS - 1) \<and>
     length (snd s) \<le> num_clients (fst s) \<and> length (snd s) \<le> MAX_CLIENTS - 1"

lemma shm_sys_ok_update:
  assumes "shm_sys_ok C (m, ts)" "i < length ts" "shm_ok C m'" "num_clients m' = num_clients m" "client_ok t'"
    "mClientId t' = mClientId (ts ! i)"
  shows "shm_sys_ok C (m', ts[i := t'])"
proof -
  have "ts ! i \<in> set ts" using assms(2) by simp
  with assms show ?thesis by (auto simp: shm_sys_ok_def dest!: set_update_subset_insert [THEN subsetD])
qed

lemma shm_sys_ok_nth: "shm_sys_ok C (m, ts) \<Longrightarrow> i < length ts \<Longrightarrow> shm_ok C m \<and> client_ok (ts ! i)"
  by (simp add: shm_sys_ok_def)

lemma shm_sys_ok_drop:
  assumes "shm_sys_ok C (m, ts)" "i < length ts" "shm_ok C m'" "length ts \<le> num_clients m' + 1"
  shows "shm_sys_ok C (m', take i ts @ drop (Suc i) ts)"
  using assms by (auto simp: shm_sys_ok_def dest: in_set_takeD in_set_dropD)

lemma client_ok_gateways: "client_ok t \<Longrightarrow> distinct gs \<Longrightarrow> client_ok (t\<lparr>gateways := gs\<rparr>)"
  by (simp add: client_ok_def)

context shm_codec
begin

lemma shm_step_ok: "shm_step C s s' \<Longrightarrow> shm_sys_ok C s \<Longrightarrow> shm_sys_ok C s'"
proof (induction rule: shm_step.induct)
  case (shm_join m m' t acts ts)
  then have "shm_ok C m" by (simp add: shm_sys_ok_def)
  from join_keeps [OF this shm_join.hyps] shm_join.prems show ?case by (auto simp: shm_sys_ok_def)
next
  case (shm_refused m m' f ts)
  then have "shm_ok C m" by (simp add: shm_sys_ok_def)
  from join_keeps [OF this shm_refused.hyps] shm_refused.prems show ?case by (auto simp: shm_sys_ok_def)
next
  case (shm_leave i ts m m')
  then have "m' = m\<lparr>num_clients := num_clients m - 1\<rparr>" by (auto simp: ShmTunnel_destroy_def split: if_splits)
  with shm_leave show ?case by (intro shm_sys_ok_drop) (auto simp: shm_sys_ok_def)
next
  case (shm_last i ts m)
  then have "length ts \<le> 1" by (auto simp: ShmTunnel_destroy_def shm_sys_ok_def split: if_splits)
  with shm_last show ?case by (intro shm_sys_ok_drop) (auto simp: shm_ok_new_memory)
next
  case (shm_forward i ts mt n msg to now m t' m')
  from shm_sys_ok_nth [OF shm_forward.prems shm_forward.hyps(1)] shm_forward
  show ?case using forward_keeps shm_sys_ok_update by metis
next
  case (shm_listen i ts m t' m' acts)
  from shm_sys_ok_nth [OF shm_listen.prems shm_listen.hyps(1)] shm_listen
  show ?case using listen_keeps shm_sys_ok_update by metis
next
  case (shm_stop i ts m t' m' acts)
  from shm_sys_ok_nth [OF shm_stop.prems shm_stop.hyps(1)] shm_stop
  show ?case using stop_keeps shm_sys_ok_update by metis
next
  case (shm_add_gateway i ts m g)
  from shm_sys_ok_nth [OF shm_add_gateway.prems shm_add_gateway.hyps] shm_add_gateway show ?case
    by (intro shm_sys_ok_update) (auto simp: client_ok_def addGateway_def)
next
  case (shm_remove_gateway i ts m g)
  from shm_sys_ok_nth [OF shm_remove_gateway.prems shm_remove_gateway.hyps] shm_remove_gateway show ?case
    by (intro shm_sys_ok_update) (auto simp: client_ok_def removeGateway_def distinct_remove1)
qed

end

sublocale shm_codec \<subseteq> shm: invariant_system "shm_start C" "shm_step C" "shm_sys_ok C"
proof unfold_locales
  show "shm_sys_ok C s" if "shm_start C s" for s
    using that by (simp add: shm_start_def shm_sys_ok_def shm_ok_new_memory)
qed (rule shm_step_ok)

context shm_codec
begin

lemma shm_reachable_ok: "shm_start C s0 \<Longrightarrow> (shm_step C)\<^sup>*\<^sup>* s0 s \<Longrightarrow> shm_sys_ok C s"
  by (rule shm.inv_reachable)

lemma join_admits:
  assumes "shm_ok C m" "num_clients m + 1 < MAX_CLIENTS"
  shows "\<exists>m' t acts. ShmTunnel_init C m = (m', Inr (t :: ('g, 'n) ShmTunnel, acts)) \<and> shm_ok C m' \<and> client_ok t \<and>
     mClientId t = num_clients m \<and> num_clients m' = num_clients m + 1"
proof -
  obtain m' and r :: "fault + ('g, 'n) ShmTunnel \<times> ('g, 'n) shm_action list" where r: "ShmTunnel_init C m = (m', r)" by force
  from join_keeps [OF assms(1) r] assms(2) r show ?thesis by (cases r) auto
qed

lemma join_refuses:
  assumes "shm_ok C m" "MAX_CLIENTS \<le> num_clients m + 1"
  shows "\<exists>m'. ShmTunnel_init C m = (m', Inl TooManyClients :: fault + ('g, 'n) ShmTunnel \<times> ('g, 'n) shm_action list) \<and> shm_ok C m' \<and> num_clients m' = num_clients m + 1"
proof -
  obtain m' and r :: "fault + ('g, 'n) ShmTunnel \<times> ('g, 'n) shm_action list" where r: "ShmTunnel_init C m = (m', r)" by force
  from join_keeps [OF assms(1) r] assms(2) r show ?thesis by (cases r) auto
qed

lemma stop_out_of_range:
  assumes "shm_ok C m" "MAX_CLIENTS < num_clients m" "mClientId t < MAX_CLIENTS"
  shows "\<exists>f. ShmTunnel_stop_listening C t m = Inl f"
proof -
  let ?m = "m\<lparr>broadcast := (broadcast m)[mClientId t := clear (broadcast m ! mClientId t)]\<rparr>"
  have "\<exists>f. say_in_tunnel C TUNNEL_BYE text_Bye None (mClientId t) ?m = Inl f"
  proof -
    obtain buf where "encapsulate C \<lparr>from_node = default_node C, msg_type = TUNNEL_BYE, to_node = None, msg_size = 0\<rparr> text_Bye = Inr (Some buf)"
      using say_encapsulated [of TUNNEL_BYE text_Bye] by (auto simp: text_Bye_def)
    then show ?thesis
      using push_others_out_of_range [of ?m MAX_CLIENTS "[0..<num_clients m]" "mClientId t" buf] shm_okD(1) [OF assms(1)] assms(2,3)
      by (simp add: say_in_tunnel_def)
  qed
  then show ?thesis by (auto simp: ShmTunnel_stop_listening_def Let_def)
qed

end

subsection \<open>The contract of a back end\<close>

lemma ShmTunnel_forward_duplicate:
  "shouldForward mt n msg now t = Inr (False, t1) \<Longrightarrow> ShmTunnel_forward C mt n msg to now (t, m) = Inr (t1, m)"
  by (simp add: ShmTunnel_forward_def)

lemma ShmTunnel_forward_cache:
  assumes "shouldForward mt n msg now t = Inr (go, t1)" "ShmTunnel_forward C mt n msg to now (t, m) = Inr (t', m')"
  shows "t' = t1"
  using assms by (cases go) (auto simp: ShmTunnel_forward_def split: sum.splits option.splits if_splits)

lemma ShmTunnel_forward_dedup_ok:
  assumes "dedup_ok (mDedupCache t)" "ShmTunnel_forward C mt n msg to now (t, m) = Inr (t', m')"
  shows "dedup_ok (mDedupCache t')"
  using shouldForward_ok [OF assms(1), of mt n msg now] ShmTunnel_forward_cache [OF _ assms(2)] by fastforce

interpretation shm_fwd: deduplicating_backend "ShmTunnel_forward C" "\<lambda>s. s" "\<lambda>s s'. snd s' = snd s"
  "\<lambda>s. mDedupCache (fst s)" "\<lambda>s. dedup_ok (mDedupCache (fst s))"
  by unfold_locales
     (auto simp: ShmTunnel_forward_duplicate shouldForward_deduplicated intro: ShmTunnel_forward_dedup_ok
        dest: ShmTunnel_forward_cache [OF shouldForward_deduplicated])

subsection \<open>Properties\<close>

text \<open>
  C32: However clients join, forward, listen, stop and leave, in every state the system reaches all
  rings stay inside their arrays and hold only complete messages of numbered clients, every client has a
  ring, and there are never more than four clients (the constructor refuses the fifth).
\<close>

theorem shm_system_sound:
  assumes "shm_codec C" "shm_start C s0" "(shm_step C)\<^sup>*\<^sup>* s0 (m, ts)"
  shows "(\<forall>q \<in> set (broadcast m). ring_ok q) \<and>
    (\<forall>t \<in> set ts. mClientId t < length (broadcast m) \<and>
       (\<forall>(src, buf) \<in> set (queue m (mClientId t)). src < MAX_CLIENTS \<and> deliverable C buf)) \<and>
    length ts \<le> 4 \<and> length ts \<le> num_clients m"
proof -
  have ok: "shm_sys_ok C (m, ts)" by (rule shm_codec.shm_reachable_ok [OF assms])
  then have m: "shm_ok C m" and ts: "\<And>t. t \<in> set ts \<Longrightarrow> mClientId t < MAX_CLIENTS" by (auto simp: shm_sys_ok_def)
  have "\<forall>q \<in> set (broadcast m). ring_ok q" using m by (auto simp: shm_ok_def in_set_conv_nth)
  moreover have "\<forall>t \<in> set ts. mClientId t < length (broadcast m) \<and>
       (\<forall>(src, buf) \<in> set (queue m (mClientId t)). src < MAX_CLIENTS \<and> deliverable C buf)"
    using ts shm_okD(3) [OF m] shm_okD(1) [OF m] by fastforce
  moreover have "length ts \<le> 4 \<and> length ts \<le> num_clients m" using ok by (simp add: shm_sys_ok_def MAX_CLIENTS_def)
  ultimately show ?thesis by blast
qed

text \<open>The first client, alone in a new memory: the state of the witnesses.\<close>

definition example_client :: "nat \<Rightarrow> (nat, u64) ShmTunnel" where
  "example_client i = \<lparr>gateways = [], mDedupCache = initial_cache, mClientId = i, shm_is_running = True,
     remoteNodeIdToTunnelClientIdx = Map.empty, tunnelClientStates = Map.empty\<rparr>"

abbreviation example_memory :: SharedMemory where
  "example_memory \<equiv> (new_memory network_codec)\<lparr>num_clients := 1\<rparr>"

lemma example_join: "shm_step network_codec (new_memory network_codec, []) (example_memory, [example_client 0])"
proof -
  have "ShmTunnel_init network_codec (new_memory network_codec) = (example_memory, Inr (example_client 0, [ShmPostListen]))"
    by (simp add: ShmTunnel_init_def new_memory_def example_client_def)
  from shm_join [OF this, of "[]"] show ?thesis by simp
qed

theorem shm_system_sound_witness:
  "mClientId (example_client 0) < length (broadcast example_memory) \<and> list_all ring_ok (broadcast example_memory)"
  using shm_system_sound [OF net_shm.shm_codec_axioms _ r_into_rtranclp [of "shm_step network_codec", OF example_join]]
  by (simp add: shm_start_def list_all_iff)

text \<open>
  C18: \<open>listen\<close> always comes back. In every reachable state of the system, a running client that calls
  \<open>listen\<close> returns without a fault and with its own ring empty, whatever finite number of messages the other processes push
  between the steps of its loop. It has handled the messages that were waiting and then, in the order they were
  pushed, some of those that came in meanwhile (the others found the ring full or come too late), and posts
  the next \<open>listen\<close>. Each BROADCAST, UNICAST, PING and PONG among them was handed to all its gateways, in that order.
  HELLO, BYE and BYEBYE reach no gateway (\<open>delivers\<close>). This holds even when greetings with the client's own
  number make it answer itself.
\<close>

theorem shm_listen_drains:
  assumes "shm_codec C" "shm_start C s0" "(shm_step C)\<^sup>*\<^sup>* s0 (m, ts)" "i < length ts" "shm_is_running (ts ! i)"
    and "pushes_ok C (concat env)"
  shows "\<exists>t' m' later. ShmTunnel_listen_among C env (ts ! i) m =
       Some (Inr (t', m', concat (map (\<lambda>x. delivers C (gateways (ts ! i)) (snd x)) (queue m (mClientId (ts ! i)) @ later))
                           @ [ShmPostListen])) \<and>
     subseq later (pushed_to (mClientId (ts ! i)) (concat env)) \<and> queue m' (mClientId (ts ! i)) = []"
proof -
  have "shm_ok C m" "client_ok (ts ! i)"
    using shm_sys_ok_nth [OF shm_codec.shm_reachable_ok [OF assms(1-3)] assms(4)] by simp_all
  from shm_codec.listen_loop_among_drains [OF assms(1) this assms(5,6)] assms(5) obtain t' m' later where
    "listen_loop_among C env (ts ! i) m = Some (Inr (t', m', concat (map (delivers C (gateways (ts ! i)) \<circ> snd) (queue m (mClientId (ts ! i)) @ later))))"
    "subseq later (pushed_to (mClientId (ts ! i)) (concat env))" "queue m' (mClientId (ts ! i)) = []" "shm_is_running t'"
    by (auto simp: same_client_def)
  then show ?thesis by (intro exI [of _ t'] exI [of _ m'] exI [of _ later]) (simp add: ShmTunnel_listen_among_def comp_def)
qed

text \<open>Client 0 listens; before its first \<open>pop\<close> another process pushes a broadcast into its ring.\<close>

theorem shm_listen_drains_witness:
  "\<exists>buf t' m' later. encapsulate network_codec \<lparr>from_node = 5, msg_type = BROADCAST, to_node = None, msg_size = 0\<rparr> [1] = Inr (Some buf) \<and>
     ShmTunnel_listen_among network_codec [[(0, 2, buf)]] (example_client 0) example_memory =
       Some (Inr (t', m', concat (map (\<lambda>x. delivers network_codec [] (snd x)) later) @ [ShmPostListen])) \<and>
     subseq later [(2 :: nat, buf)] \<and> queue m' 0 = []"
proof -
  let ?ctx = "\<lparr>from_node = 5, msg_type = BROADCAST, to_node = None, msg_size = 0\<rparr>"
  obtain buf where buf: "encapsulate network_codec ?ctx [1] = Inr (Some buf)"
    using net.encapsulate_cases [of ?ctx "[1]"] by (auto simp: header_size_def carries_to_node_def network_codec_sizes)
  have "queue example_memory 0 = []"
    by (simp add: queue_def new_memory_def empty_ring_def ring_contents_def ring_length_def MAX_CLIENTS_def)
  moreover have "pushes_ok network_codec (concat [[(0, 2, buf)]])"
    using net_shm.encapsulate_deliverable(1) [OF buf] by (simp add: pushes_ok_def MAX_CLIENTS_def)
  ultimately have "\<exists>t' m' later. ShmTunnel_listen_among network_codec [[(0, 2, buf)]] (example_client 0) example_memory =
       Some (Inr (t', m', concat (map (\<lambda>x. delivers network_codec [] (snd x)) later) @ [ShmPostListen])) \<and>
     subseq later [(2 :: nat, buf)] \<and> queue m' 0 = []"
    using shm_listen_drains [OF net_shm.shm_codec_axioms _ r_into_rtranclp [of "shm_step network_codec", OF example_join],
        of 0 "[[(0, 2, buf)]]"]
    by (simp add: shm_start_def example_client_def pushed_to_def)
  with buf show ?thesis by blast
qed

text \<open>
  The BYEBYE of a remote node ends here: the route of the node is forgotten and no gateway is told, where the
  UDP tunnel hands the message on.
\<close>

lemma shm_byebye_reaches_no_gateway:
  assumes "decapsulate C buf = Inr (Some (ctx, payload))" "msg_type ctx = BYEBYE" "msg_size ctx \<le> length payload"
  shows "listen_message C src buf t m =
     Inr (t\<lparr>remoteNodeIdToTunnelClientIdx := (remoteNodeIdToTunnelClientIdx t)(from_node ctx := None)\<rparr>, m, [])"
  using assms by (simp add: listen_message_def)

text \<open>
  C19: A message put in at one end comes out at the other. When a client forwards a broadcast or a
  pong that is not suppressed as a duplicate, and the ring of another client has room, the next
  \<open>listen\<close> of that client calls \<open>forwardMessageLocally\<close> on each of its gateways with the same type, source
  node, bytes and target.
\<close>

theorem shm_broadcast_delivered:
  assumes "shm_codec C" "shm_ok C m" "client_ok a" "client_ok b" "mClientId a \<noteq> mClientId b" "shm_is_running b"
    and "mt = BROADCAST \<or> mt = MEASUREMENT_PONG" "carries_to_node mt \<longleftrightarrow> to \<noteq> None"
    and "header_size C mt + length msg \<le> kMaxMessageSize C" "shouldForward mt n msg now a = Inr (True, a')"
    and "length (queue m (mClientId b)) < 99"
  shows "\<exists>m' b' m'' acts. ShmTunnel_forward C mt n msg to now (a, m) = Inr (a', m') \<and>
     ShmTunnel_listen C b m' = Some (Inr (b', m'', acts)) \<and>
     (\<forall>g \<in> set (gateways b). ShmCall (ForwardMessageLocally g mt n msg to) \<in> set acts)"
proof -
  let ?ctx = "\<lparr>from_node = n, msg_type = mt, to_node = to, msg_size = 0\<rparr>"
  have wc: "wire_codec C" using assms(1) by (rule shm_codec.axioms(1))
  have v: "valid_type mt" using assms(7) by auto
  obtain buf where buf: "encapsulate C ?ctx msg = Inr (Some buf)"
    using wire_codec.encapsulate_cases [OF wc, of ?ctx msg] assms(8,9) by (auto simp: not_less)
  have dec: "decapsulate C buf = Inr (Some (?ctx\<lparr>to_node := (if carries_to_node mt then to else None), msg_size := length msg\<rparr>,
      msg @ replicate (kMaxMessageSize C - length msg) 0))" and del: "deliverable C buf"
    using shm_codec.encapsulate_deliverable [OF assms(1) buf] v by simp_all
  obtain c where c: "a' = a\<lparr>mDedupCache := c\<rparr>"
    using shouldForward_ok [of a mt n msg now] assms(3,10) by (force simp: client_ok_def)
  have idx: "set [0..<length (broadcast m)] \<subseteq> {..<MAX_CLIENTS}" "mClientId a < MAX_CLIENTS" "mClientId b < MAX_CLIENTS"
    using shm_okD(1) [OF assms(2)] assms(3,4) by (auto simp: client_ok_def)
  obtain m' where m': "push_others [0..<length (broadcast m)] (mClientId a) buf m = Inr m'" "shm_ok C m'"
    "queue m' (mClientId b) = accepted (mClientId a, buf) (queue m (mClientId b))"
    using push_others_ok [OF assms(2) idx(1) _ idx(2) del] idx(3) shm_okD(1) [OF assms(2)] assms(5) by auto
  have fwd: "ShmTunnel_forward C mt n msg to now (a, m) = Inr (a', m')"
    using assms(7,10) buf m'(1) by (auto simp: ShmTunnel_forward_def c)
  have "(mClientId a, buf) \<in> set (queue m' (mClientId b))" using assms(11) by (simp add: m'(3) accepted_def)
  moreover have "ShmCall (ForwardMessageLocally g mt n msg to) \<in> set (delivers C (gateways b) buf)" if "g \<in> set (gateways b)" for g
    using that assms(7,8) by (auto simp: delivers_def dec)
  ultimately have "\<forall>g \<in> set (gateways b). ShmCall (ForwardMessageLocally g mt n msg to) \<in>
      set (concat (map (delivers C (gateways b) \<circ> snd) (queue m' (mClientId b))))" by force
  with shm_codec.listen_drains [OF assms(1) m'(2) assms(4,6)] fwd show ?thesis by fastforce
qed

theorem shm_broadcast_delivered_witness:
  "\<exists>m' b' m'' acts. ShmTunnel_forward network_codec MEASUREMENT_PONG 7 [1] (Some 9) 0 (example_client 0, example_memory) =
       Inr (example_client 0, m') \<and>
     ShmTunnel_listen network_codec (addGateway 3 (example_client 1)) m' = Some (Inr (b', m'', acts)) \<and>
     ShmCall (ForwardMessageLocally 3 MEASUREMENT_PONG 7 [1] (Some 9)) \<in> set acts"
proof -
  have ok: "shm_ok network_codec example_memory" by (simp add: shm_ok_new_memory)
  have ab: "client_ok (example_client 0)" "client_ok (addGateway 3 (example_client 1))"
    by (simp_all add: client_ok_def example_client_def addGateway_def dedup_ok_initial_cache MAX_CLIENTS_def)
  have go: "shouldForward MEASUREMENT_PONG 7 [1] 0 (example_client 0) = Inr (True, example_client 0)"
    by (simp add: shouldForward_def)
  have "queue example_memory 1 = []"
    by (simp add: queue_def new_memory_def empty_ring_def ring_contents_def ring_length_def MAX_CLIENTS_def)
  with shm_broadcast_delivered [OF net_shm.shm_codec_axioms ok ab _ _ _ _ _ go, of "Some 9"]
  show ?thesis
    by (simp add: example_client_def addGateway_def carries_to_node_def header_size_def network_codec_sizes)
qed

text \<open>
  C33: Who is let in. On a well-formed memory the constructor succeeds exactly while fewer than four
  clients are counted, and numbers the client with the old count. When it refuses it throws
  \<open>TooManyClients\<close>, and the count stays raised by one although no client was added.
\<close>

theorem shm_admission:
  assumes "shm_codec C" "shm_ok C m"
    and "ShmTunnel_init C m = (m', r :: fault + ('g, 'n) ShmTunnel \<times> ('g, 'n) shm_action list)"
  shows "((\<exists>t acts. r = Inr (t, acts) \<and> mClientId t = num_clients m) \<longleftrightarrow> num_clients m < 4) \<and>
    (r = Inl TooManyClients \<longleftrightarrow> 4 \<le> num_clients m) \<and> num_clients m' = num_clients m + 1"
  using shm_codec.join_keeps [OF assms] by (auto simp: MAX_CLIENTS_def split: sum.splits)

theorem shm_admission_witness:
  "\<exists>m'. ShmTunnel_init network_codec ((new_memory network_codec)\<lparr>num_clients := 4\<rparr>) =
     (m', Inl TooManyClients :: fault + (nat, u64) ShmTunnel \<times> (nat, u64) shm_action list) \<and> num_clients m' = 5"
proof -
  let ?m = "(new_memory network_codec)\<lparr>num_clients := 4\<rparr>"
  obtain m' and r :: "fault + (nat, u64) ShmTunnel \<times> (nat, u64) shm_action list"
    where r: "ShmTunnel_init network_codec ?m = (m', r)" by force
  have "shm_ok network_codec ?m" by (simp add: shm_ok_new_memory)
  from shm_admission [OF net_shm.shm_codec_axioms this r] r show ?thesis by simp
qed

lemma step_join:
  assumes "shm_codec C" "(shm_step C)\<^sup>*\<^sup>* s0 (m, ts)" "shm_ok C m" "num_clients m + 1 < MAX_CLIENTS"
  shows "\<exists>m' t. (shm_step C)\<^sup>*\<^sup>* s0 (m', ts @ [t :: ('g, 'n) ShmTunnel]) \<and> shm_ok C m' \<and> client_ok t \<and>
     mClientId t = num_clients m \<and> num_clients m' = num_clients m + 1"
  using shm_codec.join_admits [OF assms(1,3,4)] shm_join rtranclp.rtrancl_into_rtrancl [OF assms(2)] by metis

lemma step_refused:
  fixes ts :: "('g, 'n) ShmTunnel list"
  assumes "shm_codec C" "(shm_step C)\<^sup>*\<^sup>* s0 (m, ts)" "shm_ok C m" "MAX_CLIENTS \<le> num_clients m + 1"
  shows "\<exists>m'. (shm_step C)\<^sup>*\<^sup>* s0 (m', ts) \<and> shm_ok C m' \<and> num_clients m' = num_clients m + 1"
  using shm_codec.join_refuses [OF assms(1,3,4)] shm_refused rtranclp.rtrancl_into_rtrancl [OF assms(2)] by metis

text \<open>
  Client numbers can collide. The number of a new client is the current count, so after the first of
  two clients has left, the next one gets the number of the client that stayed: the system reaches a
  state with two clients that pop from the same ring.
\<close>

theorem shm_client_numbers_collide:
  assumes "shm_codec C"
  shows "\<exists>m a b. (shm_step C)\<^sup>*\<^sup>* (new_memory C, []) (m, [a, b :: ('g, 'n) ShmTunnel]) \<and> mClientId a = mClientId b"
proof -
  let ?s0 = "(new_memory C, []) :: ('g, 'n) shm_system"
  have start: "(shm_step C)\<^sup>*\<^sup>* ?s0 (new_memory C, [])" by simp
  obtain m1 a where 1: "(shm_step C)\<^sup>*\<^sup>* ?s0 (m1, [a])" "shm_ok C m1" "num_clients m1 = 1"
    using step_join [OF assms start shm_ok_new_memory] by (auto simp: new_memory_def MAX_CLIENTS_def)
  obtain m2 b where 2: "(shm_step C)\<^sup>*\<^sup>* ?s0 (m2, [a, b])" "shm_ok C m2" "num_clients m2 = 2" "mClientId b = 1"
    using step_join [OF assms 1(1,2)] 1(3) by (auto simp: MAX_CLIENTS_def)
  let ?m3 = "m2\<lparr>num_clients := 1\<rparr>"
  have "ShmTunnel_destroy m2 = Some ?m3" using 2(3) by (simp add: ShmTunnel_destroy_def)
  from shm_leave [of 0 "[a, b]", OF _ this] have "shm_step C (m2, [a, b]) (?m3, [b])" by simp
  with 2(1) have "(shm_step C)\<^sup>*\<^sup>* ?s0 (?m3, [b])" by (rule rtranclp.rtrancl_into_rtrancl)
  from step_join [OF assms this] 2(2,4) show ?thesis by (fastforce simp: MAX_CLIENTS_def)
qed

theorem shm_client_numbers_collide_witness:
  "\<exists>m a b. (shm_step network_codec)\<^sup>*\<^sup>* (new_memory network_codec, []) (m, [a, b :: (nat, u64) ShmTunnel]) \<and>
     mClientId a = mClientId b"
  by (rule shm_client_numbers_collide [OF net_shm.shm_codec_axioms])

text \<open>
  Refused clients break the ones that were let in. Each refusal raises the count that
  \<open>say_in_tunnel\<close> takes for the number of rings; after the second refusal, \<open>stop_listening\<close> of any
  client indexes the array of rings out of range.
\<close>

theorem shm_refusals_break_stop:
  assumes "shm_codec C"
  shows "\<exists>m ts. (shm_step C)\<^sup>*\<^sup>* (new_memory C, []) (m, ts :: ('g, 'n) ShmTunnel list) \<and> length ts = 4 \<and>
     (\<forall>t \<in> set ts. \<exists>f. ShmTunnel_stop_listening C t m = Inl f)"
proof -
  let ?s0 = "(new_memory C, []) :: ('g, 'n) shm_system"
  note MAX_CLIENTS_def [simp]
  have start: "(shm_step C)\<^sup>*\<^sup>* ?s0 (new_memory C, [])" by simp
  obtain m1 a where 1: "(shm_step C)\<^sup>*\<^sup>* ?s0 (m1, [a])" "shm_ok C m1" "num_clients m1 = 1"
    using step_join [OF assms start shm_ok_new_memory] by (auto simp: new_memory_def)
  obtain m2 b where 2: "(shm_step C)\<^sup>*\<^sup>* ?s0 (m2, [a, b])" "shm_ok C m2" "num_clients m2 = 2"
    using step_join [OF assms 1(1,2)] 1(3) by auto
  obtain m3 c where 3: "(shm_step C)\<^sup>*\<^sup>* ?s0 (m3, [a, b, c])" "shm_ok C m3" "num_clients m3 = 3"
    using step_join [OF assms 2(1,2)] 2(3) by auto
  obtain m4 d where 4: "(shm_step C)\<^sup>*\<^sup>* ?s0 (m4, [a, b, c, d])" "shm_ok C m4" "num_clients m4 = 4"
    using step_join [OF assms 3(1,2)] 3(3) by auto
  obtain m5 where 5: "(shm_step C)\<^sup>*\<^sup>* ?s0 (m5, [a, b, c, d])" "shm_ok C m5" "num_clients m5 = 5"
    using step_refused [OF assms 4(1,2)] 4(3) by auto
  obtain m6 where 6: "(shm_step C)\<^sup>*\<^sup>* ?s0 (m6, [a, b, c, d])" "shm_ok C m6" "num_clients m6 = 6"
    using step_refused [OF assms 5(1,2)] 5(3) by auto
  have "shm_sys_ok C (m6, [a, b, c, d])" by (rule shm_codec.shm_reachable_ok [OF assms _ 6(1)]) (simp add: shm_start_def)
  then have id: "mClientId t < 4" if "t \<in> set [a, b, c, d]" for t using that by (auto simp: shm_sys_ok_def)
  have "\<exists>f. ShmTunnel_stop_listening C t m6 = Inl f" if "t \<in> set [a, b, c, d]" for t
    by (rule shm_codec.stop_out_of_range [OF assms 6(2)]) (use 6(3) id [OF that] in simp_all)
  then have "\<forall>t \<in> set [a, b, c, d]. \<exists>f. ShmTunnel_stop_listening C t m6 = Inl f" by blast
  with 6(1) show ?thesis by (intro exI [of _ m6] exI [of _ "[a, b, c, d]"]) simp
qed

theorem shm_refusals_break_stop_witness:
  "\<exists>m ts. (shm_step network_codec)\<^sup>*\<^sup>* (new_memory network_codec, []) (m, ts :: (nat, u64) ShmTunnel list) \<and> length ts = 4 \<and>
     (\<forall>t \<in> set ts. \<exists>f. ShmTunnel_stop_listening network_codec t m = Inl f)"
  by (rule shm_refusals_break_stop [OF net_shm.shm_codec_axioms])

text \<open>
  The shared-memory tunnel suppresses copies as the UDP tunnel does: a broadcast, unicast or BYEBYE
  message that was let through leaves every ring untouched when it is forwarded again inside the window.
\<close>

theorem shm_second_copy_silent:
  assumes "dedup_ok (mDedupCache t)" "deduplicated mt"
    and "isDuplicate (to_byte mt) n msg now (mDedupCache t) = Inr (False, c)"
    and "ShmTunnel_forward C mt n msg to now (t, m) = Inr (t1, m1)" "later - now < mWindow (mDedupCache t)"
  shows "\<exists>t2. ShmTunnel_forward C mt n msg to' later (t1, m1) = Inr (t2, m1)"
  using shm_fwd.second_copy_silent [of "(t, m)" mt n msg now c C to "(t1, m1)" later to'] assms by auto

theorem shm_second_copy_silent_witness:
  "\<exists>t1 m1 t2. ShmTunnel_forward network_codec UNICAST 7 [1] (Some 9) 0 (example_client 0, example_memory) = Inr (t1, m1) \<and>
     ShmTunnel_forward network_codec UNICAST 7 [1] (Some 9) (milliseconds 49) (t1, m1) = Inr (t2, m1)"
proof -
  have ok: "dedup_ok (mDedupCache (example_client 0))" by (simp add: example_client_def dedup_ok_initial_cache)
  obtain c where c: "isDuplicate (to_byte UNICAST) 7 [1] 0 (mDedupCache (example_client 0)) = Inr (False, c)"
    by (simp add: isDuplicate_def check_key_def example_client_def initial_cache_def DedupCache_init_def kDedupCacheCapacity_def)
  have "kMaxMessageSize network_codec \<ge> header_size network_codec UNICAST + length ([1] :: bytes)"
    by (simp add: header_size_def carries_to_node_def network_codec_sizes)
  then obtain t1 m1 where f: "ShmTunnel_forward network_codec UNICAST 7 [1] (Some 9) 0 (example_client 0, example_memory) = Inr (t1, m1)"
    using shouldForward_deduplicated [OF _ c] net.encapsulate_cases [of "\<lparr>from_node = 7, msg_type = UNICAST, to_node = Some 9, msg_size = 0\<rparr>" "[1]"]
    by (simp add: ShmTunnel_forward_def deduplicated_def carries_to_node_def example_client_def)
  have "\<exists>t2. ShmTunnel_forward network_codec UNICAST 7 [1] (Some 9) (milliseconds 49) (t1, m1) = Inr (t2, m1)"
    by (rule shm_second_copy_silent [OF ok _ c f])
       (simp_all add: deduplicated_def example_client_def initial_cache_def DedupCache_init_def kDedupWindow_def milliseconds_def)
  with f show ?thesis by blast
qed

end
