(* ===== verification/PeerTracker.thy ===== *)
theory PeerTracker
  imports Extender_Prelude
begin

text \<open>
  \<open>TunnelGateway::PeerTracker\<close> of \<open>include/ableton/extender/TunnelGateway.hpp\<close>: the list of
  (deadline, node) pairs that decides when a Link peer is gone, kept sorted by deadline.
  \<open>std::upper_bound\<close> and \<open>std::lower_bound\<close> are the binary searches of the standard library;
  \<open>mTimer.now()\<close> is an argument, and arming the timer is an output. The callback \<open>mOnExpire\<close> is
  represented by the list of nodes it is called for; neither callback of the gateway touches the
  tracker.
\<close>

subsection \<open>The tracker\<close>

type_synonym 'n PeerTimeout = "time \<times> 'n"

record 'n PeerTracker =
  mTimeouts :: "'n PeerTimeout list"

definition PeerTracker_init :: "'n PeerTracker" where
  "PeerTracker_init = \<lparr>mTimeouts = []\<rparr>"

definition TimeoutCompare :: "'n PeerTimeout \<Rightarrow> 'n PeerTimeout \<Rightarrow> bool" where
  "TimeoutCompare lhs rhs \<longleftrightarrow> fst lhs < fst rhs"

text \<open>The halving loop behind both bounds: \<open>goes_left\<close> decides whether the searched position is at or before \<open>mid\<close>.\<close>

function bound_search :: "('a \<Rightarrow> bool) \<Rightarrow> 'a list \<Rightarrow> nat \<Rightarrow> nat \<Rightarrow> nat" where
  "bound_search goes_left xs first len =
     (if len = 0 then first
      else (let half = len div 2; mid = first + half
            in if goes_left (xs ! mid) then bound_search goes_left xs first half
               else bound_search goes_left xs (mid + 1) (len - half - 1)))"
  by auto
termination by (relation "measure (\<lambda>(_, _, _, len). len)") auto

definition upper_bound :: "('a \<Rightarrow> 'a \<Rightarrow> bool) \<Rightarrow> 'a \<Rightarrow> 'a list \<Rightarrow> nat" where
  "upper_bound cmp v xs = bound_search (\<lambda>x. cmp v x) xs 0 (length xs)"

definition lower_bound :: "('a \<Rightarrow> 'a \<Rightarrow> bool) \<Rightarrow> 'a \<Rightarrow> 'a list \<Rightarrow> nat" where
  "lower_bound cmp v xs = bound_search (\<lambda>x. \<not> cmp x v) xs 0 (length xs)"

definition remove_node :: "'n \<Rightarrow> 'n PeerTimeout list \<Rightarrow> 'n PeerTimeout list" where
  "remove_node nodeId ts = filter (\<lambda>pt. snd pt \<noteq> nodeId) ts"

text \<open>\<open>schedulePruning\<close> returns the time the timer is armed for, if it is armed.\<close>

definition schedulePruning :: "'n PeerTracker \<Rightarrow> time option" where
  "schedulePruning tr =
     (case mTimeouts tr of
        [] \<Rightarrow> None
      | pt # _ \<Rightarrow> Some (fst pt + seconds 1))"

definition updateTimeout :: "'n \<Rightarrow> byte \<Rightarrow> time \<Rightarrow> 'n PeerTracker \<Rightarrow> 'n PeerTracker \<times> time option" where
  "updateTimeout nodeId ttl now tr =
     (let ts = remove_node nodeId (mTimeouts tr);
          newTimeout = (now + seconds (uint ttl), nodeId);
          pos = upper_bound TimeoutCompare newTimeout ts;
          tr1 = tr\<lparr>mTimeouts := take pos ts @ newTimeout # drop pos ts\<rparr>
      in (tr1, schedulePruning tr1))"

definition prune :: "'n \<Rightarrow> time \<Rightarrow> 'n PeerTracker \<Rightarrow> 'n PeerTracker \<times> 'n list \<times> time option" where
  "prune no_node now tr =
     (let endExpired = lower_bound TimeoutCompare (now, no_node) (mTimeouts tr);
          expired = map snd (take endExpired (mTimeouts tr));
          tr1 = tr\<lparr>mTimeouts := drop endExpired (mTimeouts tr)\<rparr>
      in (tr1, expired, schedulePruning tr1))"

definition tracker_remove :: "'n \<Rightarrow> 'n PeerTracker \<Rightarrow> 'n PeerTracker" where
  "tracker_remove nodeId tr = tr\<lparr>mTimeouts := remove_node nodeId (mTimeouts tr)\<rparr>"

definition tracker_clear :: "'n PeerTracker \<Rightarrow> 'n PeerTracker" where
  "tracker_clear tr = tr\<lparr>mTimeouts := []\<rparr>"

subsection \<open>Binary search\<close>

declare bound_search.simps [simp del]

lemma bound_search_partition:
  assumes "first + len \<le> length xs"
    and "\<And>i. i < first \<Longrightarrow> \<not> P (xs ! i)" "\<And>i. first + len \<le> i \<Longrightarrow> i < length xs \<Longrightarrow> P (xs ! i)"
    and mono: "\<And>i j. i \<le> j \<Longrightarrow> j < length xs \<Longrightarrow> P (xs ! i) \<Longrightarrow> P (xs ! j)"
  shows "bound_search P xs first len \<le> length xs \<and>
     (\<forall>i < length xs. P (xs ! i) \<longleftrightarrow> bound_search P xs first len \<le> i)"
  using assms(1-3)
proof (induction len arbitrary: first rule: less_induct)
  case (less len)
  show ?case
  proof (cases "len = 0")
    case True
    then have eq: "bound_search P xs first len = first" by (subst bound_search.simps) simp
    have "P (xs ! i) \<longleftrightarrow> first \<le> i" if "i < length xs" for i
      using less.prems(2) [of i] less.prems(3) [of i] that True by (cases "first \<le> i") auto
    then show ?thesis using less.prems(1) unfolding eq by simp
  next
    case False
    let ?half = "len div 2" and ?mid = "first + len div 2"
    have half: "?half < len" using False by simp
    then have mid: "?mid < length xs" using less.prems(1) by linarith
    show ?thesis
    proof (cases "P (xs ! ?mid)")
      case True
      have eq: "bound_search P xs first len = bound_search P xs first ?half"
        using False True by (subst bound_search.simps) (simp add: Let_def)
      have "P (xs ! i)" if "first + ?half \<le> i" "i < length xs" for i
        using mono that True by blast
      then show ?thesis unfolding eq using mid less.prems(2) by (intro less.IH [OF half]) auto
    next
      case nP: False
      have eq: "bound_search P xs first len = bound_search P xs (?mid + 1) (len - ?half - 1)"
        using False nP by (subst bound_search.simps) (simp add: Let_def)
      have "\<not> P (xs ! i)" if "i < ?mid + 1" for i
        using mono [of i ?mid] that mid nP by auto
      moreover have "?mid + 1 + (len - ?half - 1) = first + len" using half by simp
      moreover have "len - ?half - 1 < len" using False by simp
      ultimately show ?thesis unfolding eq using less.prems(1,3) by (intro less.IH) auto
    qed
  qed
qed

text \<open>On a list that is partitioned by the test, the search ends at the partition point.\<close>

lemma bound_search_takeWhile:
  assumes "\<And>i j. i \<le> j \<Longrightarrow> j < length xs \<Longrightarrow> P (xs ! i) \<Longrightarrow> P (xs ! j)"
  shows "bound_search P xs 0 (length xs) = length (takeWhile (\<lambda>x. \<not> P x) xs)"
proof -
  let ?b = "bound_search P xs 0 (length xs)"
  have b: "?b \<le> length xs" "\<forall>i < length xs. P (xs ! i) \<longleftrightarrow> ?b \<le> i"
    using bound_search_partition [of 0 "length xs" xs P] assms by auto
  then have "takeWhile (\<lambda>x. \<not> P x) xs = take ?b xs"
    by (intro takeWhile_eq_take_P_nth) auto
  with b(1) show ?thesis by simp
qed

subsection \<open>Sorted timeouts\<close>

definition tracker_ok :: "'n PeerTracker \<Rightarrow> bool" where
  "tracker_ok tr \<longleftrightarrow> sorted (map fst (mTimeouts tr)) \<and> distinct (map snd (mTimeouts tr))"

definition deadline :: "'n PeerTracker \<Rightarrow> 'n \<rightharpoonup> time" where
  "deadline tr = map_of (map prod.swap (mTimeouts tr))"

lemma upper_bound_sorted:
  assumes "sorted (map fst ts)"
  shows "upper_bound TimeoutCompare v ts = length (takeWhile (\<lambda>x. fst x \<le> fst v) ts)"
proof -
  have "fst (ts ! i) \<le> fst (ts ! j)" if "i \<le> j" "j < length ts" for i j
    using sorted_nth_mono [OF assms, of i j] that by simp
  then have "bound_search (\<lambda>x. TimeoutCompare v x) ts 0 (length ts) = length (takeWhile (\<lambda>x. \<not> TimeoutCompare v x) ts)"
    by (intro bound_search_takeWhile) (force simp: TimeoutCompare_def)
  then show ?thesis by (simp add: upper_bound_def TimeoutCompare_def not_less)
qed

lemma lower_bound_sorted:
  assumes "sorted (map fst ts)"
  shows "lower_bound TimeoutCompare v ts = length (takeWhile (\<lambda>x. fst x < fst v) ts)"
proof -
  have "fst (ts ! i) \<le> fst (ts ! j)" if "i \<le> j" "j < length ts" for i j
    using sorted_nth_mono [OF assms, of i j] that by simp
  then have "bound_search (\<lambda>x. \<not> TimeoutCompare x v) ts 0 (length ts) = length (takeWhile (\<lambda>x. \<not> \<not> TimeoutCompare x v) ts)"
    by (intro bound_search_takeWhile) (force simp: TimeoutCompare_def)
  then show ?thesis by (simp add: lower_bound_def TimeoutCompare_def)
qed

lemma take_drop_takeWhile:
  "take (length (takeWhile P xs)) xs = takeWhile P xs" "drop (length (takeWhile P xs)) xs = dropWhile P xs"
  by (rule takeWhile_eq_take [symmetric], rule dropWhile_eq_drop [symmetric])

lemma sorted_takeWhile_set:
  assumes "sorted (map fst ts)" "\<And>x y. fst x \<le> fst y \<Longrightarrow> P y \<Longrightarrow> P x"
  shows "set (takeWhile P ts) = {x \<in> set ts. P x} \<and> set (dropWhile P ts) = {x \<in> set ts. \<not> P x}"
  using assms(1)
proof (induction ts)
  case (Cons a ts)
  then have IH: "set (takeWhile P ts) = {x \<in> set ts. P x}" "set (dropWhile P ts) = {x \<in> set ts. \<not> P x}"
    and le: "\<And>x. x \<in> set ts \<Longrightarrow> fst a \<le> fst x" by simp_all
  show ?case
  proof (cases "P a")
    case False
    then have "\<not> P x" if "x \<in> set (a # ts)" for x using that False le [of x] assms(2) [of a x] by auto
    with False show ?thesis by auto
  qed (use IH in auto)
qed simp

lemma set_takeWhile_dropWhile: "set (takeWhile P xs) \<union> set (dropWhile P xs) = set xs"
  by (metis set_append takeWhile_dropWhile_id)

lemma distinct_map_middle: "distinct (map f (xs @ x # ys)) \<longleftrightarrow> f x \<notin> f ` set (xs @ ys) \<and> distinct (map f (xs @ ys))"
  by auto

lemma distinct_map_insert_middle:
  "distinct (map f (takeWhile P xs @ x # dropWhile P xs)) \<longleftrightarrow> f x \<notin> f ` set xs \<and> distinct (map f xs)"
  unfolding distinct_map_middle by simp

lemma sorted_map_takeWhile: "sorted (map f xs) \<Longrightarrow> sorted (map f (takeWhile P xs))"
  by (metis takeWhile_eq_take take_map sorted_wrt_take)

lemma sorted_map_dropWhile: "sorted (map f xs) \<Longrightarrow> sorted (map f (dropWhile P xs))"
  by (metis dropWhile_eq_drop drop_map sorted_wrt_drop)

lemma distinct_map_dropWhile: "distinct (map f xs) \<Longrightarrow> distinct (map f (dropWhile P xs))"
  by (metis dropWhile_eq_drop drop_map distinct_drop)

lemma distinct_map_takeWhile: "distinct (map f xs) \<Longrightarrow> distinct (map f (takeWhile P xs))"
  by (metis takeWhile_eq_take take_map distinct_take)

lemma updateTimeout_eq:
  assumes "tracker_ok tr"
  shows "mTimeouts (fst (updateTimeout n ttl now tr)) =
     (let ts = remove_node n (mTimeouts tr); t = now + seconds (uint ttl)
      in takeWhile (\<lambda>x. fst x \<le> t) ts @ (t, n) # dropWhile (\<lambda>x. fst x \<le> t) ts)"
proof -
  have "sorted (map fst (remove_node n (mTimeouts tr)))"
    using assms by (simp add: tracker_ok_def remove_node_def sorted_filter)
  from upper_bound_sorted [OF this] show ?thesis by (simp add: updateTimeout_def Let_def take_drop_takeWhile)
qed

lemma prune_eq:
  assumes "tracker_ok tr"
  shows "mTimeouts (fst (prune z now tr)) = dropWhile (\<lambda>x. fst x < now) (mTimeouts tr)"
    and "fst (snd (prune z now tr)) = map snd (takeWhile (\<lambda>x. fst x < now) (mTimeouts tr))"
  using lower_bound_sorted [of "mTimeouts tr" "(now, z)"] assms
  by (simp_all add: prune_def Let_def take_drop_takeWhile tracker_ok_def)

lemma tracker_ok_remove: "tracker_ok tr \<Longrightarrow> tracker_ok (tracker_remove n tr)"
  by (simp add: tracker_ok_def tracker_remove_def remove_node_def sorted_filter distinct_map_filter)

lemma tracker_ok_prune: "tracker_ok tr \<Longrightarrow> tracker_ok (fst (prune z now tr))"
  using prune_eq(1) [of tr z now] by (simp add: tracker_ok_def sorted_map_dropWhile distinct_map_dropWhile)

lemma tracker_ok_update:
  assumes "tracker_ok tr"
  shows "tracker_ok (fst (updateTimeout n ttl now tr))"
proof -
  let ?ts = "remove_node n (mTimeouts tr)" and ?t = "now + seconds (uint ttl)"
  let ?P = "\<lambda>x. fst x \<le> ?t"
  have s: "sorted (map fst ?ts)" and d: "distinct (map snd ?ts)"
    using assms by (simp_all add: tracker_ok_def remove_node_def sorted_filter distinct_map_filter)
  have sets: "set (takeWhile ?P ?ts) = {x \<in> set ?ts. fst x \<le> ?t}" "set (dropWhile ?P ?ts) = {x \<in> set ?ts. ?t < fst x}"
    using sorted_takeWhile_set [OF s, of ?P] by (auto simp: not_le)
  have "sorted (map fst (takeWhile ?P ?ts @ (?t, n) # dropWhile ?P ?ts))"
    using s sets by (fastforce simp: sorted_append sorted_map_takeWhile sorted_map_dropWhile)
  moreover have "distinct (map snd (takeWhile ?P ?ts @ (?t, n) # dropWhile ?P ?ts))"
    unfolding distinct_map_insert_middle using d by (auto simp: remove_node_def)
  ultimately show ?thesis using updateTimeout_eq [OF assms, of n ttl now] by (simp add: tracker_ok_def Let_def)
qed

subsection \<open>Deadlines\<close>

lemma deadline_iff: "tracker_ok tr \<Longrightarrow> deadline tr n = Some t \<longleftrightarrow> (t, n) \<in> set (mTimeouts tr)"
  by (force simp: tracker_ok_def deadline_def map_of_eq_Some_iff comp_def)

lemma deadline_update:
  assumes "tracker_ok tr"
  shows "deadline (fst (updateTimeout n ttl now tr)) = (deadline tr)(n \<mapsto> now + seconds (uint ttl))"
proof (rule ext)
  fix k
  let ?ts = "remove_node n (mTimeouts tr)" and ?t = "now + seconds (uint ttl)"
  have "set (mTimeouts (fst (updateTimeout n ttl now tr))) = insert (?t, n) (set ?ts)"
    unfolding updateTimeout_eq [OF assms] Let_def set_append list.set
    using set_takeWhile_dropWhile [of "\<lambda>x. fst x \<le> ?t" ?ts] by blast
  also have "\<dots> = insert (?t, n) {x \<in> set (mTimeouts tr). snd x \<noteq> n}" by (simp add: remove_node_def)
  finally have "\<And>u. deadline (fst (updateTimeout n ttl now tr)) k = Some u \<longleftrightarrow>
      ((deadline tr)(n \<mapsto> ?t)) k = Some u"
    using deadline_iff [OF tracker_ok_update [OF assms]] deadline_iff [OF assms] by auto
  then show "deadline (fst (updateTimeout n ttl now tr)) k = ((deadline tr)(n \<mapsto> ?t)) k"
    by (metis option.exhaust)
qed

lemma deadline_remove:
  assumes "tracker_ok tr"
  shows "deadline (tracker_remove n tr) = (deadline tr)(n := None)"
proof (rule ext)
  fix k
  have "\<And>u. deadline (tracker_remove n tr) k = Some u \<longleftrightarrow> ((deadline tr)(n := None)) k = Some u"
    using deadline_iff [OF tracker_ok_remove [OF assms]] deadline_iff [OF assms]
    by (auto simp: tracker_remove_def remove_node_def)
  then show "deadline (tracker_remove n tr) k = ((deadline tr)(n := None)) k" by (metis option.exhaust)
qed

lemma prune_sets:
  assumes "tracker_ok tr"
  shows "set (fst (snd (prune z now tr))) = {n. \<exists>t. deadline tr n = Some t \<and> t < now}"
    and "distinct (fst (snd (prune z now tr)))"
    and "deadline (fst (prune z now tr)) n = Some t \<longleftrightarrow> deadline tr n = Some t \<and> now \<le> t"
proof -
  have s: "sorted (map fst (mTimeouts tr))" using assms by (simp add: tracker_ok_def)
  have sets: "set (takeWhile (\<lambda>x. fst x < now) (mTimeouts tr)) = {x \<in> set (mTimeouts tr). fst x < now}"
    "set (dropWhile (\<lambda>x. fst x < now) (mTimeouts tr)) = {x \<in> set (mTimeouts tr). now \<le> fst x}"
    using sorted_takeWhile_set [OF s, of "\<lambda>x. fst x < now"] by (auto simp: not_less)
  have "set (fst (snd (prune z now tr))) = snd ` {x \<in> set (mTimeouts tr). fst x < now}"
    unfolding prune_eq(2) [OF assms] set_map sets(1) ..
  also have "\<dots> = {n. \<exists>t. deadline tr n = Some t \<and> t < now}"
    unfolding deadline_iff [OF assms] by force
  finally show "set (fst (snd (prune z now tr))) = {n. \<exists>t. deadline tr n = Some t \<and> t < now}" .
  show "distinct (fst (snd (prune z now tr)))"
    unfolding prune_eq(2) [OF assms] using assms by (intro distinct_map_takeWhile) (simp add: tracker_ok_def)
  show "deadline (fst (prune z now tr)) n = Some t \<longleftrightarrow> deadline tr n = Some t \<and> now \<le> t"
    unfolding deadline_iff [OF tracker_ok_prune [OF assms]] deadline_iff [OF assms] prune_eq(1) [OF assms] sets(2) by simp
qed

subsection \<open>Timeout tables\<close>

text \<open>
  What the gateway relies on: a table of deadlines that can be renewed, forgotten and swept. A
  sweep reports each node whose deadline has passed, once, and forgets it.
\<close>

datatype 'n table_op = Touch 'n byte time | Forget 'n | Sweep time

fun table_run ::
    "('n \<Rightarrow> byte \<Rightarrow> time \<Rightarrow> 's \<Rightarrow> 's) \<Rightarrow> ('n \<Rightarrow> 's \<Rightarrow> 's) \<Rightarrow> (time \<Rightarrow> 's \<Rightarrow> 's \<times> 'n list) \<Rightarrow> 's \<Rightarrow>
       'n table_op list \<Rightarrow> 's \<times> 'n list" where
  "table_run touch forget sweep s [] = (s, [])"
| "table_run touch forget sweep s (Touch n ttl now # ops) = table_run touch forget sweep (touch n ttl now s) ops"
| "table_run touch forget sweep s (Forget n # ops) = table_run touch forget sweep (forget n s) ops"
| "table_run touch forget sweep s (Sweep now # ops) =
     (let (s1, gone) = sweep now s; (s2, gone') = table_run touch forget sweep s1 ops in (s2, gone @ gone'))"

text \<open>The operations that leave the entry of \<open>n\<close> with deadline \<open>d\<close> alone.\<close>

fun spares :: "'n \<Rightarrow> time \<Rightarrow> 'n table_op \<Rightarrow> bool" where
  "spares n d (Touch k ttl now) \<longleftrightarrow> k \<noteq> n"
| "spares n d (Forget k) \<longleftrightarrow> k \<noteq> n"
| "spares n d (Sweep now) \<longleftrightarrow> now \<le> d"

locale timeout_table =
  fixes touch :: "'n \<Rightarrow> byte \<Rightarrow> time \<Rightarrow> 's \<Rightarrow> 's"
    and forget :: "'n \<Rightarrow> 's \<Rightarrow> 's"
    and sweep :: "time \<Rightarrow> 's \<Rightarrow> 's \<times> 'n list"
    and deadlines :: "'s \<Rightarrow> 'n \<rightharpoonup> time"
    and ok :: "'s \<Rightarrow> bool"
  assumes touch_law: "ok s \<Longrightarrow> ok (touch n ttl now s) \<and>
      deadlines (touch n ttl now s) = (deadlines s)(n \<mapsto> now + seconds (uint ttl))"
    and forget_law: "ok s \<Longrightarrow> ok (forget n s) \<and> deadlines (forget n s) = (deadlines s)(n := None)"
    and sweep_law: "ok s \<Longrightarrow> sweep now s = (s', gone) \<Longrightarrow> ok s' \<and> distinct gone \<and>
      set gone = {n. \<exists>t. deadlines s n = Some t \<and> t < now} \<and>
      (\<forall>n t. deadlines s' n = Some t \<longleftrightarrow> deadlines s n = Some t \<and> now \<le> t)"
begin

lemma run_spares:
  assumes "ok s" "deadlines s n = Some d" "\<forall>op \<in> set ops. spares n d op" "table_run touch forget sweep s ops = (s', gone)"
  shows "ok s' \<and> deadlines s' n = Some d \<and> n \<notin> set gone"
  using assms
proof (induction ops arbitrary: s gone)
  case (Cons op ops)
  show ?case
  proof (cases op)
    case (Touch k ttl now)
    with Cons.prems(3) have "k \<noteq> n" by simp
    with Touch Cons.IH [of "touch k ttl now s" gone] touch_law [OF Cons.prems(1), of k ttl now] Cons.prems show ?thesis by simp
  next
    case (Forget k)
    with Cons.prems(3) have "k \<noteq> n" by simp
    with Forget Cons.IH [of "forget k s" gone] forget_law [OF Cons.prems(1), of k] Cons.prems show ?thesis by simp
  next
    case (Sweep now)
    obtain s1 g1 where s1: "sweep now s = (s1, g1)" by force
    obtain g2 where g2: "table_run touch forget sweep s1 ops = (s', g2)" "gone = g1 @ g2"
      using Cons.prems(4) Sweep s1 by (auto split: prod.splits)
    from sweep_law [OF Cons.prems(1) s1] Cons.prems Sweep have "ok s1" "deadlines s1 n = Some d" "n \<notin> set g1" by auto
    with Cons.IH [OF _ _ _ g2(1)] Cons.prems(3) g2(2) show ?thesis by simp
  qed
qed simp

lemma expires_when_silent:
  assumes "ok s" "\<forall>op \<in> set ops. spares n (now + seconds (uint ttl)) op"
    and "table_run touch forget sweep (touch n ttl now s) ops = (s1, gone)" "sweep later s1 = (s2, gone')"
  shows "n \<notin> set gone \<and> (n \<in> set gone' \<longleftrightarrow> now + seconds (uint ttl) < later) \<and>
    (n \<in> set gone' \<longrightarrow> deadlines s2 n = None)"
proof -
  have "ok s1 \<and> deadlines s1 n = Some (now + seconds (uint ttl)) \<and> n \<notin> set gone"
    using run_spares [OF _ _ assms(2,3)] touch_law [OF assms(1)] by simp
  moreover from sweep_law [OF _ assms(4)] this have "set gone' = {n. \<exists>t. deadlines s1 n = Some t \<and> t < later}"
    "\<forall>t. deadlines s2 n = Some t \<longrightarrow> deadlines s1 n = Some t \<and> later \<le> t" by blast+
  ultimately show ?thesis by (cases "deadlines s2 n") auto
qed

end

definition tracker_touch :: "'n \<Rightarrow> byte \<Rightarrow> time \<Rightarrow> 'n PeerTracker \<Rightarrow> 'n PeerTracker" where
  "tracker_touch n ttl now tr = fst (updateTimeout n ttl now tr)"

definition tracker_sweep :: "'n \<Rightarrow> time \<Rightarrow> 'n PeerTracker \<Rightarrow> 'n PeerTracker \<times> 'n list" where
  "tracker_sweep z now tr = (fst (prune z now tr), fst (snd (prune z now tr)))"

interpretation tracker: timeout_table tracker_touch tracker_remove "tracker_sweep z" deadline tracker_ok
  by unfold_locales
     (auto simp: tracker_ok_prune prune_sets tracker_touch_def tracker_ok_update deadline_update tracker_ok_remove deadline_remove tracker_sweep_def)

subsection \<open>Properties\<close>

text \<open>
  C21: A Link peer is reported gone exactly when it has been silent for longer than the time to live it
  announced. After \<open>updateTimeout\<close>, through any operations on other nodes and any earlier passes of
  \<open>prune\<close>, the node is not reported; a pass at a time \<open>later\<close> reports it if and only if
  \<open>later\<close> is after its deadline, and then it is forgotten.
\<close>

theorem tracker_reports_silent_peers:
  assumes "tracker_ok tr" "\<forall>op \<in> set ops. spares n (now + seconds (uint ttl)) op"
    and "table_run (\<lambda>k u at tr. fst (updateTimeout k u at tr)) tracker_remove
           (\<lambda>at tr. (fst (prune z at tr), fst (snd (prune z at tr)))) (fst (updateTimeout n ttl now tr)) ops = (tr1, gone)"
    and "prune z later tr1 = (tr2, gone', armed)"
  shows "n \<notin> set gone \<and> (n \<in> set gone' \<longleftrightarrow> now + seconds (uint ttl) < later) \<and>
    (n \<in> set gone' \<longrightarrow> deadline tr2 n = None)"
  using tracker.expires_when_silent [OF assms(1,2), of z tr1 gone later tr2 gone'] assms(3,4)
  by (simp add: tracker_touch_def [abs_def] tracker_sweep_def [abs_def])

theorem tracker_reports_silent_peers_witness:
  "\<exists>tr1 gone tr2 gone' armed. table_run (\<lambda>k u at tr. fst (updateTimeout k u at tr)) tracker_remove
       (\<lambda>at tr. (fst (prune 0 at tr), fst (snd (prune 0 at tr)))) (fst (updateTimeout (7 :: u64) 5 0 PeerTracker_init))
       [Touch 8 1 0, Sweep (seconds 3)] = (tr1, gone) \<and>
     prune 0 (seconds 6) tr1 = (tr2, gone', armed) \<and> 7 \<notin> set gone \<and> 7 \<in> set gone'"
proof -
  let ?run = "table_run (\<lambda>k u at tr. fst (updateTimeout k u at tr)) tracker_remove
       (\<lambda>at tr. (fst (prune 0 at tr), fst (snd (prune 0 at tr)))) (fst (updateTimeout (7 :: u64) 5 0 PeerTracker_init))
       [Touch 8 1 0, Sweep (seconds 3)]"
  have ok: "tracker_ok (PeerTracker_init :: u64 PeerTracker)" by (simp add: tracker_ok_def PeerTracker_init_def)
  obtain tr1 gone where r: "?run = (tr1, gone)" by force
  obtain tr2 gone' armed where p: "prune 0 (seconds 6) tr1 = (tr2, gone', armed)" by (cases "prune 0 (seconds 6) tr1") auto
  have "\<forall>op \<in> set [Touch 8 1 0, Sweep (seconds 3)]. spares (7 :: u64) (0 + seconds (uint (5 :: byte))) op"
    by (simp add: seconds_def)
  from tracker_reports_silent_peers [OF ok this r p] r p show ?thesis by (simp add: seconds_def)
qed

subsection \<open>The tracker and its timer\<close>

text \<open>
  The tracker with the time its timer is armed for. \<open>updateTimeout\<close> and \<open>prune\<close> end in \<open>schedulePruning\<close>, which
  replaces what was armed when a node is tracked; \<open>remove\<close> and \<open>clear\<close> leave the timer alone, so it can go off
  for a node that is no longer there.
\<close>

inductive timer_step :: "'n \<Rightarrow> 'n PeerTracker \<times> time option \<Rightarrow> 'n PeerTracker \<times> time option \<Rightarrow> bool" for z where
  timer_touched:
    "updateTimeout n ttl now tr = (tr', next) \<Longrightarrow>
     timer_step z (tr, armed) (tr', case next of None \<Rightarrow> armed | Some t \<Rightarrow> Some t)"
| timer_removed: "timer_step z (tr, armed) (tracker_remove n tr, armed)"
| timer_cleared: "timer_step z (tr, armed) (tracker_clear tr, armed)"
| timer_fires:
    "armed = Some t \<Longrightarrow> t \<le> now \<Longrightarrow> prune z now tr = (tr', gone, next) \<Longrightarrow> timer_step z (tr, armed) (tr', next)"

text \<open>The timer is armed for one second after the earliest deadline, or there is none and it is not armed.\<close>

definition timer_exact :: "'n PeerTracker \<Rightarrow> time option \<Rightarrow> bool" where
  "timer_exact tr armed \<longleftrightarrow>
     (case armed of
        None \<Rightarrow> deadline tr = Map.empty
      | Some t \<Rightarrow> (\<exists>k. deadline tr k = Some (t - seconds 1)) \<and> (\<forall>k d. deadline tr k = Some d \<longrightarrow> t - seconds 1 \<le> d))"

definition timer_ok :: "'n PeerTracker \<times> time option \<Rightarrow> bool" where
  "timer_ok s \<longleftrightarrow> tracker_ok (fst s) \<and>
     (\<forall>k d. deadline (fst s) k = Some d \<longrightarrow> (\<exists>t. snd s = Some t \<and> t \<le> d + seconds 1))"

lemma schedulePruning_exact:
  assumes "tracker_ok tr"
  shows "timer_exact tr (schedulePruning tr)"
proof (cases "mTimeouts tr")
  case Nil
  then show ?thesis by (simp add: timer_exact_def schedulePruning_def deadline_def)
next
  case (Cons pt pts)
  obtain d k where pt: "pt = (d, k)" by force
  have dk: "deadline tr k = Some d" using deadline_iff [OF assms] Cons pt by simp
  have "d \<le> e" if "deadline tr j = Some e" for j e
    using that deadline_iff [OF assms] assms Cons pt by (auto simp: tracker_ok_def)
  then show ?thesis using dk Cons pt by (auto simp: schedulePruning_def timer_exact_def)
qed

lemma updateTimeout_exact:
  assumes "tracker_ok tr" "updateTimeout n ttl now tr = (tr', armed)"
  shows "tracker_ok tr'" "timer_exact tr' armed" "armed \<noteq> None"
proof -
  show ok: "tracker_ok tr'" using tracker_ok_update [OF assms(1), of n ttl now] assms(2) by simp
  have "armed = schedulePruning tr'" using assms(2) by (auto simp: updateTimeout_def Let_def)
  with schedulePruning_exact [OF ok] show e: "timer_exact tr' armed" by simp
  have "deadline tr' n \<noteq> None" using deadline_update [OF assms(1), of n ttl now] assms(2) by simp
  with e show "armed \<noteq> None" by (auto simp: timer_exact_def split: option.splits)
qed

lemma prune_exact:
  assumes "tracker_ok tr" "prune z now tr = (tr', gone, armed)"
  shows "tracker_ok tr'" "timer_exact tr' armed"
proof -
  show ok: "tracker_ok tr'" using tracker_ok_prune [OF assms(1), of z now] assms(2) by simp
  have "armed = schedulePruning tr'" using assms(2) by (auto simp: prune_def Let_def)
  with schedulePruning_exact [OF ok] show "timer_exact tr' armed" by simp
qed

lemma timer_exact_ok: "tracker_ok tr \<Longrightarrow> timer_exact tr armed \<Longrightarrow> timer_ok (tr, armed)"
  by (fastforce simp: timer_exact_def timer_ok_def split: option.splits)

lemma timer_step_ok: "timer_step z s s' \<Longrightarrow> timer_ok s \<Longrightarrow> timer_ok s'"
proof (induction rule: timer_step.induct)
  case (timer_touched n ttl now tr tr' "next" armed)
  then have "tracker_ok tr" by (simp add: timer_ok_def)
  from updateTimeout_exact [OF this timer_touched.hyps] show ?case by (auto intro: timer_exact_ok)
next
  case (timer_removed tr armed n)
  then show ?case by (auto simp: timer_ok_def tracker_ok_remove deadline_remove split: if_splits)
next
  case (timer_cleared tr armed)
  then show ?case by (simp add: timer_ok_def tracker_ok_def tracker_clear_def deadline_def)
next
  case (timer_fires armed t now tr tr' gone "next")
  then have "tracker_ok tr" by (simp add: timer_ok_def)
  from prune_exact [OF this timer_fires.hyps(3)] show ?case by (rule timer_exact_ok)
qed

lemma timer_ok_init: "timer_ok (PeerTracker_init, None)"
  by (simp add: timer_ok_def PeerTracker_init_def tracker_ok_def deadline_def)

interpretation tracker_timer: invariant_system "\<lambda>s. s = (PeerTracker_init, None)" "timer_step z" timer_ok
  by unfold_locales (auto intro: timer_step_ok timer_ok_init)

subsection \<open>The timer never sleeps and never spins\<close>

text \<open>
  C22: In every state the tracker and its timer reach, by renewals, removals, clearings and passes in any
  order: while a node is tracked the timer is armed, for one second after the deadline of that node or
  earlier. Right after an \<open>updateTimeout\<close> or a pass it is armed for exactly one second after the earliest
  deadline, or not at all when nobody is left. A pass reports exactly the nodes whose deadline is over, and
  what it arms is at least a second away. After \<open>remove\<close> or \<open>clear\<close>, which do not touch the timer, a pass may
  find nobody to report.
\<close>

theorem tracker_timer_makes_progress:
  assumes "(timer_step z)\<^sup>*\<^sup>* (PeerTracker_init, None) (tr, armed)"
  shows "(\<forall>k d. deadline tr k = Some d \<longrightarrow> (\<exists>t. armed = Some t \<and> t \<le> d + seconds 1)) \<and>
    (\<forall>n ttl now tr' next. updateTimeout n ttl now tr = (tr', next) \<longrightarrow> next \<noteq> None \<and> timer_exact tr' next) \<and>
    (\<forall>now tr' gone next. prune z now tr = (tr', gone, next) \<longrightarrow>
       timer_exact tr' next \<and> set gone = {n. \<exists>d. deadline tr n = Some d \<and> d < now} \<and>
       (\<forall>t. next = Some t \<longrightarrow> now + seconds 1 \<le> t))"
proof -
  have ok: "timer_ok (tr, armed)" by (rule tracker_timer.inv_reachable [OF refl assms])
  then have tr: "tracker_ok tr" by (simp add: timer_ok_def)
  have "now + seconds 1 \<le> t" if p: "prune z now tr = (tr', gone, Some t)" for now tr' gone t
  proof -
    obtain k where "deadline tr' k = Some (t - seconds 1)" using prune_exact(2) [OF tr p] by (auto simp: timer_exact_def)
    then have "now \<le> t - seconds 1" using prune_sets(3) [OF tr, of z now] p by simp
    then show ?thesis by simp
  qed
  moreover have "set gone = {n. \<exists>d. deadline tr n = Some d \<and> d < now}" if "prune z now tr = (tr', gone, next)" for now tr' gone "next"
    using prune_sets(1) [OF tr, of z now] that by simp
  ultimately show ?thesis using ok updateTimeout_exact [OF tr] prune_exact [OF tr] by (fastforce simp: timer_ok_def)
qed

text \<open>A node with five seconds to live; after \<open>clear\<close> its timer still goes off, reports nobody and is not armed again.\<close>

theorem tracker_timer_makes_progress_witness:
  "\<exists>tr tr'. timer_step 0 (PeerTracker_init, None) (tr, Some (seconds 6)) \<and> deadline tr (7 :: u64) = Some (seconds 5) \<and>
     timer_step 0 (tr, Some (seconds 6)) (tracker_clear tr, Some (seconds 6)) \<and>
     prune 0 (seconds 6) (tracker_clear tr) = (tr', [], None)"
proof -
  let ?tr = "\<lparr>mTimeouts = [(seconds 5, 7 :: u64)]\<rparr>"
  have u: "updateTimeout (7 :: u64) 5 0 PeerTracker_init = (?tr, Some (seconds 6))"
    by (simp add: updateTimeout_def PeerTracker_init_def remove_node_def upper_bound_def bound_search.simps
        schedulePruning_def seconds_def)
  have 1: "timer_step 0 (PeerTracker_init, None) (?tr, Some (seconds 6))" using timer_touched [OF u, of 0 None] by simp
  have 2: "timer_step 0 (?tr, Some (seconds 6)) (tracker_clear ?tr, Some (seconds 6))" by (rule timer_cleared)
  from 1 2 have "(timer_step 0)\<^sup>*\<^sup>* (PeerTracker_init, None) (tracker_clear ?tr, Some (seconds 6))" by simp
  note found = tracker_timer_makes_progress [OF this]
  obtain tr' gone "next" where p: "prune 0 (seconds 6) (tracker_clear ?tr) = (tr', gone, next)" by (cases "prune 0 (seconds 6) (tracker_clear ?tr)")
  have "deadline (tracker_clear ?tr) = Map.empty" by (simp add: deadline_def tracker_clear_def)
  moreover from found p have "set gone = {n. \<exists>d. deadline (tracker_clear ?tr) n = Some d \<and> d < seconds 6}" by blast
  ultimately have "gone = []" by simp
  moreover have "next = None"
    using p by (auto simp: prune_def tracker_clear_def lower_bound_def bound_search.simps schedulePruning_def Let_def)
  moreover have "deadline ?tr 7 = Some (seconds 5)" by (simp add: deadline_def)
  ultimately show ?thesis using 1 2 p by blast
qed

end
