(* ===== verification/Decimal.thy ===== *)
theory Decimal
  imports Extender_Prelude
begin

text \<open>
  Decimal numbers as the standard library prints and reads them: \<open>std::to_string\<close>, which
  \<open>TunnelGateway::createKeyFromEndpoint\<close> uses, and \<open>std::stoul\<close>, which the command line uses, with the
  64-bit \<open>unsigned long\<close> of the platforms the program is built for.
\<close>

text \<open>\<open>std::to_string\<close> of an unsigned number.\<close>

fun to_string :: "nat \<Rightarrow> string" where
  "to_string n = (if n < 10 then [char_of (48 + n)] else to_string (n div 10) @ [char_of (48 + n mod 10)])"

declare to_string.simps [simp del]

definition isdigit :: "char \<Rightarrow> bool" where
  "isdigit c \<longleftrightarrow> 48 \<le> (of_char c :: nat) \<and> (of_char c :: nat) \<le> 57"

definition isspace :: "char \<Rightarrow> bool" where
  "isspace c \<longleftrightarrow> (of_char c :: nat) = 32 \<or> 9 \<le> (of_char c :: nat) \<and> (of_char c :: nat) \<le> 13"

definition decimal_value :: "string \<Rightarrow> nat" where
  "decimal_value cs = foldl (\<lambda>a c. 10 * a + (of_char c - 48)) 0 cs"

text \<open>
  \<open>std::stoul(s)\<close> is \<open>strtoul\<close> in base 10: leading white space and one sign are skipped, the longest
  run of digits is the number, and what follows it is ignored. Without a digit it throws
  \<open>std::invalid_argument\<close>, beyond the type \<open>std::out_of_range\<close>; a minus sign negates in the type.
\<close>

datatype number_error = NotANumber | NumberOutOfRange

definition strip_sign :: "string \<Rightarrow> bool \<times> string" where
  "strip_sign s =
     (case s of
        [] \<Rightarrow> (False, [])
      | c # rest \<Rightarrow> if c = CHR ''-'' then (True, rest) else if c = CHR ''+'' then (False, rest) else (False, s))"

definition stoul :: "string \<Rightarrow> number_error + u64" where
  "stoul s =
     (let (negative, s1) = strip_sign (dropWhile isspace s);
          digits = takeWhile isdigit s1
      in if digits = [] then Inl NotANumber
         else if 2 ^ 64 \<le> decimal_value digits then Inl NumberOutOfRange
         else Inr (if negative then - of_nat (decimal_value digits) else of_nat (decimal_value digits)))"

subsection \<open>Printing\<close>

lemma char_of_digit: "k < 10 \<Longrightarrow> (of_char (char_of (48 + k) :: char) :: nat) = 48 + k"
  by simp

lemma to_string_digits: "c \<in> set (to_string n) \<Longrightarrow> isdigit c"
proof (induction n rule: to_string.induct)
  case (1 n)
  have digit: "isdigit (char_of (48 + k))" if "k < 10" for k :: nat
    using that by (simp add: isdigit_def)
  show ?case
  proof (cases "n < 10")
    case True
    with 1(2) digit show ?thesis by (subst (asm) to_string.simps) auto
  next
    case False
    with 1(2) have "c \<in> set (to_string (n div 10)) \<or> c = char_of (48 + n mod 10)"
      by (subst (asm) to_string.simps) auto
    with 1(1) [OF False] digit [of "n mod 10"] show ?thesis by auto
  qed
qed

lemma not_digit_chars [simp]:
  "\<not> isdigit (CHR '':'')" "\<not> isdigit (CHR ''-'')" "\<not> isdigit (CHR ''+'')" "\<not> isdigit (CHR '']'')"
  by (simp_all add: isdigit_def)

lemma digit_not_space: "isdigit c \<Longrightarrow> \<not> isspace c"
  by (auto simp: isdigit_def isspace_def)

lemma to_string_not_Nil [simp]: "to_string n \<noteq> []"
  by (subst to_string.simps) simp

lemma colon_not_in_to_string [simp]: "CHR '':'' \<notin> set (to_string n)"
  using to_string_digits not_digit_chars(1) by blast

lemma decimal_value_to_string: "decimal_value (to_string n) = n"
proof (induction n rule: to_string.induct)
  case (1 n)
  have digit: "of_char (char_of (48 + k) :: char) - 48 = k" if "k < 10" for k :: nat using that by simp
  show ?case
  proof (cases "n < 10")
    case True
    with digit [OF True] show ?thesis by (subst to_string.simps) (simp add: decimal_value_def)
  next
    case False
    then have "decimal_value (to_string n) = 10 * decimal_value (to_string (n div 10)) + (of_char (char_of (48 + n mod 10) :: char) - 48)"
      by (subst to_string.simps) (simp add: decimal_value_def)
    also have "\<dots> = 10 * (n div 10) + n mod 10" using 1 [OF False] digit [of "n mod 10"] by simp
    finally show ?thesis by simp
  qed
qed

lemma separator_split:
  assumes "a @ c # b = a' @ c # b'" "c \<notin> set b" "c \<notin> set b'"
  shows "a = a' \<and> b = b'"
proof -
  have tw: "takeWhile (\<lambda>x. x \<noteq> c) (rev d @ c # e) = rev d" if "c \<notin> set d" for d e
  proof -
    have "\<And>x. x \<in> set (rev d) \<Longrightarrow> x \<noteq> c" using that by auto
    from takeWhile_append2 [of "rev d" "\<lambda>x. x \<noteq> c", OF this] show ?thesis by simp
  qed
  moreover have "rev b @ c # rev a = rev b' @ c # rev a'" using arg_cong [OF assms(1), of rev] by simp
  ultimately have "rev b = rev b'" using assms(2,3) by metis
  then show ?thesis using assms(1) by simp
qed

subsection \<open>Reading\<close>

lemma takeWhile_digits_to_string:
  "\<not> (case rest of [] \<Rightarrow> False | c # _ \<Rightarrow> isdigit c) \<Longrightarrow> takeWhile isdigit (to_string n @ rest) = to_string n"
  by (cases rest) (auto simp: takeWhile_append to_string_digits)

lemma strip_sign_to_string: "strip_sign (dropWhile isspace (to_string n @ rest)) = (False, to_string n @ rest)"
proof -
  obtain c cs where c: "to_string n = c # cs" using to_string_not_Nil by (metis list.exhaust)
  then have "isdigit c" using to_string_digits by (metis list.set_intros(1))
  then have "\<not> isspace c" "c \<noteq> CHR ''-''" "c \<noteq> CHR ''+''" using digit_not_space not_digit_chars by blast+
  with c show ?thesis by (simp add: strip_sign_def)
qed

lemma stoul_digits:
  assumes "\<not> (case rest of [] \<Rightarrow> False | c # _ \<Rightarrow> isdigit c)"
  shows "stoul (to_string n @ rest) = (if n < 2 ^ 64 then Inr (of_nat n) else Inl NumberOutOfRange)"
  using takeWhile_digits_to_string [OF assms]
  by (simp add: stoul_def strip_sign_to_string decimal_value_to_string)

lemma stoul_to_string: "stoul (to_string n) = (if n < 2 ^ 64 then Inr (of_nat n) else Inl NumberOutOfRange)"
  using stoul_digits [of "[]"] by simp

lemma stoul_negative:
  assumes "\<not> (case rest of [] \<Rightarrow> False | c # _ \<Rightarrow> isdigit c)"
  shows "stoul (CHR ''-'' # to_string n @ rest) = (if n < 2 ^ 64 then Inr (- of_nat n) else Inl NumberOutOfRange)"
proof -
  have "\<not> isspace (CHR ''-'')" by (simp add: isspace_def)
  then show ?thesis using takeWhile_digits_to_string [OF assms]
    by (simp add: stoul_def strip_sign_def decimal_value_to_string)
qed

lemma strip_sign_subset: "strip_sign d = (negative, s1) \<Longrightarrow> set s1 \<subseteq> set d"
  by (cases d) (auto simp: strip_sign_def split: if_splits)

lemma stoul_no_digit:
  assumes "\<forall>c \<in> set s. \<not> isdigit c"
  shows "stoul s = Inl NotANumber"
proof -
  obtain neg s1 where s1: "strip_sign (dropWhile isspace s) = (neg, s1)" by fastforce
  then have "set s1 \<subseteq> set (dropWhile isspace s)"
    by (rule strip_sign_subset)
  then have "set s1 \<subseteq> set s" by (auto dest: set_dropWhileD)
  with assms have "takeWhile isdigit s1 = []" by (cases s1) auto
  with s1 show ?thesis by (simp add: stoul_def)
qed

end
