(* ===== verification/TunnelGateway.thy ===== *)
theory TunnelGateway
  imports Tunnel PeerTracker Decimal
begin

text \<open>
  \<open>include/ableton/extender/TunnelGateway.hpp\<close>: the gateway on one network interface. It hears the
  Link messages of local nodes on the multicast socket and on the sockets of the surrogates, passes
  them to the tunnel, and plays the messages of remote nodes into the local network through the
  surrogate of the remote node.

  The message formats of Link, the asio address operations and the sockets are not part of the
  repository: the record \<open>link_api\<close> holds the operations the class uses, as parameters. A
  parser that can throw returns an option. A random node identifier and the time are arguments.
  Sockets are numbered in the order they are opened; opening one can throw (\<open>can_open\<close>). Console
  and log output is not modelled. Calls on the tunnel and the observers, sends, receives and timer
  settings are the actions of an operation, in order.
\<close>

subsection \<open>Parameters\<close>

record 'ip UdpEndpoint =
  ep_address :: 'ip
  ep_port :: u16

datatype discovery_message = kAlive | kResponse | kByeBye | kUnknown byte

record 'n MessageHeader =
  messageType :: discovery_message
  ttl :: byte
  ident :: 'n

record ('n, 'ip, 'ps) link_api =
  parseMessageHeader :: "bytes \<Rightarrow> 'n MessageHeader \<times> bytes"       \<comment> \<open>the header and the payload\<close>
  fromPayload :: "'n \<Rightarrow> bytes \<Rightarrow> 'ps option"                      \<comment> \<open>\<open>PeerState::fromPayload\<close>\<close>
  peer_ident :: "'ps \<Rightarrow> 'n"
  peer_endpoint :: "'ps \<Rightarrow> 'ip UdpEndpoint"
  is_ping :: "bytes \<Rightarrow> bool"                                      \<comment> \<open>\<open>link::v1::parseMessageHeader\<close> finds \<open>kPing\<close>\<close>
  measurement_entry_size :: "'ip UdpEndpoint \<Rightarrow> nat"
  measurement_payload :: "'ip UdpEndpoint \<Rightarrow> bytes"
  max_message_size :: nat
  is_v4 :: "'ip \<Rightarrow> bool"
  in_subnet24 :: "'ip \<Rightarrow> 'ip \<Rightarrow> bool"                             \<comment> \<open>is the second address in the /24 network of the first\<close>
  address_string :: "'ip \<Rightarrow> string"
  multicastEndpointV4 :: "'ip UdpEndpoint"
  multicastEndpointV6 :: "'ip \<Rightarrow> 'ip UdpEndpoint"                   \<comment> \<open>with the scope of the interface\<close>
  scoped_v6 :: "'ip \<Rightarrow> 'ip \<Rightarrow> 'ip option"                         \<comment> \<open>the second address with the scope of the first\<close>
  can_open :: "nat \<Rightarrow> bool"
  socket_endpoint :: "nat \<Rightarrow> 'ip UdpEndpoint"
  default_endpoint :: "'ip UdpEndpoint"
  no_node :: 'n

subsection \<open>State\<close>

record 'ip LocalNodeEndpoints =
  stateEndpoint :: "'ip UdpEndpoint"
  measurementEndpoint :: "'ip UdpEndpoint"

record RemoteNodeSurrogate =
  stateSocket :: nat
  measurementSocket :: nat
  surrogate_running :: bool

record RemoteMeasurementSurrogate =
  pingSocket :: nat
  ping_running :: bool

record ('n, 'ip) TunnelGateway =
  local_interface_address :: 'ip
  gateway_running :: bool
  mLocalTracker :: "'n PeerTracker"
  mRemoteTracker :: "'n PeerTracker"
  mRemoteNodeIdToRemoteNodeSurrogate :: "'n \<rightharpoonup> RemoteNodeSurrogate"
  mRemoteNodeIdToRemoteMeasurementSurrogate :: "'n \<rightharpoonup> RemoteMeasurementSurrogate"
  localNodeIdToEndpointMap :: "'n \<rightharpoonup> 'ip LocalNodeEndpoints"
  localMeasurementEndpointToNodeId :: "string \<rightharpoonup> 'n"
  next_socket :: nat

datatype ('n, 'ip, 'ps) gateway_action =
    JoinTunnel                                             \<comment> \<open>\<open>mTunnel->addGateway\<close>\<close>
  | TunnelForward TunnelMessageType 'n bytes "'n option"   \<comment> \<open>\<open>mTunnel->forward\<close>\<close>
  | SawLocalPeer 'ps | LocalPeerLeft 'n | LocalPeerTimedOut 'n
  | SawRemotePeer 'ps | RemotePeerLeft 'n | RemotePeerTimedOut 'n
  | ArmLocalTracker time | ArmRemoteTracker time
  | ReceiveMulticast | ReceiveState 'n | ReceiveMeasurement 'n | ReceivePing 'n
  | SendUdp nat bytes "'ip UdpEndpoint"

type_synonym ('n, 'ip, 'ps) gateway_result = "('n, 'ip) TunnelGateway \<times> ('n, 'ip, 'ps) gateway_action list"

definition TunnelGateway_init :: "'ip \<Rightarrow> ('n, 'ip) TunnelGateway" where
  "TunnelGateway_init interface_address =
     \<lparr>local_interface_address = interface_address, gateway_running = False,
      mLocalTracker = PeerTracker_init, mRemoteTracker = PeerTracker_init,
      mRemoteNodeIdToRemoteNodeSurrogate = Map.empty, mRemoteNodeIdToRemoteMeasurementSurrogate = Map.empty,
      localNodeIdToEndpointMap = Map.empty, localMeasurementEndpointToNodeId = Map.empty, next_socket = 1\<rparr>"

definition gateway_listen :: "('n, 'ip) TunnelGateway \<Rightarrow> ('n, 'ip, 'ps) gateway_result" where
  "gateway_listen g = (g\<lparr>gateway_running := True\<rparr>, [JoinTunnel, ReceiveMulticast])"

definition gateway_stop_listening :: "('n, 'ip) TunnelGateway \<Rightarrow> ('n, 'ip) TunnelGateway" where
  "gateway_stop_listening g =
     g\<lparr>gateway_running := False,
       mRemoteNodeIdToRemoteNodeSurrogate := Map.empty, mRemoteNodeIdToRemoteMeasurementSurrogate := Map.empty,
       localNodeIdToEndpointMap := Map.empty, localMeasurementEndpointToNodeId := Map.empty,
       mLocalTracker := tracker_clear (mLocalTracker g), mRemoteTracker := tracker_clear (mRemoteTracker g)\<rparr>"

text \<open>The destructor also lets go of the tunnel.\<close>

definition TunnelGateway_destroy :: "('n, 'ip) TunnelGateway \<Rightarrow> ('n, 'ip) TunnelGateway" where
  "TunnelGateway_destroy g = gateway_stop_listening g"

definition hasLocalNode :: "'n \<Rightarrow> ('n, 'ip) TunnelGateway \<Rightarrow> bool" where
  "hasLocalNode n g \<longleftrightarrow> localNodeIdToEndpointMap g n \<noteq> None"

definition hasRemoteNodeSurrogate :: "'n \<Rightarrow> ('n, 'ip) TunnelGateway \<Rightarrow> bool" where
  "hasRemoteNodeSurrogate n g \<longleftrightarrow> mRemoteNodeIdToRemoteNodeSurrogate g n \<noteq> None"

subsection \<open>Endpoint keys\<close>

definition createKeyFromEndpoint :: "('n, 'ip, 'ps) link_api \<Rightarrow> 'ip UdpEndpoint \<Rightarrow> string" where
  "createKeyFromEndpoint A ep = address_string A (ep_address ep) @ '':'' @ to_string (unat (ep_port ep))"

subsection \<open>Messages of local nodes\<close>

definition arm_local :: "time option \<Rightarrow> ('n, 'ip, 'ps) gateway_action list" where
  "arm_local t = (case t of None \<Rightarrow> [] | Some u \<Rightarrow> [ArmLocalTracker u])"

definition arm_remote :: "time option \<Rightarrow> ('n, 'ip, 'ps) gateway_action list" where
  "arm_remote t = (case t of None \<Rightarrow> [] | Some u \<Rightarrow> [ArmRemoteTracker u])"

text \<open>The call of the tunnel's \<open>forward\<close>, with the message as a range of bytes.\<close>

definition forwardMessage ::
    "TunnelMessageType \<Rightarrow> 'n \<Rightarrow> bytes \<Rightarrow> 'n option \<Rightarrow> ('n, 'ip, 'ps) gateway_action" where
  [simp]: "forwardMessage mt from_node_id msg to_node_id = TunnelForward mt from_node_id msg to_node_id"

text \<open>\<open>localNodeIdToEndpointMap[id]\<close> of an absent node makes an entry with default endpoints, which is then erased.\<close>

definition receiveByeBye ::
    "('n, 'ip, 'ps) link_api \<Rightarrow> 'n \<Rightarrow> bytes \<Rightarrow> 'n option \<Rightarrow> ('n, 'ip) TunnelGateway \<Rightarrow> ('n, 'ip, 'ps) gateway_result" where
  "receiveByeBye A from_node_id msg to_node_id g =
     (let ep = (case localNodeIdToEndpointMap g from_node_id of
                  Some e \<Rightarrow> measurementEndpoint e | None \<Rightarrow> default_endpoint A)
      in (g\<lparr>mLocalTracker := tracker_remove from_node_id (mLocalTracker g),
            localMeasurementEndpointToNodeId :=
              (localMeasurementEndpointToNodeId g)(createKeyFromEndpoint A ep := None),
            localNodeIdToEndpointMap := (localNodeIdToEndpointMap g)(from_node_id := None)\<rparr>,
          [forwardMessage BYEBYE from_node_id msg to_node_id, LocalPeerLeft from_node_id]))"

text \<open>
  The end of the forwarded range is moved back by the size of the measurement entry; a message that
  is shorter than that gives a range before its own beginning.
\<close>

definition receivePeerState ::
    "('n, 'ip, 'ps) link_api \<Rightarrow> 'ip UdpEndpoint \<Rightarrow> 'n MessageHeader \<Rightarrow> bytes \<Rightarrow> bytes \<Rightarrow> 'n option \<Rightarrow> time \<Rightarrow>
       ('n, 'ip) TunnelGateway \<Rightarrow> fault + ('n, 'ip, 'ps) gateway_result" where
  "receivePeerState A fromEndpoint header msg payload to_node_id now g =
     (case fromPayload A (ident header) payload of
        None \<Rightarrow> Inr (g, [])
      | Some st \<Rightarrow>
          (let (tr, armed) = updateTimeout (peer_ident A st) (ttl header) now (mLocalTracker g);
               g1 = g\<lparr>localNodeIdToEndpointMap := (localNodeIdToEndpointMap g)
                        (ident header \<mapsto> \<lparr>stateEndpoint = fromEndpoint, measurementEndpoint = peer_endpoint A st\<rparr>),
                      localMeasurementEndpointToNodeId := (localMeasurementEndpointToNodeId g)
                        (createKeyFromEndpoint A (peer_endpoint A st) \<mapsto> ident header),
                      mLocalTracker := tr\<rparr>;
               size = measurement_entry_size A (peer_endpoint A st)
           in if length msg < size then Inl BufferOverrun
              else Inr (g1, SawLocalPeer st # arm_local armed @
                            [forwardMessage (if to_node_id \<noteq> None then UNICAST else BROADCAST) (ident header)
                               (take (length msg - size) msg) to_node_id])))"

definition handle_state_message ::
    "('n, 'ip, 'ps) link_api \<Rightarrow> 'ip UdpEndpoint \<Rightarrow> 'n MessageHeader \<Rightarrow> bytes \<Rightarrow> bytes \<Rightarrow> 'n option \<Rightarrow> time \<Rightarrow>
       ('n, 'ip) TunnelGateway \<Rightarrow> fault + ('n, 'ip, 'ps) gateway_result" where
  "handle_state_message A fromEndpoint header msg payload to_node_id now g =
     (if hasRemoteNodeSurrogate (ident header) g then Inr (g, [])
      else (case messageType header of
              kAlive \<Rightarrow> receivePeerState A fromEndpoint header msg payload to_node_id now g
            | kResponse \<Rightarrow> receivePeerState A fromEndpoint header msg payload to_node_id now g
            | kByeBye \<Rightarrow> Inr (receiveByeBye A (ident header) msg to_node_id g)
            | kUnknown _ \<Rightarrow> Inr (g, [])))"

definition handle_measurement_message ::
    "('n, 'ip, 'ps) link_api \<Rightarrow> 'ip UdpEndpoint \<Rightarrow> bytes \<Rightarrow> 'n \<Rightarrow> 'n \<Rightarrow> ('n, 'ip) TunnelGateway \<Rightarrow>
       ('n, 'ip, 'ps) gateway_result" where
  "handle_measurement_message A fromEndpoint msg to_node_id random_id g =
     (let key = createKeyFromEndpoint A fromEndpoint
      in if is_ping A msg then
           (case localMeasurementEndpointToNodeId g key of
              None \<Rightarrow>
                (g\<lparr>localMeasurementEndpointToNodeId := (localMeasurementEndpointToNodeId g)(key \<mapsto> random_id),
                   localNodeIdToEndpointMap := (localNodeIdToEndpointMap g)
                     (random_id \<mapsto> \<lparr>stateEndpoint = default_endpoint A, measurementEndpoint = fromEndpoint\<rparr>)\<rparr>,
                 [forwardMessage MEASUREMENT_PING random_id msg (Some to_node_id)])
            | Some n \<Rightarrow> (g, [forwardMessage MEASUREMENT_PING n msg (Some to_node_id)]))
         else
           (case localMeasurementEndpointToNodeId g key of
              None \<Rightarrow> (g, [])
            | Some n \<Rightarrow> (g, [forwardMessage MEASUREMENT_PONG n msg (Some to_node_id)])))"

text \<open>
  \<open>operator()\<close>: a discovery message on the multicast socket (\<open>to_node_id = None\<close>) or on the state
  socket of the surrogate of \<open>to_node_id\<close>.
\<close>

definition gateway_receive ::
    "('n, 'ip, 'ps) link_api \<Rightarrow> 'ip UdpEndpoint \<Rightarrow> bytes \<Rightarrow> 'n option \<Rightarrow> time \<Rightarrow> ('n, 'ip) TunnelGateway \<Rightarrow>
       fault + ('n, 'ip, 'ps) gateway_result" where
  "gateway_receive A fromEndpoint msg to_node_id now g =
     (let (header, payload) = parseMessageHeader A msg;
          ignoreIpV4Message =
            (is_v4 A (ep_address fromEndpoint) \<and> is_v4 A (local_interface_address g) \<and>
             \<not> in_subnet24 A (local_interface_address g) (ep_address fromEndpoint))
      in case (if \<not> ignoreIpV4Message
               then handle_state_message A fromEndpoint header msg payload to_node_id now g
               else Inr (g, [])) of
           Inl f \<Rightarrow> Inl f
         | Inr (g1, acts) \<Rightarrow>
             (if gateway_running g1 then
                (case to_node_id of
                   None \<Rightarrow> Inr (g1, acts @ [ReceiveMulticast])
                 | Some n \<Rightarrow>
                     (case mRemoteNodeIdToRemoteNodeSurrogate g1 n of
                        None \<Rightarrow> Inl NullPointer
                      | Some s \<Rightarrow> Inr (g1, acts @ [ReceiveState n])))
              else Inr (g1, acts)))"

text \<open>
  \<open>operator()\<close> of the two surrogates: a message on a measurement socket. The handler holds a weak
  pointer to its surrogate, so it does nothing once the surrogate is gone.
\<close>

definition surrogate_receive ::
    "('n, 'ip, 'ps) link_api \<Rightarrow> 'n \<Rightarrow> 'ip UdpEndpoint \<Rightarrow> bytes \<Rightarrow> 'n \<Rightarrow> ('n, 'ip) TunnelGateway \<Rightarrow>
       ('n, 'ip, 'ps) gateway_result" where
  "surrogate_receive A n fromEndpoint msg random_id g =
     (case mRemoteNodeIdToRemoteNodeSurrogate g n of
        None \<Rightarrow> (g, [])
      | Some s \<Rightarrow>
          (let (g1, acts) = handle_measurement_message A fromEndpoint msg n random_id g
           in (g1, acts @ (if surrogate_running s then [ReceiveMeasurement n] else []))))"

definition ping_surrogate_receive ::
    "('n, 'ip, 'ps) link_api \<Rightarrow> 'n \<Rightarrow> 'ip UdpEndpoint \<Rightarrow> bytes \<Rightarrow> 'n \<Rightarrow> ('n, 'ip) TunnelGateway \<Rightarrow>
       ('n, 'ip, 'ps) gateway_result" where
  "ping_surrogate_receive A n fromEndpoint msg random_id g =
     (case mRemoteNodeIdToRemoteMeasurementSurrogate g n of
        None \<Rightarrow> (g, [])
      | Some s \<Rightarrow>
          (let (g1, acts) = handle_measurement_message A fromEndpoint msg n random_id g
           in (g1, acts @ (if ping_running s then [ReceivePing n] else []))))"

subsection \<open>Messages of remote nodes\<close>

text \<open>
  The constructors of the surrogates: the sockets get the next free numbers, and the constructor throws
  (\<open>None\<close>) when one cannot be opened. They leave \<open>is_running\<close> uninitialised, here false; \<open>listen\<close>,
  which is called before anything reads it, sets it.
\<close>

definition RemoteNodeSurrogate_init :: "('n, 'ip, 'ps) link_api \<Rightarrow> nat \<Rightarrow> RemoteNodeSurrogate option" where
  "RemoteNodeSurrogate_init A k =
     (if can_open A k \<and> can_open A (k + 1)
      then Some \<lparr>stateSocket = k, measurementSocket = k + 1, surrogate_running = False\<rparr> else None)"

definition RemoteNodeSurrogate_listen ::
    "'n \<Rightarrow> RemoteNodeSurrogate \<Rightarrow> RemoteNodeSurrogate \<times> ('n, 'ip, 'ps) gateway_action list" where
  "RemoteNodeSurrogate_listen n s = (s\<lparr>surrogate_running := True\<rparr>, [ReceiveState n, ReceiveMeasurement n])"

definition RemoteMeasurementSurrogate_init :: "('n, 'ip, 'ps) link_api \<Rightarrow> nat \<Rightarrow> RemoteMeasurementSurrogate option" where
  "RemoteMeasurementSurrogate_init A k =
     (if can_open A k then Some \<lparr>pingSocket = k, ping_running = False\<rparr> else None)"

definition RemoteMeasurementSurrogate_listen ::
    "'n \<Rightarrow> RemoteMeasurementSurrogate \<Rightarrow> RemoteMeasurementSurrogate \<times> ('n, 'ip, 'ps) gateway_action list" where
  "RemoteMeasurementSurrogate_listen n s = (s\<lparr>ping_running := True\<rparr>, [ReceivePing n])"

text \<open>The sockets of a remote node; \<open>None\<close> when the constructor of the surrogate throws.\<close>

definition getSocketForRemoteNode ::
    "('n, 'ip, 'ps) link_api \<Rightarrow> 'n \<Rightarrow> bool \<Rightarrow> ('n, 'ip) TunnelGateway \<Rightarrow>
       (nat \<times> ('n, 'ip, 'ps) gateway_result) option" where
  "getSocketForRemoteNode A n getMeasurementSocket g =
     (case mRemoteNodeIdToRemoteNodeSurrogate g n of
        Some s \<Rightarrow> Some (if getMeasurementSocket then measurementSocket s else stateSocket s, g, [])
      | None \<Rightarrow>
          (case RemoteNodeSurrogate_init A (next_socket g) of
             None \<Rightarrow> None
           | Some s0 \<Rightarrow>
               (let (s, acts) = RemoteNodeSurrogate_listen n s0
                in Some (if getMeasurementSocket then measurementSocket s else stateSocket s,
                         g\<lparr>mRemoteNodeIdToRemoteNodeSurrogate := (mRemoteNodeIdToRemoteNodeSurrogate g)(n \<mapsto> s),
                           next_socket := next_socket g + 2\<rparr>,
                         acts))))"

definition getSocketForRemoteMeasurement ::
    "('n, 'ip, 'ps) link_api \<Rightarrow> 'n \<Rightarrow> ('n, 'ip) TunnelGateway \<Rightarrow> (nat \<times> ('n, 'ip, 'ps) gateway_result) option" where
  "getSocketForRemoteMeasurement A n g =
     (case mRemoteNodeIdToRemoteMeasurementSurrogate g n of
        Some s \<Rightarrow> Some (pingSocket s, g, [])
      | None \<Rightarrow>
          (case RemoteMeasurementSurrogate_init A (next_socket g) of
             None \<Rightarrow> None
           | Some s0 \<Rightarrow>
               (let (s, acts) = RemoteMeasurementSurrogate_listen n s0
                in Some (pingSocket s,
                         g\<lparr>mRemoteNodeIdToRemoteMeasurementSurrogate :=
                             (mRemoteNodeIdToRemoteMeasurementSurrogate g)(n \<mapsto> s),
                           next_socket := next_socket g + 1\<rparr>,
                         acts))))"

lemma getSocketForRemoteNode_eq:
  "getSocketForRemoteNode A n getMeasurementSocket g =
     (case mRemoteNodeIdToRemoteNodeSurrogate g n of
        Some s \<Rightarrow> Some (if getMeasurementSocket then measurementSocket s else stateSocket s, g, [])
      | None \<Rightarrow>
          (let k = next_socket g; s = \<lparr>stateSocket = k, measurementSocket = k + 1, surrogate_running = True\<rparr>
           in if can_open A k \<and> can_open A (k + 1) then
                Some (if getMeasurementSocket then measurementSocket s else stateSocket s,
                      g\<lparr>mRemoteNodeIdToRemoteNodeSurrogate := (mRemoteNodeIdToRemoteNodeSurrogate g)(n \<mapsto> s),
                        next_socket := k + 2\<rparr>,
                      [ReceiveState n, ReceiveMeasurement n])
              else None))"
  by (simp add: getSocketForRemoteNode_def RemoteNodeSurrogate_init_def RemoteNodeSurrogate_listen_def Let_def
      split: option.split)

lemma getSocketForRemoteMeasurement_eq:
  "getSocketForRemoteMeasurement A n g =
     (case mRemoteNodeIdToRemoteMeasurementSurrogate g n of
        Some s \<Rightarrow> Some (pingSocket s, g, [])
      | None \<Rightarrow>
          (let k = next_socket g
           in if can_open A k then
                Some (k, g\<lparr>mRemoteNodeIdToRemoteMeasurementSurrogate :=
                             (mRemoteNodeIdToRemoteMeasurementSurrogate g)(n \<mapsto> \<lparr>pingSocket = k, ping_running = True\<rparr>),
                           next_socket := k + 1\<rparr>,
                      [ReceivePing n])
              else None))"
  by (simp add: getSocketForRemoteMeasurement_def RemoteMeasurementSurrogate_init_def RemoteMeasurementSurrogate_listen_def
      Let_def split: option.split)

definition getBroadcastEndpoint :: "('n, 'ip, 'ps) link_api \<Rightarrow> ('n, 'ip) TunnelGateway \<Rightarrow> 'ip UdpEndpoint" where
  "getBroadcastEndpoint A g =
     (if is_v4 A (local_interface_address g) then multicastEndpointV4 A
      else multicastEndpointV6 A (local_interface_address g))"

definition ipV6Endpoint ::
    "('n, 'ip, 'ps) link_api \<Rightarrow> 'ip UdpEndpoint \<Rightarrow> ('n, 'ip) TunnelGateway \<Rightarrow> 'ip UdpEndpoint option" where
  "ipV6Endpoint A ep g =
     (case scoped_v6 A (local_interface_address g) (ep_address ep) of
        None \<Rightarrow> None
      | Some a \<Rightarrow> Some \<lparr>ep_address = a, ep_port = ep_port ep\<rparr>)"

text \<open>
  The outcome of \<open>resolveDestination\<close>: a socket and an endpoint, or nothing, either because it returns
  \<open>std::nullopt\<close> or because it throws; the caller treats both alike. Surrogates made on the way stay.
\<close>

definition destination_of ::
    "('n, 'ip, 'ps) link_api \<Rightarrow> TunnelMessageType \<Rightarrow> 'n \<Rightarrow> 'n option \<Rightarrow> ('n, 'ip) TunnelGateway \<Rightarrow>
       ('ip UdpEndpoint \<times> (nat \<times> ('n, 'ip, 'ps) gateway_result) option) option" where
  "destination_of A mt from_node_id to_node_id g =
     (let local = (\<lambda>f. case to_node_id of None \<Rightarrow> None | Some n \<Rightarrow> map_option f (localNodeIdToEndpointMap g n))
      in case mt of
           MEASUREMENT_PING \<Rightarrow>
             map_option (\<lambda>ep. (ep, getSocketForRemoteMeasurement A from_node_id g)) (local measurementEndpoint)
         | MEASUREMENT_PONG \<Rightarrow>
             map_option (\<lambda>ep. (ep, getSocketForRemoteNode A from_node_id True g)) (local measurementEndpoint)
         | BYEBYE \<Rightarrow> Some (getBroadcastEndpoint A g, getSocketForRemoteNode A from_node_id False g)
         | BROADCAST \<Rightarrow> Some (getBroadcastEndpoint A g, getSocketForRemoteNode A from_node_id False g)
         | _ \<Rightarrow> map_option (\<lambda>ep. (ep, getSocketForRemoteNode A from_node_id False g)) (local stateEndpoint))"

definition resolveDestination ::
    "('n, 'ip, 'ps) link_api \<Rightarrow> TunnelMessageType \<Rightarrow> 'n \<Rightarrow> 'n option \<Rightarrow> ('n, 'ip) TunnelGateway \<Rightarrow>
       fault + (nat \<times> 'ip UdpEndpoint) option \<times> ('n, 'ip, 'ps) gateway_result" where
  "resolveDestination A mt from_node_id to_node_id g =
     (if (mt = UNICAST \<or> mt = MEASUREMENT_PING) \<and> to_node_id = None then Inl EmptyOptional
      else if (mt = UNICAST \<or> mt = MEASUREMENT_PING) \<and> \<not> hasLocalNode (the to_node_id) g then Inr (None, g, [])
      else if mt \<noteq> BYEBYE \<and> mt \<noteq> BROADCAST \<and> (to_node_id = None \<or> \<not> hasLocalNode (the to_node_id) g)
      then Inr (None, g, [])
      else (case destination_of A mt from_node_id to_node_id g of
              None \<Rightarrow> Inr (None, g, [])
            | Some (to, None) \<Rightarrow> Inr (None, g, [])
            | Some (to, Some (socket, g1, acts)) \<Rightarrow>
                (if is_v4 A (ep_address to) then Inr (Some (socket, to), g1, acts)
                 else (case ipV6Endpoint A to g1 of
                         None \<Rightarrow> Inr (None, g1, acts)
                       | Some to6 \<Rightarrow> Inr (Some (socket, to6), g1, acts)))))"

definition observeRemotePeerState ::
    "('n, 'ip, 'ps) link_api \<Rightarrow> 'n \<Rightarrow> bytes \<Rightarrow> time \<Rightarrow> ('n, 'ip) TunnelGateway \<Rightarrow> ('n, 'ip, 'ps) gateway_result" where
  "observeRemotePeerState A from_node_id msg now g =
     (let (header, payload) = parseMessageHeader A msg
      in case fromPayload A from_node_id payload of
           None \<Rightarrow> (g, [])
         | Some st \<Rightarrow>
             (let (tr, armed) = updateTimeout (peer_ident A st) (ttl header) now (mRemoteTracker g)
              in (g\<lparr>mRemoteTracker := tr\<rparr>, SawRemotePeer st # arm_remote armed)))"

definition onRemotePeerLeft :: "'n \<Rightarrow> ('n, 'ip) TunnelGateway \<Rightarrow> ('n, 'ip, 'ps) gateway_result" where
  "onRemotePeerLeft n g = (g\<lparr>mRemoteTracker := tracker_remove n (mRemoteTracker g)\<rparr>, [RemotePeerLeft n])"

text \<open>The message that is sent; \<open>None\<close> when the socket of the remote node cannot be opened.\<close>

definition appendMeasurementEndpoint ::
    "('n, 'ip, 'ps) link_api \<Rightarrow> 'n \<Rightarrow> bytes \<Rightarrow> ('n, 'ip) TunnelGateway \<Rightarrow>
       (bytes \<times> ('n, 'ip, 'ps) gateway_result) option" where
  "appendMeasurementEndpoint A from_node_id msg g =
     (case getSocketForRemoteNode A from_node_id True g of
        None \<Rightarrow> None
      | Some (socket, g1, acts) \<Rightarrow>
          (let measurementPayload = measurement_payload A (socket_endpoint A socket)
           in Some (if length msg + length measurementPayload < max_message_size A
                    then msg @ measurementPayload else msg,
                    g1, acts)))"

definition sendUdpMessage :: "nat \<Rightarrow> bytes \<Rightarrow> 'ip UdpEndpoint \<Rightarrow> ('n, 'ip, 'ps) gateway_action list" where
  "sendUdpMessage socket msg to = [SendUdp socket msg to]"

definition forwardMessageLocally ::
    "('n, 'ip, 'ps) link_api \<Rightarrow> TunnelMessageType \<Rightarrow> 'n \<Rightarrow> bytes \<Rightarrow> 'n option \<Rightarrow> time \<Rightarrow> ('n, 'ip) TunnelGateway \<Rightarrow>
       fault + ('n, 'ip, 'ps) gateway_result" where
  "forwardMessageLocally A mt from_node_id msg to_node_id now g =
     (case resolveDestination A mt from_node_id to_node_id g of
        Inl f \<Rightarrow> Inl f
      | Inr (None, g1, acts1) \<Rightarrow> Inr (g1, acts1)
      | Inr (Some (socket, to), g1, acts1) \<Rightarrow>
          (let (g2, acts2) =
                 (if mt = BROADCAST \<or> mt = UNICAST then observeRemotePeerState A from_node_id msg now g1
                  else if mt = BYEBYE then onRemotePeerLeft from_node_id g1
                  else (g1, []))
           in if mt \<noteq> MEASUREMENT_PING \<and> mt \<noteq> BYEBYE then
                (case appendMeasurementEndpoint A from_node_id msg g2 of
                   None \<Rightarrow> Inr (g2, acts1 @ acts2)
                 | Some (msg', g3, acts3) \<Rightarrow> Inr (g3, acts1 @ acts2 @ acts3 @ sendUdpMessage socket msg' to))
              else Inr (g2, acts1 @ acts2 @ sendUdpMessage socket msg to)))"

subsection \<open>Timeouts\<close>

definition onLocalPeerTimedOut ::
    "('n, 'ip, 'ps) link_api \<Rightarrow> 'n \<Rightarrow> ('n, 'ip) TunnelGateway \<Rightarrow> ('n, 'ip, 'ps) gateway_result" where
  "onLocalPeerTimedOut A n g =
     ((case localNodeIdToEndpointMap g n of
         None \<Rightarrow> g
       | Some e \<Rightarrow>
           g\<lparr>localMeasurementEndpointToNodeId :=
               (localMeasurementEndpointToNodeId g)(createKeyFromEndpoint A (measurementEndpoint e) := None),
             localNodeIdToEndpointMap := (localNodeIdToEndpointMap g)(n := None)\<rparr>),
      [LocalPeerTimedOut n])"

definition onRemotePeerTimedOut :: "'n \<Rightarrow> ('n, 'ip) TunnelGateway \<Rightarrow> ('n, 'ip, 'ps) gateway_result" where
  "onRemotePeerTimedOut n g =
     (g\<lparr>mRemoteNodeIdToRemoteNodeSurrogate := (mRemoteNodeIdToRemoteNodeSurrogate g)(n := None),
        mRemoteNodeIdToRemoteMeasurementSurrogate := (mRemoteNodeIdToRemoteMeasurementSurrogate g)(n := None)\<rparr>,
      [RemotePeerTimedOut n])"

fun expire_all ::
    "('n \<Rightarrow> ('n, 'ip) TunnelGateway \<Rightarrow> ('n, 'ip, 'ps) gateway_result) \<Rightarrow> 'n list \<Rightarrow> ('n, 'ip) TunnelGateway \<Rightarrow>
       ('n, 'ip, 'ps) gateway_result" where
  "expire_all on_expire [] g = (g, [])"
| "expire_all on_expire (n # ns) g =
     (let (g1, acts) = on_expire n g; (g2, acts') = expire_all on_expire ns g1 in (g2, acts @ acts'))"

text \<open>The timers of the two trackers fire: \<open>prune\<close> with the callbacks the constructor installs.\<close>

definition prune_local ::
    "('n, 'ip, 'ps) link_api \<Rightarrow> time \<Rightarrow> ('n, 'ip) TunnelGateway \<Rightarrow> ('n, 'ip, 'ps) gateway_result" where
  "prune_local A now g =
     (let (tr, expired, armed) = prune (no_node A) now (mLocalTracker g);
          (g1, acts) = expire_all (onLocalPeerTimedOut A) expired g
      in (g1\<lparr>mLocalTracker := tr\<rparr>, acts @ arm_local armed))"

definition prune_remote ::
    "('n, 'ip, 'ps) link_api \<Rightarrow> time \<Rightarrow> ('n, 'ip) TunnelGateway \<Rightarrow> ('n, 'ip, 'ps) gateway_result" where
  "prune_remote A now g =
     (let (tr, expired, armed) = prune (no_node A) now (mRemoteTracker g);
          (g1, acts) = expire_all onRemotePeerTimedOut expired g
      in (g1\<lparr>mRemoteTracker := tr\<rparr>, acts @ arm_remote armed))"

end
