(* ===== verification/TunnelGateway_Properties.thy ===== *)
theory TunnelGateway_Properties
  imports TunnelGateway
begin

text \<open>
  The gateway as a state machine: one rule of \<open>gateway_step\<close> per way it is entered. Its invariant
  (sorted trackers, every socket owned by one surrogate), what it plays into the local network and
  to whom, and that it never feeds its own surrogates back into the tunnel.
\<close>


subsection \<open>Steps\<close>

inductive gateway_step ::
    "('n, 'ip, 'ps) link_api \<Rightarrow> ('n, 'ip) TunnelGateway \<Rightarrow> ('n, 'ip, 'ps) gateway_action list \<Rightarrow>
       ('n, 'ip) TunnelGateway \<Rightarrow> bool" for A where
  gw_listen: "gateway_listen g = (g', acts) \<Longrightarrow> gateway_step A g acts g'"
| gw_stop: "gateway_step A g [] (gateway_stop_listening g)"
| gw_state: "gateway_receive A ep msg to now g = Inr (g', acts) \<Longrightarrow> gateway_step A g acts g'"
| gw_measurement: "surrogate_receive A n ep msg random_id g = (g', acts) \<Longrightarrow> gateway_step A g acts g'"
| gw_ping: "ping_surrogate_receive A n ep msg random_id g = (g', acts) \<Longrightarrow> gateway_step A g acts g'"
| gw_play: "forwardMessageLocally A mt from msg to now g = Inr (g', acts) \<Longrightarrow> gateway_step A g acts g'"
| gw_prune_local: "prune_local A now g = (g', acts) \<Longrightarrow> gateway_step A g acts g'"
| gw_prune_remote: "prune_remote A now g = (g', acts) \<Longrightarrow> gateway_step A g acts g'"

subsection \<open>Sockets and their owners\<close>

datatype 'n owner = StateOf 'n | MeasurementOf 'n | PingOf 'n

definition socket_of :: "('n, 'ip) TunnelGateway \<Rightarrow> 'n owner \<Rightarrow> nat option" where
  "socket_of g w =
     (case w of
        StateOf n \<Rightarrow> map_option stateSocket (mRemoteNodeIdToRemoteNodeSurrogate g n)
      | MeasurementOf n \<Rightarrow> map_option measurementSocket (mRemoteNodeIdToRemoteNodeSurrogate g n)
      | PingOf n \<Rightarrow> map_option pingSocket (mRemoteNodeIdToRemoteMeasurementSurrogate g n))"

definition sockets_ok :: "('n, 'ip) TunnelGateway \<Rightarrow> bool" where
  "sockets_ok g \<longleftrightarrow> (\<forall>w k. socket_of g w = Some k \<longrightarrow> k < next_socket g) \<and>
     (\<forall>w w' k. socket_of g w = Some k \<longrightarrow> socket_of g w' = Some k \<longrightarrow> w = w')"

definition gateway_ok :: "('n, 'ip) TunnelGateway \<Rightarrow> bool" where
  "gateway_ok g \<longleftrightarrow> tracker_ok (mLocalTracker g) \<and> tracker_ok (mRemoteTracker g) \<and> sockets_ok g"

lemma sockets_ok_fewer:
  assumes "sockets_ok g" "next_socket g \<le> next_socket g'"
    and "\<And>w k. socket_of g' w = Some k \<Longrightarrow> socket_of g w = Some k"
  shows "sockets_ok g'"
  using assms unfolding sockets_ok_def by (meson less_le_trans)

lemma sockets_ok_same:
  assumes "mRemoteNodeIdToRemoteNodeSurrogate g' = mRemoteNodeIdToRemoteNodeSurrogate g"
    "mRemoteNodeIdToRemoteMeasurementSurrogate g' = mRemoteNodeIdToRemoteMeasurementSurrogate g"
    "next_socket g' = next_socket g"
  shows "sockets_ok g' \<longleftrightarrow> sockets_ok g"
proof -
  have "socket_of g' = socket_of g" using assms by (auto simp: socket_of_def fun_eq_iff split: owner.splits)
  then show ?thesis using assms(3) by (simp add: sockets_ok_def)
qed

lemma socket_of_node_update:
  "socket_of (g\<lparr>mRemoteNodeIdToRemoteNodeSurrogate := (mRemoteNodeIdToRemoteNodeSurrogate g)(n \<mapsto> s), next_socket := m\<rparr>) w =
     (if w = StateOf n then Some (stateSocket s) else if w = MeasurementOf n then Some (measurementSocket s)
      else socket_of g w)"
  by (cases w) (auto simp: socket_of_def)

lemma socket_of_ping_update:
  "socket_of (g\<lparr>mRemoteNodeIdToRemoteMeasurementSurrogate :=
      (mRemoteNodeIdToRemoteMeasurementSurrogate g)(n \<mapsto> s), next_socket := m\<rparr>) w =
     (if w = PingOf n then Some (pingSocket s) else socket_of g w)"
  by (cases w) (auto simp: socket_of_def)

lemma sockets_ok_new_node:
  assumes "sockets_ok g"
  shows "sockets_ok (g\<lparr>mRemoteNodeIdToRemoteNodeSurrogate := (mRemoteNodeIdToRemoteNodeSurrogate g)
      (n \<mapsto> \<lparr>stateSocket = next_socket g, measurementSocket = Suc (next_socket g), surrogate_running = True\<rparr>),
      next_socket := Suc (Suc (next_socket g))\<rparr>)"
proof -
  have less: "k < next_socket g" if "socket_of g w = Some k" for w k using assms that by (simp add: sockets_ok_def)
  have uniq: "w = w'" if "socket_of g w = Some k" "socket_of g w' = Some k" for w w' k
    using assms that unfolding sockets_ok_def by blast
  show ?thesis
    unfolding sockets_ok_def socket_of_node_update
    by (auto split: if_splits dest: less uniq intro: less_SucI)
qed

lemma sockets_ok_new_ping:
  assumes "sockets_ok g"
  shows "sockets_ok (g\<lparr>mRemoteNodeIdToRemoteMeasurementSurrogate := (mRemoteNodeIdToRemoteMeasurementSurrogate g)
      (n \<mapsto> \<lparr>pingSocket = next_socket g, ping_running = True\<rparr>), next_socket := Suc (next_socket g)\<rparr>)"
proof -
  have less: "k < next_socket g" if "socket_of g w = Some k" for w k using assms that by (simp add: sockets_ok_def)
  have uniq: "w = w'" if "socket_of g w = Some k" "socket_of g w' = Some k" for w w' k
    using assms that unfolding sockets_ok_def by blast
  show ?thesis
    unfolding sockets_ok_def socket_of_ping_update
    by (auto split: if_splits dest: less uniq intro: less_SucI)
qed

lemma getSocketForRemoteNode_ok:
  assumes "sockets_ok g" "getSocketForRemoteNode A n b g = Some (k, g', acts)"
  shows "sockets_ok g'"
  using assms sockets_ok_new_node [OF assms(1), of n]
  by (auto simp: getSocketForRemoteNode_eq Let_def split: option.splits if_splits)

lemma getSocketForRemoteMeasurement_ok:
  assumes "sockets_ok g" "getSocketForRemoteMeasurement A n g = Some (k, g', acts)"
  shows "sockets_ok g'"
  using assms sockets_ok_new_ping [OF assms(1), of n]
  by (auto simp: getSocketForRemoteMeasurement_eq Let_def split: option.splits if_splits)

subsection \<open>Frames\<close>

text \<open>What the socket operations leave alone: everything but the surrogates and the socket counter.\<close>

definition same_tables :: "('n, 'ip) TunnelGateway \<Rightarrow> ('n, 'ip) TunnelGateway \<Rightarrow> bool" where
  "same_tables g g' \<longleftrightarrow> local_interface_address g' = local_interface_address g \<and> gateway_running g' = gateway_running g \<and>
     mLocalTracker g' = mLocalTracker g \<and> mRemoteTracker g' = mRemoteTracker g \<and>
     localNodeIdToEndpointMap g' = localNodeIdToEndpointMap g \<and>
     localMeasurementEndpointToNodeId g' = localMeasurementEndpointToNodeId g \<and>
     (\<forall>n s. mRemoteNodeIdToRemoteNodeSurrogate g n = Some s \<longrightarrow> mRemoteNodeIdToRemoteNodeSurrogate g' n = Some s)"

lemma same_tables_refl [simp]: "same_tables g g"
  by (simp add: same_tables_def)

lemma getSocketForRemoteNode_frame:
  assumes "getSocketForRemoteNode A n b g = Some (k, g', acts)"
  shows "same_tables g g' \<and> (\<exists>s. mRemoteNodeIdToRemoteNodeSurrogate g' n = Some s \<and>
     k = (if b then measurementSocket s else stateSocket s)) \<and> (\<forall>x \<in> set acts. x \<in> {ReceiveState n, ReceiveMeasurement n})"
  using assms by (auto simp: getSocketForRemoteNode_eq same_tables_def Let_def split: option.splits if_splits)

lemma getSocketForRemoteMeasurement_frame:
  assumes "getSocketForRemoteMeasurement A n g = Some (k, g', acts)"
  shows "same_tables g g' \<and> (\<exists>s. mRemoteNodeIdToRemoteMeasurementSurrogate g' n = Some s \<and> k = pingSocket s) \<and>
     (\<forall>x \<in> set acts. x = ReceivePing n)"
  using assms by (auto simp: getSocketForRemoteMeasurement_eq same_tables_def Let_def split: option.splits if_splits)

lemma destination_of_frame:
  assumes "destination_of A mt src to g = Some (ep, Some (k, g', acts))"
  shows "same_tables g g' \<and> (sockets_ok g \<longrightarrow> sockets_ok g') \<and>
     (\<forall>x \<in> set acts. x \<in> {ReceiveState src, ReceiveMeasurement src, ReceivePing src})"
proof -
  consider b where "getSocketForRemoteNode A src b g = Some (k, g', acts)"
    | "getSocketForRemoteMeasurement A src g = Some (k, g', acts)"
    using assms by (cases mt) (auto simp: destination_of_def Let_def)
  then show ?thesis
  proof cases
    case 1
    with getSocketForRemoteNode_frame [OF 1] getSocketForRemoteNode_ok [OF _ 1] show ?thesis by auto
  next
    case 2
    with getSocketForRemoteMeasurement_frame [OF 2] getSocketForRemoteMeasurement_ok [OF _ 2] show ?thesis by auto
  qed
qed

lemma resolveDestination_elim:
  assumes "resolveDestination A mt src to g = Inr (r, g', acts)"
  obtains (unrouted) "g' = g" "acts = []" "r = None"
  | (routed) ep k where "destination_of A mt src to g = Some (ep, Some (k, g', acts))"
      "r = (if is_v4 A (ep_address ep) then Some (k, ep) else map_option (Pair k) (ipV6Endpoint A ep g'))"
  using assms by (auto simp: resolveDestination_def split: if_splits option.splits)

definition receives_only :: "'n \<Rightarrow> ('n, 'ip, 'ps) gateway_action list \<Rightarrow> bool" where
  "receives_only n acts \<longleftrightarrow> set acts \<subseteq> {ReceiveState n, ReceiveMeasurement n, ReceivePing n}"

lemma resolveDestination_frame:
  assumes "resolveDestination A mt src to g = Inr (r, g', acts)"
  shows "same_tables g g'" "sockets_ok g \<Longrightarrow> sockets_ok g'" "receives_only src acts"
  using assms
  by (cases rule: resolveDestination_elim;
      use destination_of_frame [of A mt src to g _ _ g' acts] in \<open>force simp: receives_only_def\<close>)+

subsection \<open>Every operation keeps the invariant\<close>

text \<open>What the handlers of local messages leave alone.\<close>

definition same_remote :: "('n, 'ip) TunnelGateway \<Rightarrow> ('n, 'ip) TunnelGateway \<Rightarrow> bool" where
  "same_remote g g' \<longleftrightarrow> local_interface_address g' = local_interface_address g \<and> gateway_running g' = gateway_running g \<and>
     mRemoteTracker g' = mRemoteTracker g \<and>
     mRemoteNodeIdToRemoteNodeSurrogate g' = mRemoteNodeIdToRemoteNodeSurrogate g \<and>
     mRemoteNodeIdToRemoteMeasurementSurrogate g' = mRemoteNodeIdToRemoteMeasurementSurrogate g \<and>
     next_socket g' = next_socket g"

lemma same_remote_ok:
  "same_remote g g' \<Longrightarrow> tracker_ok (mLocalTracker g') \<Longrightarrow> gateway_ok g \<Longrightarrow> gateway_ok g'"
  using sockets_ok_same [of g' g] by (simp add: gateway_ok_def same_remote_def)

lemma receivePeerState_frame:
  assumes "receivePeerState A ep h msg payload to now g = Inr (g', acts)"
  shows "same_remote g g'" "tracker_ok (mLocalTracker g) \<Longrightarrow> tracker_ok (mLocalTracker g')"
  using assms tracker_ok_update [of "mLocalTracker g"]
  by (auto simp: receivePeerState_def same_remote_def Let_def split_beta split: option.splits if_splits)

lemma handle_state_message_frame:
  assumes "handle_state_message A ep h msg payload to now g = Inr (g', acts)"
  shows "same_remote g g'" "tracker_ok (mLocalTracker g) \<Longrightarrow> tracker_ok (mLocalTracker g')"
proof -
  have "same_remote g g' \<and> (tracker_ok (mLocalTracker g) \<longrightarrow> tracker_ok (mLocalTracker g'))"
    using assms receivePeerState_frame [of A ep h msg payload to now g g' acts] tracker_ok_remove [of "mLocalTracker g"]
    by (auto simp: handle_state_message_def receiveByeBye_def same_remote_def Let_def
        split: if_splits discovery_message.splits)
  then show "same_remote g g'" "tracker_ok (mLocalTracker g) \<Longrightarrow> tracker_ok (mLocalTracker g')" by blast+
qed

lemma gateway_receive_elim:
  assumes "gateway_receive A ep msg to now g = Inr (g', acts)"
  obtains acts' where "handle_state_message A ep (fst (parseMessageHeader A msg)) msg (snd (parseMessageHeader A msg)) to now g =
      Inr (g', acts') \<or> (g' = g \<and> acts' = [])"
    "acts = acts' \<or> acts = acts' @ [ReceiveMulticast] \<or> (\<exists>n. acts = acts' @ [ReceiveState n])"
proof -
  let ?h = "handle_state_message A ep (fst (parseMessageHeader A msg)) msg (snd (parseMessageHeader A msg)) to now g"
  define r where "r = (if \<not> (is_v4 A (ep_address ep) \<and> is_v4 A (local_interface_address g) \<and>
      \<not> in_subnet24 A (local_interface_address g) (ep_address ep)) then ?h else Inr (g, []))"
  obtain g1 acts1 where r1: "r = Inr (g1, acts1)" and "g' = g1"
    "acts = acts1 \<or> acts = acts1 @ [ReceiveMulticast] \<or> (\<exists>n. acts = acts1 @ [ReceiveState n])"
    using assms unfolding gateway_receive_def Let_def r_def [symmetric] split_beta
    by (auto split: sum.splits if_splits option.splits)
  moreover have "?h = Inr (g1, acts1) \<or> (g1 = g \<and> acts1 = [])" using r1 by (auto simp: r_def split: if_splits)
  ultimately show ?thesis using that by blast
qed

lemma handle_measurement_message_frame:
  assumes "handle_measurement_message A ep msg to random_id g = (g', acts)"
  shows "same_remote g g'" "mLocalTracker g' = mLocalTracker g"
    "\<And>n. RemotePeerTimedOut n \<notin> set acts"
  using assms
  by (auto simp: handle_measurement_message_def same_remote_def Let_def split: if_splits option.splits)

lemma surrogate_receive_frame:
  assumes "surrogate_receive A n ep msg random_id g = (g', acts) \<or> ping_surrogate_receive A n ep msg random_id g = (g', acts)"
  shows "same_remote g g'" "mLocalTracker g' = mLocalTracker g"
proof -
  have "g' = g \<or> (\<exists>acts'. handle_measurement_message A ep msg n random_id g = (g', acts'))"
    using assms by (auto simp: surrogate_receive_def ping_surrogate_receive_def split: option.splits prod.splits)
  then have "same_remote g g' \<and> mLocalTracker g' = mLocalTracker g"
    by (auto simp: same_remote_def dest: handle_measurement_message_frame(2) handle_measurement_message_frame(1) [unfolded same_remote_def])
  then show "same_remote g g'" "mLocalTracker g' = mLocalTracker g" by blast+
qed

lemma observe_frame:
  assumes "observeRemotePeerState A src msg now g = (g', acts)"
  obtains tr where "g' = g\<lparr>mRemoteTracker := tr\<rparr>" "tracker_ok (mRemoteTracker g) \<Longrightarrow> tracker_ok tr"
  using assms tracker_ok_update [of "mRemoteTracker g"] that [of "mRemoteTracker g"]
  by (auto simp: observeRemotePeerState_def split_beta Let_def split: option.splits)

lemma same_tables_ok:
  "same_tables g g' \<Longrightarrow> sockets_ok g' \<Longrightarrow> gateway_ok g \<Longrightarrow> gateway_ok g'"
  by (simp add: gateway_ok_def same_tables_def)

lemma gateway_ok_remote_tracker: "gateway_ok g \<Longrightarrow> tracker_ok tr \<Longrightarrow> gateway_ok (g\<lparr>mRemoteTracker := tr\<rparr>)"
  using sockets_ok_same [of "g\<lparr>mRemoteTracker := tr\<rparr>" g] by (simp add: gateway_ok_def)

text \<open>The three stages of \<open>forwardMessageLocally\<close>: route, observe, append and send.\<close>

definition observed ::
    "('n, 'ip, 'ps) link_api \<Rightarrow> TunnelMessageType \<Rightarrow> 'n \<Rightarrow> bytes \<Rightarrow> time \<Rightarrow> ('n, 'ip) TunnelGateway \<Rightarrow> ('n, 'ip, 'ps) gateway_result" where
  "observed A mt src msg now g =
     (if mt = BROADCAST \<or> mt = UNICAST then observeRemotePeerState A src msg now g
      else if mt = BYEBYE then onRemotePeerLeft src g else (g, []))"

lemma observed_frame:
  assumes "observed A mt src msg now g = (g', acts)"
  obtains tr where "g' = g\<lparr>mRemoteTracker := tr\<rparr>" "tracker_ok (mRemoteTracker g) \<Longrightarrow> tracker_ok tr"
proof (cases "mt = BROADCAST \<or> mt = UNICAST")
  case True
  with assms have "observeRemotePeerState A src msg now g = (g', acts)" by (simp add: observed_def)
  then show ?thesis using that by (rule observe_frame)
next
  case False
  then show ?thesis
    using assms that [of "tracker_remove src (mRemoteTracker g)"] that [of "mRemoteTracker g"]
    by (auto simp: observed_def onRemotePeerLeft_def tracker_ok_remove split: if_splits)
qed

lemma forwardMessageLocally_elim:
  assumes "forwardMessageLocally A mt src msg to now g = Inr (g', acts)"
  obtains (silent) "resolveDestination A mt src to g = Inr (None, g', acts)"
  | (plain) k ep g1 a1 a2 where "resolveDestination A mt src to g = Inr (Some (k, ep), g1, a1)"
      "observed A mt src msg now g1 = (g', a2)" "mt = MEASUREMENT_PING \<or> mt = BYEBYE"
      "acts = a1 @ a2 @ [SendUdp k msg ep]"
  | (extended) k ep g1 a1 g2 a2 msg' a3 where "resolveDestination A mt src to g = Inr (Some (k, ep), g1, a1)"
      "observed A mt src msg now g1 = (g2, a2)" "mt \<noteq> MEASUREMENT_PING" "mt \<noteq> BYEBYE"
      "appendMeasurementEndpoint A src msg g2 = Some (msg', g', a3)" "acts = a1 @ a2 @ a3 @ [SendUdp k msg' ep]"
  | (unsent) k ep g1 a1 a2 where "resolveDestination A mt src to g = Inr (Some (k, ep), g1, a1)"
      "observed A mt src msg now g1 = (g', a2)" "appendMeasurementEndpoint A src msg g' = None" "acts = a1 @ a2"
      "mt \<noteq> MEASUREMENT_PING" "mt \<noteq> BYEBYE"
proof -
  have eq: "forwardMessageLocally A mt src msg to now g =
     (case resolveDestination A mt src to g of
        Inl f \<Rightarrow> Inl f
      | Inr (None, g1, acts1) \<Rightarrow> Inr (g1, acts1)
      | Inr (Some (socket, to), g1, acts1) \<Rightarrow>
          (let (g2, acts2) = observed A mt src msg now g1
           in if mt \<noteq> MEASUREMENT_PING \<and> mt \<noteq> BYEBYE then
                (case appendMeasurementEndpoint A src msg g2 of
                   None \<Rightarrow> Inr (g2, acts1 @ acts2)
                 | Some (msg', g3, acts3) \<Rightarrow> Inr (g3, acts1 @ acts2 @ acts3 @ sendUdpMessage socket msg' to))
              else Inr (g2, acts1 @ acts2 @ sendUdpMessage socket msg to)))"
    by (simp only: forwardMessageLocally_def observed_def)
  obtain r g1 a1 where r: "resolveDestination A mt src to g = Inr (r, g1, a1)"
    using assms eq by (cases "resolveDestination A mt src to g") auto
  obtain g2 a2 where o: "observed A mt src msg now g1 = (g2, a2)" by force
  show ?thesis
  proof (cases r)
    case None
    with assms r eq silent show ?thesis by simp
  next
    case (Some p)
    obtain k ep where p: "p = (k, ep)" by force
    note fwd = assms [unfolded eq r Some p, simplified, unfolded o, simplified]
    show ?thesis
    proof (cases "mt = MEASUREMENT_PING \<or> mt = BYEBYE")
      case True
      with fwd plain [of k ep g1 a1 a2] r o Some p show ?thesis by (auto simp: sendUdpMessage_def)
    next
      case False
      with fwd extended [of k ep g1 a1 g2 a2] unsent [of k ep g1 a1 a2] r o Some p show ?thesis
        by (auto simp: sendUdpMessage_def split: option.splits)
    qed
  qed
qed

lemma appendMeasurementEndpoint_frame:
  assumes "appendMeasurementEndpoint A src msg g = Some (msg', g', acts)"
  obtains k where "getSocketForRemoteNode A src True g = Some (k, g', acts)"
    "msg' = (if length msg + length (measurement_payload A (socket_endpoint A k)) < max_message_size A
             then msg @ measurement_payload A (socket_endpoint A k) else msg)"
  using assms by (auto simp: appendMeasurementEndpoint_def Let_def split: option.splits)

lemma forwardMessageLocally_keeps:
  assumes "forwardMessageLocally A mt src msg to now g = Inr (g', acts)"
  shows "gateway_ok g \<Longrightarrow> gateway_ok g'" "hasRemoteNodeSurrogate n g \<Longrightarrow> hasRemoteNodeSurrogate n g'"
    "gateway_running g' = gateway_running g"
proof -
  have keep: "(gateway_ok g \<longrightarrow> gateway_ok g1) \<and> (hasRemoteNodeSurrogate n g \<longrightarrow> hasRemoteNodeSurrogate n g1) \<and>
      gateway_running g1 = gateway_running g"
    if "resolveDestination A mt src to g = Inr (r, g1, a1)" for r g1 a1
    using resolveDestination_frame [OF that] same_tables_ok [of g g1]
    by (auto simp: gateway_ok_def same_tables_def hasRemoteNodeSurrogate_def)
  have keep2: "(gateway_ok g1 \<longrightarrow> gateway_ok g2) \<and> (hasRemoteNodeSurrogate n g1 \<longrightarrow> hasRemoteNodeSurrogate n g2) \<and>
      gateway_running g2 = gateway_running g1"
    if "observed A mt src msg now g1 = (g2, a2)" for g1 g2 a2
    using that by (rule observed_frame) (auto simp: gateway_ok_def hasRemoteNodeSurrogate_def
        intro: gateway_ok_remote_tracker [unfolded gateway_ok_def, THEN conjunct2, THEN conjunct2])
  have keep3: "(gateway_ok g2 \<longrightarrow> gateway_ok g3) \<and> (hasRemoteNodeSurrogate n g2 \<longrightarrow> hasRemoteNodeSurrogate n g3) \<and>
      gateway_running g3 = gateway_running g2"
    if "appendMeasurementEndpoint A src msg g2 = Some (msg', g3, a3)" for g2 g3 msg' a3
    using that
  proof (rule appendMeasurementEndpoint_frame)
    fix k assume "getSocketForRemoteNode A src True g2 = Some (k, g3, a3)"
    from getSocketForRemoteNode_frame [OF this] getSocketForRemoteNode_ok [OF _ this] show ?thesis
      using same_tables_ok [of g2 g3] by (auto simp: gateway_ok_def same_tables_def hasRemoteNodeSurrogate_def)
  qed
  have "(gateway_ok g \<longrightarrow> gateway_ok g') \<and> (hasRemoteNodeSurrogate n g \<longrightarrow> hasRemoteNodeSurrogate n g') \<and>
      gateway_running g' = gateway_running g"
    using assms
  proof (cases rule: forwardMessageLocally_elim)
    case silent
    from keep [OF this] show ?thesis .
  next
    case plain
    with keep [OF plain(1)] keep2 [OF plain(2)] show ?thesis by simp
  next
    case extended
    with keep [OF extended(1)] keep2 [OF extended(2)] keep3 [OF extended(5)] show ?thesis by simp
  next
    case unsent
    with keep [OF unsent(1)] keep2 [OF unsent(2)] show ?thesis by simp
  qed
  then show "gateway_ok g \<Longrightarrow> gateway_ok g'" "hasRemoteNodeSurrogate n g \<Longrightarrow> hasRemoteNodeSurrogate n g'"
    "gateway_running g' = gateway_running g" by blast+
qed

text \<open>A broadcast is played from the state socket of the node it comes from.\<close>

lemma played_broadcast_socket:
  assumes "forwardMessageLocally A BROADCAST src msg to now g = Inr (g', acts)" "SendUdp k m ep \<in> set acts"
  shows "socket_of g' (StateOf src) = Some k"
  using assms(1)
proof (cases rule: forwardMessageLocally_elim)
  case silent
  from resolveDestination_frame(3) [OF silent] assms(2) show ?thesis by (auto simp: receives_only_def)
next
  case (extended k' ep' g1 a1 g2 a2 msg' a3)
  obtain s where s: "mRemoteNodeIdToRemoteNodeSurrogate g1 src = Some s" "k' = stateSocket s"
    using extended(1)
  proof (cases rule: resolveDestination_elim)
    case (routed ep'' k'')
    then have "getSocketForRemoteNode A src False g = Some (k'', g1, a1)" "k'' = k'"
      by (cases "ipV6Endpoint A ep'' g1"; auto simp: destination_of_def split: if_splits option.splits)+
    from getSocketForRemoteNode_frame [OF this(1)] this(2) that show thesis by auto
  qed simp
  obtain tr where "g2 = g1\<lparr>mRemoteTracker := tr\<rparr>" using extended(2) by (rule observed_frame)
  then have "mRemoteNodeIdToRemoteNodeSurrogate g2 src = Some s" using s(1) by simp
  moreover obtain k3 where k3: "getSocketForRemoteNode A src True g2 = Some (k3, g', a3)"
    using extended(5) by (rule appendMeasurementEndpoint_frame)
  ultimately have "socket_of g' (StateOf src) = Some k'"
    using getSocketForRemoteNode_frame [OF k3] s(2) by (simp add: same_tables_def socket_of_def)
  moreover have "SendUdp k m ep \<notin> set a1" using resolveDestination_frame(3) [OF extended(1)] by (auto simp: receives_only_def)
  moreover have "SendUdp k m ep \<notin> set a2"
    using extended(2) by (auto simp: observed_def observeRemotePeerState_def arm_remote_def Let_def split_beta split: option.splits)
  moreover have "SendUdp k m ep \<notin> set a3" using getSocketForRemoteNode_frame [OF k3] by auto
  ultimately show ?thesis using assms(2) extended(6) by auto
next
  case (unsent k' ep' g1 a1 a2)
  from resolveDestination_frame(3) [OF unsent(1)] unsent(2) assms(2) unsent(4) show ?thesis
    by (auto simp: receives_only_def observed_def observeRemotePeerState_def arm_remote_def Let_def split_beta split: option.splits)
qed simp_all

lemma expire_local_frame:
  "expire_all (onLocalPeerTimedOut A) ns g = (g', acts) \<Longrightarrow> same_remote g g' \<and> mLocalTracker g' = mLocalTracker g"
proof (induction ns arbitrary: g g' acts)
  case (Cons n ns)
  obtain g1 a1 where 1: "onLocalPeerTimedOut A n g = (g1, a1 :: ('a, 'b, 'c) gateway_action list)" by force
  from Cons.prems 1 obtain a2 where 2: "expire_all (onLocalPeerTimedOut A) ns g1 = (g', a2)"
    by (auto split: prod.splits)
  have "same_remote g g1 \<and> mLocalTracker g1 = mLocalTracker g"
    using 1 by (auto simp: onLocalPeerTimedOut_def same_remote_def split: option.splits)
  with Cons.IH [OF 2] show ?case by (simp add: same_remote_def)
qed (simp add: same_remote_def)

lemma restrict_map_forget: "(m(n := None)) |` (- S) = m |` (- insert n S)"
  by (auto simp: fun_eq_iff restrict_map_def)

lemma expire_remote_eq:
  "expire_all onRemotePeerTimedOut ns g =
     (g\<lparr>mRemoteNodeIdToRemoteNodeSurrogate := (mRemoteNodeIdToRemoteNodeSurrogate g) |` (- set ns),
        mRemoteNodeIdToRemoteMeasurementSurrogate := (mRemoteNodeIdToRemoteMeasurementSurrogate g) |` (- set ns)\<rparr>,
      map RemotePeerTimedOut ns)"
proof (induction ns arbitrary: g)
  case (Cons n ns)
  show ?case by (simp add: Cons.IH onRemotePeerTimedOut_def [of n g] restrict_map_forget del: restrict_fun_upd)
qed (simp add: restrict_map_def)

lemma prune_local_frame:
  assumes "prune_local A now g = (g', acts)"
  shows "same_remote g g'" "tracker_ok (mLocalTracker g) \<Longrightarrow> tracker_ok (mLocalTracker g')"
proof -
  obtain tr ex armed where p: "prune (no_node A) now (mLocalTracker g) = (tr, ex, armed)" by (metis prod_cases3)
  obtain g1 a where e: "expire_all (onLocalPeerTimedOut A) ex g = (g1, a)" by force
  have g': "g' = g1\<lparr>mLocalTracker := tr\<rparr>" using assms by (simp add: prune_local_def p e)
  then show "same_remote g g'" using expire_local_frame [OF e] by (simp add: same_remote_def)
  show "tracker_ok (mLocalTracker g')" if "tracker_ok (mLocalTracker g)"
    using tracker_ok_prune [OF that, of "no_node A" now] by (simp add: g' p)
qed

lemma prune_remote_eq:
  "prune_remote A now g =
     (let (tr, expired, armed) = prune (no_node A) now (mRemoteTracker g)
      in (g\<lparr>mRemoteNodeIdToRemoteNodeSurrogate := (mRemoteNodeIdToRemoteNodeSurrogate g) |` (- set expired),
            mRemoteNodeIdToRemoteMeasurementSurrogate := (mRemoteNodeIdToRemoteMeasurementSurrogate g) |` (- set expired),
            mRemoteTracker := tr\<rparr>, map RemotePeerTimedOut expired @ arm_remote armed))"
  by (simp add: prune_remote_def expire_remote_eq split_beta Let_def)

lemma prune_remote_ok:
  assumes "gateway_ok g" "prune_remote A now g = (g', acts)"
  shows "gateway_ok g'"
proof -
  obtain tr ex armed where p: "prune (no_node A) now (mRemoteTracker g) = (tr, ex, armed)" by (metis prod_cases3)
  have g': "g' = g\<lparr>mRemoteNodeIdToRemoteNodeSurrogate := (mRemoteNodeIdToRemoteNodeSurrogate g) |` (- set ex),
      mRemoteNodeIdToRemoteMeasurementSurrogate := (mRemoteNodeIdToRemoteMeasurementSurrogate g) |` (- set ex),
      mRemoteTracker := tr\<rparr>" using assms(2) by (simp add: prune_remote_eq p)
  have "tracker_ok tr" using tracker_ok_prune [of "mRemoteTracker g" "no_node A" now] assms(1) p by (simp add: gateway_ok_def)
  moreover have "sockets_ok g'"
  proof (rule sockets_ok_fewer)
    show "sockets_ok g" using assms(1) by (simp add: gateway_ok_def)
    show "socket_of g w = Some k" if "socket_of g' w = Some k" for w k
      using that by (auto simp: g' socket_of_def restrict_map_def split: owner.splits if_splits)
  qed (simp add: g')
  ultimately show ?thesis using assms(1) by (simp add: gateway_ok_def g')
qed

lemma gateway_step_ok: "gateway_step A g acts g' \<Longrightarrow> gateway_ok g \<Longrightarrow> gateway_ok g'"
proof (induction rule: gateway_step.induct)
  case (gw_listen g g' acts)
  then show ?case using sockets_ok_same [of g' g] by (auto simp: gateway_listen_def gateway_ok_def)
next
  case (gw_stop g)
  have "sockets_ok (gateway_stop_listening g)"
    by (simp add: sockets_ok_def socket_of_def gateway_stop_listening_def split: owner.splits)
  then show ?case by (simp add: gateway_ok_def gateway_stop_listening_def tracker_clear_def tracker_ok_def)
next
  case (gw_state ep msg to now g g' acts)
  then obtain acts' where "handle_state_message A ep (fst (parseMessageHeader A msg)) msg (snd (parseMessageHeader A msg)) to now g =
      Inr (g', acts') \<or> (g' = g \<and> acts' = [])" using gateway_receive_elim by metis
  with gw_state.prems show ?case
    using handle_state_message_frame same_remote_ok unfolding gateway_ok_def by metis
next
  case (gw_measurement n ep msg random_id g g' acts)
  then show ?case using surrogate_receive_frame [OF disjI1] same_remote_ok unfolding gateway_ok_def by metis
next
  case (gw_ping n ep msg random_id g g' acts)
  then show ?case using surrogate_receive_frame [OF disjI2] same_remote_ok unfolding gateway_ok_def by metis
next
  case (gw_play mt src msg to now g g' acts)
  then show ?case using forwardMessageLocally_keeps(1) by metis
next
  case (gw_prune_local now g g' acts)
  then show ?case using prune_local_frame [OF gw_prune_local.hyps] same_remote_ok unfolding gateway_ok_def by metis
next
  case (gw_prune_remote now g g' acts)
  then show ?case using prune_remote_ok by metis
qed

definition gateway_start :: "('n, 'ip) TunnelGateway \<Rightarrow> bool" where
  "gateway_start g \<longleftrightarrow> (\<exists>a. g = TunnelGateway_init a)"

definition gateway_move :: "('n, 'ip, 'ps) link_api \<Rightarrow> ('n, 'ip) TunnelGateway \<Rightarrow> ('n, 'ip) TunnelGateway \<Rightarrow> bool" where
  "gateway_move A g g' \<longleftrightarrow> (\<exists>acts. gateway_step A g acts g')"

lemma gateway_ok_init: "gateway_ok (TunnelGateway_init a)"
  by (simp add: gateway_ok_def TunnelGateway_init_def PeerTracker_init_def tracker_ok_def sockets_ok_def socket_of_def
      split: owner.splits)

interpretation gateway: invariant_system gateway_start "gateway_move A" gateway_ok
  by unfold_locales (auto simp: gateway_start_def gateway_move_def gateway_ok_init intro: gateway_step_ok)

subsection \<open>A concrete API\<close>

text \<open>
  The instance the witnesses run on: a message is its type, its time to live, its node and a payload whose
  last byte is the port of the measurement endpoint; addresses are numbers, all of one IPv4 subnet.
\<close>

definition example_header :: "bytes \<Rightarrow> u64 MessageHeader \<times> bytes" where
  "example_header msg =
     (case msg of
        t # l # i # rest \<Rightarrow>
          (\<lparr>messageType = (if t = 1 then kAlive else if t = 2 then kResponse else if t = 3 then kByeBye else kUnknown t),
            ttl = l, ident = ucast i\<rparr>, rest)
      | _ \<Rightarrow> (\<lparr>messageType = kUnknown 0, ttl = 0, ident = 0\<rparr>, []))"

definition example_api :: "(u64, nat, u64 \<times> nat UdpEndpoint) link_api" where
  "example_api = \<lparr>parseMessageHeader = example_header,
     fromPayload = (\<lambda>n p. if p = [] then None else Some (n, \<lparr>ep_address = 1, ep_port = ucast (last p)\<rparr>)),
     peer_ident = fst, peer_endpoint = snd, is_ping = (\<lambda>msg. msg = [1]),
     measurement_entry_size = (\<lambda>_. 1), measurement_payload = (\<lambda>ep. [ucast (ep_port ep)]), max_message_size = 512,
     is_v4 = (\<lambda>_. True), in_subnet24 = (\<lambda>_ _. True), address_string = to_string,
     multicastEndpointV4 = \<lparr>ep_address = 224, ep_port = 20808\<rparr>, multicastEndpointV6 = (\<lambda>_. \<lparr>ep_address = 224, ep_port = 20808\<rparr>),
     scoped_v6 = (\<lambda>_ a. Some a), can_open = (\<lambda>_. True), socket_endpoint = (\<lambda>k. \<lparr>ep_address = 2, ep_port = of_nat k\<rparr>),
     default_endpoint = \<lparr>ep_address = 0, ep_port = 0\<rparr>, no_node = 0\<rparr>"

definition example_gateway :: "(u64, nat) TunnelGateway" where
  "example_gateway = fst (gateway_listen (TunnelGateway_init 2) :: (u64, nat, u64 \<times> nat UdpEndpoint) gateway_result)"

text \<open>After it has played a broadcast of node 9 into the local network.\<close>

abbreviation surrogate9 :: RemoteNodeSurrogate where
  "surrogate9 \<equiv> \<lparr>stateSocket = 1, measurementSocket = 2, surrogate_running = True\<rparr>"

definition example_routed :: "(u64, nat) TunnelGateway" where
  "example_routed = example_gateway\<lparr>mRemoteNodeIdToRemoteNodeSurrogate := [9 \<mapsto> surrogate9], next_socket := 3\<rparr>"

definition example_played :: "(u64, nat) TunnelGateway" where
  "example_played = example_routed\<lparr>mRemoteTracker := \<lparr>mTimeouts = [(seconds 5, 9)]\<rparr>\<rparr>"

lemma example_gateway_eq:
  "example_gateway = \<lparr>local_interface_address = 2, gateway_running = True,
      mLocalTracker = \<lparr>mTimeouts = []\<rparr>, mRemoteTracker = \<lparr>mTimeouts = []\<rparr>,
      mRemoteNodeIdToRemoteNodeSurrogate = Map.empty, mRemoteNodeIdToRemoteMeasurementSurrogate = Map.empty,
      localNodeIdToEndpointMap = Map.empty, localMeasurementEndpointToNodeId = Map.empty, next_socket = 1\<rparr>"
  by (simp add: example_gateway_def gateway_listen_def TunnelGateway_init_def PeerTracker_init_def)

lemma example_resolve:
  "resolveDestination example_api BROADCAST 9 None example_gateway =
     Inr (Some (1, \<lparr>ep_address = 224, ep_port = 20808\<rparr>), example_routed, [ReceiveState 9, ReceiveMeasurement 9])"
  by (simp add: resolveDestination_def destination_of_def getSocketForRemoteNode_eq getBroadcastEndpoint_def
      example_routed_def example_gateway_eq example_api_def Let_def numeral_2_eq_2)

lemma example_update: "updateTimeout (9 :: u64) 5 0 \<lparr>mTimeouts = []\<rparr> = (\<lparr>mTimeouts = [(seconds 5, 9)]\<rparr>, Some (seconds 6))"
  by (simp add: updateTimeout_def remove_node_def upper_bound_def bound_search.simps schedulePruning_def seconds_def)

lemma example_observe:
  "observeRemotePeerState example_api 9 [1, 5, 9, 7] 0 example_routed =
     (example_played, [SawRemotePeer (9, \<lparr>ep_address = 1, ep_port = 7\<rparr>), ArmRemoteTracker (seconds 6)])"
  by (simp add: observeRemotePeerState_def example_api_def Let_def example_header_def example_update
      example_played_def example_routed_def example_gateway_eq arm_remote_def)

lemma example_append:
  "appendMeasurementEndpoint example_api 9 [1, 5, 9, 7] example_played = Some ([1, 5, 9, 7, 2], example_played, [])"
  by (simp add: appendMeasurementEndpoint_def getSocketForRemoteNode_eq example_played_def example_routed_def
      example_gateway_eq example_api_def Let_def)

lemma example_play:
  "forwardMessageLocally example_api BROADCAST 9 [1, 5, 9, 7] None 0 example_gateway =
     Inr (example_played, [ReceiveState 9, ReceiveMeasurement 9, SawRemotePeer (9, \<lparr>ep_address = 1, ep_port = 7\<rparr>),
       ArmRemoteTracker (seconds 6), SendUdp 1 [1, 5, 9, 7, 2] \<lparr>ep_address = 224, ep_port = 20808\<rparr>])"
  by (simp add: forwardMessageLocally_def example_resolve example_observe example_append sendUdpMessage_def)

lemma example_played_reachable:
  "gateway_start (TunnelGateway_init 2)" "(gateway_move example_api)\<^sup>*\<^sup>* (TunnelGateway_init 2) example_played"
proof -
  show "gateway_start (TunnelGateway_init 2)" by (auto simp: gateway_start_def)
  have "gateway_move example_api (TunnelGateway_init 2) example_gateway"
    unfolding gateway_move_def example_gateway_def by (metis gw_listen prod.collapse)
  moreover have "gateway_move example_api example_gateway example_played"
    unfolding gateway_move_def using gw_play [OF example_play] by blast
  ultimately show "(gateway_move example_api)\<^sup>*\<^sup>* (TunnelGateway_init 2) example_played" by simp
qed

subsection \<open>Properties\<close>

text \<open>
  C20: In every state a gateway reaches, both trackers are sorted with one entry per node, every socket of a
  surrogate was opened before, and no socket is shared: each belongs to one remote node and to one purpose
  (its discovery messages, its measurement endpoint, or the pings of one measurement).
\<close>

theorem gateway_sockets_not_shared:
  assumes "gateway_start g0" "(gateway_move A)\<^sup>*\<^sup>* g0 g"
  shows "tracker_ok (mLocalTracker g) \<and> tracker_ok (mRemoteTracker g) \<and>
    (\<forall>w k. socket_of g w = Some k \<longrightarrow> k < next_socket g) \<and>
    (\<forall>w w' k. socket_of g w = Some k \<longrightarrow> socket_of g w' = Some k \<longrightarrow> w = w')"
  using gateway.inv_reachable [OF assms] by (simp add: gateway_ok_def sockets_ok_def)

theorem gateway_sockets_not_shared_witness:
  "socket_of example_played (StateOf 9) = Some 1 \<and> 1 < next_socket example_played"
  using gateway_sockets_not_shared [OF example_played_reachable]
  by (auto simp: socket_of_def example_played_def example_routed_def)

text \<open>A node with a surrogate, while the gateway runs and the node does not time out.\<close>

definition gateway_lasting ::
    "('n, 'ip, 'ps) link_api \<Rightarrow> 'n \<Rightarrow> ('n, 'ip) TunnelGateway \<Rightarrow> ('n, 'ip) TunnelGateway \<Rightarrow> bool" where
  "gateway_lasting A n g g' \<longleftrightarrow> (\<exists>acts. gateway_step A g acts g' \<and> gateway_running g' \<and> RemotePeerTimedOut n \<notin> set acts)"

lemma same_remote_surrogate: "same_remote g g' \<Longrightarrow> hasRemoteNodeSurrogate n g' \<longleftrightarrow> hasRemoteNodeSurrogate n g"
  by (simp add: hasRemoteNodeSurrogate_def same_remote_def)

lemma gateway_receive_frame:
  assumes "gateway_receive A ep msg to now g = Inr (g', acts)"
  shows "same_remote g g'"
  using assms
proof (rule gateway_receive_elim)
  fix acts'
  assume "handle_state_message A ep (fst (parseMessageHeader A msg)) msg (snd (parseMessageHeader A msg)) to now g =
      Inr (g', acts') \<or> (g' = g \<and> acts' = [])"
  then show ?thesis
  proof
    assume "g' = g \<and> acts' = []"
    then show ?thesis by (simp add: same_remote_def)
  qed (rule handle_state_message_frame(1))
qed

lemma surrogate_lasts_step:
  "gateway_step A g acts g' \<Longrightarrow> gateway_running g' \<Longrightarrow> RemotePeerTimedOut n \<notin> set acts \<Longrightarrow>
     hasRemoteNodeSurrogate n g \<Longrightarrow> hasRemoteNodeSurrogate n g'"
proof (induction rule: gateway_step.induct)
  case (gw_state ep msg to now g g' acts)
  then show ?case using same_remote_surrogate [OF gateway_receive_frame [OF gw_state.hyps]] by simp
next
  case (gw_measurement k ep msg random_id g g' acts)
  then show ?case using same_remote_surrogate [OF surrogate_receive_frame(1) [OF disjI1 [OF gw_measurement.hyps]]] by simp
next
  case (gw_ping k ep msg random_id g g' acts)
  then show ?case using same_remote_surrogate [OF surrogate_receive_frame(1) [OF disjI2 [OF gw_ping.hyps]]] by simp
next
  case (gw_play mt src msg to now g g' acts)
  then show ?case using forwardMessageLocally_keeps(2) [OF gw_play.hyps] by simp
next
  case (gw_prune_local now g g' acts)
  then show ?case using same_remote_surrogate [OF prune_local_frame(1) [OF gw_prune_local.hyps]] by simp
next
  case (gw_prune_remote now g g' acts)
  obtain tr ex armed where p: "prune (no_node A) now (mRemoteTracker g) = (tr, ex, armed)" by (metis prod_cases3)
  have "n \<notin> set ex" using gw_prune_remote.hyps gw_prune_remote.prems(2) by (auto simp: prune_remote_eq p)
  moreover have "mRemoteNodeIdToRemoteNodeSurrogate g' = mRemoteNodeIdToRemoteNodeSurrogate g |` (- set ex)"
    using gw_prune_remote.hyps by (auto simp: prune_remote_eq p)
  ultimately show ?case using gw_prune_remote.prems(3) by (simp add: hasRemoteNodeSurrogate_def)
qed (auto simp: gateway_listen_def gateway_stop_listening_def hasRemoteNodeSurrogate_def)

interpretation lasting: invariant_system "hasRemoteNodeSurrogate n" "gateway_lasting A n" "hasRemoteNodeSurrogate n"
  by unfold_locales (auto simp: gateway_lasting_def intro: surrogate_lasts_step)

text \<open>
  C12: No echo. Once a gateway has a surrogate for a remote node, then as long as it runs and the node does
  not time out, whatever else happens, a discovery message that carries the identity of that node (such as
  the surrogate's own broadcasts, which the multicast socket hears again) changes nothing and is not
  forwarded into the tunnel.
\<close>

theorem surrogate_messages_not_forwarded:
  assumes "hasRemoteNodeSurrogate n g" "(gateway_lasting A n)\<^sup>*\<^sup>* g g'"
    and "ident (fst (parseMessageHeader A msg)) = n" "gateway_receive A ep msg to now g' = Inr (g'', acts)"
  shows "g'' = g' \<and> (\<forall>mt src m dst. TunnelForward mt src m dst \<notin> set acts)"
proof -
  have "hasRemoteNodeSurrogate n g'" by (rule lasting.inv_reachable [OF assms(1,2)])
  then have h: "handle_state_message A ep (fst (parseMessageHeader A msg)) msg (snd (parseMessageHeader A msg)) to now g' = Inr (g', [])"
    using assms(3) by (simp add: handle_state_message_def)
  from assms(4) show ?thesis by (rule gateway_receive_elim) (use h in auto)
qed

theorem surrogate_messages_not_forwarded_witness:
  "hasRemoteNodeSurrogate 9 example_played \<and>
   gateway_receive example_api \<lparr>ep_address = 2, ep_port = 1\<rparr> [1, 5, 9, 7, 2] None 0 example_played =
     Inr (example_played, [ReceiveMulticast])"
proof -
  have s: "hasRemoteNodeSurrogate 9 example_played"
    by (simp add: hasRemoteNodeSurrogate_def example_played_def example_routed_def)
  have i: "ident (fst (parseMessageHeader example_api [1, 5, 9, 7, 2])) = 9" by (simp add: example_api_def example_header_def)
  have "gateway_running example_played" by (simp add: example_played_def example_routed_def example_gateway_eq)
  then obtain g'' acts where r: "gateway_receive example_api \<lparr>ep_address = 2, ep_port = 1\<rparr> [1, 5, 9, 7, 2] None 0 example_played = Inr (g'', acts)"
    and a: "acts = [ReceiveMulticast]"
    using s i by (simp add: gateway_receive_def handle_state_message_def split_beta Let_def cong: if_cong)
  from surrogate_messages_not_forwarded [OF s rtranclp.rtrancl_refl i r] r a s show ?thesis by simp
qed

text \<open>
  A ping finds its way back. A local node that pings a remote node's measurement endpoint from a socket
  the gateway has not seen gets a made-up identity in the tunnel. The pong of the remote node to that
  identity is then sent from the same measurement socket to exactly the endpoint that pinged.
\<close>

theorem ping_answer_returns:
  assumes "mRemoteNodeIdToRemoteNodeSurrogate g n = Some s"
    and "localMeasurementEndpointToNodeId g (createKeyFromEndpoint A ep) = None"
    and "is_ping A msg" "is_v4 A (ep_address ep)" "surrogate_receive A n ep msg fake g = (g1, acts)"
  shows "TunnelForward MEASUREMENT_PING fake msg (Some n) \<in> set acts \<and>
    (\<exists>m. forwardMessageLocally A MEASUREMENT_PONG n reply (Some fake) now g1 =
       Inr (g1, [SendUdp (measurementSocket s) m ep]) \<and> take (length reply) m = reply)"
proof -
  let ?e = "\<lparr>stateEndpoint = default_endpoint A, measurementEndpoint = ep\<rparr>"
  have g1: "g1 = g\<lparr>localMeasurementEndpointToNodeId := (localMeasurementEndpointToNodeId g)(createKeyFromEndpoint A ep \<mapsto> fake),
      localNodeIdToEndpointMap := (localNodeIdToEndpointMap g)(fake \<mapsto> ?e)\<rparr>"
    and acts: "TunnelForward MEASUREMENT_PING fake msg (Some n) \<in> set acts"
    using assms(1-3,5) by (auto simp: surrogate_receive_def handle_measurement_message_def Let_def)
  have sock: "getSocketForRemoteNode A n True g1 = Some (measurementSocket s, g1, [])"
    using assms(1) by (simp add: getSocketForRemoteNode_eq g1)
  have "resolveDestination A MEASUREMENT_PONG n (Some fake) g1 = Inr (Some (measurementSocket s, ep), g1, [])"
    using sock assms(4) by (simp add: resolveDestination_def destination_of_def hasLocalNode_def g1)
  with sock acts show ?thesis
    by (auto simp: forwardMessageLocally_def appendMeasurementEndpoint_def sendUdpMessage_def Let_def)
qed

theorem ping_answer_returns_witness:
  "\<exists>g1 acts m. surrogate_receive example_api 9 \<lparr>ep_address = 1, ep_port = 4000\<rparr> [1] 55 example_played = (g1, acts) \<and>
     forwardMessageLocally example_api MEASUREMENT_PONG 9 [2] (Some 55) 0 g1 =
       Inr (g1, [SendUdp 2 m \<lparr>ep_address = 1, ep_port = 4000\<rparr>])"
proof -
  obtain g1 acts where r: "surrogate_receive example_api 9 \<lparr>ep_address = 1, ep_port = 4000\<rparr> [1] 55 example_played = (g1, acts)" by force
  have s: "mRemoteNodeIdToRemoteNodeSurrogate example_played 9 = Some surrogate9"
    by (simp add: example_played_def example_routed_def)
  have "localMeasurementEndpointToNodeId example_played (createKeyFromEndpoint example_api \<lparr>ep_address = 1, ep_port = 4000\<rparr>) = None"
    by (simp add: example_played_def example_routed_def example_gateway_eq)
  from ping_answer_returns [OF s this _ _ r] r show ?thesis by (fastforce simp: example_api_def)
qed

text \<open>What a state message of a local node does: the node is known with its endpoints, the message goes to the tunnel.\<close>

lemma hears_local_node:
  assumes "parseMessageHeader A msg = (h, payload)" "messageType h = kAlive \<or> messageType h = kResponse"
    and "fromPayload A (ident h) payload = Some st" "\<not> hasRemoteNodeSurrogate (ident h) g"
    and "is_v4 A (ep_address ep)" "in_subnet24 A (local_interface_address g) (ep_address ep)"
    and "measurement_entry_size A (peer_endpoint A st) \<le> length msg"
    and "gateway_receive A ep msg to now g = Inr (g', acts)"
  shows "TunnelForward (if to \<noteq> None then UNICAST else BROADCAST) (ident h)
       (take (length msg - measurement_entry_size A (peer_endpoint A st)) msg) to \<in> set acts"
    and "localNodeIdToEndpointMap g' (ident h) = Some \<lparr>stateEndpoint = ep, measurementEndpoint = peer_endpoint A st\<rparr>"
    and "same_remote g g'"
proof -
  let ?size = "measurement_entry_size A (peer_endpoint A st)"
  let ?fwd = "TunnelForward (if to \<noteq> None then UNICAST else BROADCAST) (ident h) (take (length msg - ?size) msg) to"
  obtain g1 a1 where h: "handle_state_message A ep h msg payload to now g = Inr (g1, a1)" "?fwd \<in> set a1"
    "localNodeIdToEndpointMap g1 (ident h) = Some \<lparr>stateEndpoint = ep, measurementEndpoint = peer_endpoint A st\<rparr>"
    using assms(2-4,7) by (auto simp: handle_state_message_def receivePeerState_def Let_def split_beta)
  have r: "g' = g1" "set a1 \<subseteq> set acts"
    using assms(1,5,6,8) h(1) by (auto simp: gateway_receive_def split: if_splits option.splits)
  show "?fwd \<in> set acts" using h(2) r(2) by blast
  show "localNodeIdToEndpointMap g' (ident h) = Some \<lparr>stateEndpoint = ep, measurementEndpoint = peer_endpoint A st\<rparr>"
    using h(3) r(1) by simp
  show "same_remote g g'" using handle_state_message_frame(1) [OF h(1)] r(1) by simp
qed

text \<open>
  A local node that is heard can be answered. A state message of a local node (from the gateway's
  subnet, without a surrogate, and at least as long as its measurement entry) is forwarded into the tunnel
  without that entry, as a broadcast or, when it was sent to a surrogate, as a unicast to that remote node; and a
  unicast message for the node that comes out of the tunnel afterwards is sent, by the state socket of the
  remote node's surrogate, to the endpoint the node was heard from.
\<close>

theorem heard_node_is_reachable:
  assumes "parseMessageHeader A msg = (h, payload)" "messageType h = kAlive \<or> messageType h = kResponse"
    and "fromPayload A (ident h) payload = Some st" "\<not> hasRemoteNodeSurrogate (ident h) g"
    and "is_v4 A (ep_address ep)" "in_subnet24 A (local_interface_address g) (ep_address ep)"
    and "measurement_entry_size A (peer_endpoint A st) \<le> length msg"
    and "gateway_receive A ep msg to now g = Inr (g', acts)"
    and "mRemoteNodeIdToRemoteNodeSurrogate g src = Some s"
  shows "TunnelForward (if to \<noteq> None then UNICAST else BROADCAST) (ident h)
       (take (length msg - measurement_entry_size A (peer_endpoint A st)) msg) to \<in> set acts \<and>
    (\<exists>g'' acts' m. forwardMessageLocally A UNICAST src reply (Some (ident h)) later g' = Inr (g'', acts') \<and>
       SendUdp (stateSocket s) m ep \<in> set acts' \<and> take (length reply) m = reply)"
proof -
  note h = hears_local_node [OF assms(1-8)]
  have s: "mRemoteNodeIdToRemoteNodeSurrogate g' src = Some s" using h(3) assms(9) by (simp add: same_remote_def)
  then have sock: "getSocketForRemoteNode A src b g' = Some (if b then measurementSocket s else stateSocket s, g', [])" for b
    by (simp add: getSocketForRemoteNode_eq)
  have route: "resolveDestination A UNICAST src (Some (ident h)) g' = Inr (Some (stateSocket s, ep), g', [])"
    using sock [of False] h(2) assms(5) by (simp add: resolveDestination_def destination_of_def hasLocalNode_def)
  obtain g2 a2 where o: "observeRemotePeerState A src reply later g' = (g2, a2)" by force
  obtain tr where "g2 = g'\<lparr>mRemoteTracker := tr\<rparr>" using observe_frame [OF o] by blast
  then have "getSocketForRemoteNode A src True g2 = Some (measurementSocket s, g2, [])"
    using s by (simp add: getSocketForRemoteNode_eq)
  with route o h(1) show ?thesis
    by (auto simp: forwardMessageLocally_def appendMeasurementEndpoint_def sendUdpMessage_def Let_def)
qed

theorem heard_node_is_reachable_witness:
  "\<exists>g' acts g'' acts' m. gateway_receive example_api \<lparr>ep_address = 1, ep_port = 3000\<rparr> [1, 5, 4, 8] None 0 example_played = Inr (g', acts) \<and>
     TunnelForward BROADCAST 4 [1, 5, 4] None \<in> set acts \<and>
     forwardMessageLocally example_api UNICAST 9 [2] (Some 4) 0 g' = Inr (g'', acts') \<and>
     SendUdp 1 m \<lparr>ep_address = 1, ep_port = 3000\<rparr> \<in> set acts'"
proof -
  let ?ep = "\<lparr>ep_address = 1, ep_port = 3000\<rparr> :: nat UdpEndpoint" and ?h = "\<lparr>messageType = kAlive, ttl = 5, ident = 4\<rparr> :: u64 MessageHeader"
  let ?st = "(4, \<lparr>ep_address = 1, ep_port = 8\<rparr>) :: u64 \<times> nat UdpEndpoint"
  have p: "parseMessageHeader example_api [1, 5, 4, 8] = (?h, [8])" by (simp add: example_api_def example_header_def)
  have f: "fromPayload example_api (ident ?h) [8] = Some ?st" by (simp add: example_api_def)
  have n: "\<not> hasRemoteNodeSurrogate (ident ?h) example_played"
    by (simp add: hasRemoteNodeSurrogate_def example_played_def example_routed_def)
  have api: "is_v4 example_api a" "in_subnet24 example_api a b" "measurement_entry_size example_api e = 1" for a b e
    by (simp_all add: example_api_def)
  have s: "mRemoteNodeIdToRemoteNodeSurrogate example_played 9 = Some surrogate9" by (simp add: example_played_def example_routed_def)
  have run: "gateway_running example_played" by (simp add: example_played_def example_routed_def example_gateway_eq)
  obtain g' acts where r: "gateway_receive example_api ?ep [1, 5, 4, 8] None 0 example_played = Inr (g', acts)"
    using p f n api run by (simp add: gateway_receive_def handle_state_message_def receivePeerState_def Let_def split_beta)
  from heard_node_is_reachable [OF p _ f n _ _ _ r s, of "[2]" 0] r api show ?thesis by (simp add: example_api_def) blast
qed

lemma resolveDestination_total:
  assumes "mt = UNICAST \<or> mt = MEASUREMENT_PING \<longrightarrow> to \<noteq> None"
  shows "\<exists>x. resolveDestination A mt src to g = Inr x"
proof -
  have "False" if "resolveDestination A mt src to g = Inl f" for f
    using that assms by (auto simp: resolveDestination_def split: if_splits option.splits)
  then show ?thesis by (metis old.sum.exhaust)
qed

text \<open>
  A message that comes out of the tunnel never makes a gateway fault when addressed messages carry their
  target, as those of \<open>decapsulate\<close> do; and a gateway that does not know the target of an
  addressed message stays out of it: no socket is opened, nothing is sent, nothing changes.
\<close>

theorem unknown_target_ignored:
  assumes "mt = UNICAST \<or> mt = MEASUREMENT_PING \<longrightarrow> to \<noteq> None"
  shows "(\<exists>g' acts. forwardMessageLocally A mt src msg to now g = Inr (g', acts)) \<and>
    (\<forall>n. to = Some n \<and> \<not> hasLocalNode n g \<and> mt \<noteq> BROADCAST \<and> mt \<noteq> BYEBYE \<longrightarrow>
       forwardMessageLocally A mt src msg to now g = Inr (g, []))"
proof
  obtain x where r: "resolveDestination A mt src to g = Inr x"
    using resolveDestination_total [OF assms] by blast
  obtain r g1 a1 where x: "x = (r, g1, a1)" by (metis prod_cases3)
  obtain g2 a2 where o: "observed A mt src msg now g1 = (g2, a2)" by force
  show "\<exists>g' acts. forwardMessageLocally A mt src msg to now g = Inr (g', acts)"
  proof (cases r)
    case None
    then show ?thesis by (simp add: forwardMessageLocally_def r x)
  next
    case (Some p)
    then show ?thesis using o
      by (cases p; cases "appendMeasurementEndpoint A src msg g2")
         (simp_all add: forwardMessageLocally_def r x observed_def [symmetric] split_beta)
  qed
  show "\<forall>n. to = Some n \<and> \<not> hasLocalNode n g \<and> mt \<noteq> BROADCAST \<and> mt \<noteq> BYEBYE \<longrightarrow>
       forwardMessageLocally A mt src msg to now g = Inr (g, [])"
    by (simp add: forwardMessageLocally_def resolveDestination_def)
qed

theorem unknown_target_ignored_witness:
  "forwardMessageLocally example_api MEASUREMENT_PING 9 [1] (Some 77) 0 example_played = Inr (example_played, [])"
proof -
  have "\<not> hasLocalNode 77 example_played" by (simp add: hasLocalNode_def example_played_def example_routed_def example_gateway_eq)
  with unknown_target_ignored [of MEASUREMENT_PING "Some 77" example_api 9 "[1]" 0 example_played] show ?thesis by simp
qed

text \<open>
  C34: A remote node that times out is taken down completely. A pass of the remote tracker's timer reports
  exactly the nodes whose deadline has passed, removes both surrogates of each of them, and leaves the
  surrogates of all other nodes as they are; a node of that name that shows up on the local network is
  heard again.
\<close>

theorem remote_timeout_removes_surrogates:
  assumes "gateway_ok g" "prune_remote A now g = (g', acts)"
  shows "(\<forall>n. RemotePeerTimedOut n \<in> set acts \<longleftrightarrow> (\<exists>t. deadline (mRemoteTracker g) n = Some t \<and> t < now)) \<and>
    (\<forall>n. RemotePeerTimedOut n \<in> set acts \<longrightarrow>
       \<not> hasRemoteNodeSurrogate n g' \<and> mRemoteNodeIdToRemoteMeasurementSurrogate g' n = None) \<and>
    (\<forall>n. RemotePeerTimedOut n \<notin> set acts \<longrightarrow>
       mRemoteNodeIdToRemoteNodeSurrogate g' n = mRemoteNodeIdToRemoteNodeSurrogate g n \<and>
       mRemoteNodeIdToRemoteMeasurementSurrogate g' n = mRemoteNodeIdToRemoteMeasurementSurrogate g n)"
proof -
  obtain tr ex armed where p: "prune (no_node A) now (mRemoteTracker g) = (tr, ex, armed)" by (metis prod_cases3)
  have ex: "set ex = {n. \<exists>t. deadline (mRemoteTracker g) n = Some t \<and> t < now}"
    using prune_sets(1) [of "mRemoteTracker g" "no_node A" now] assms(1) p by (simp add: gateway_ok_def)
  have g': "mRemoteNodeIdToRemoteNodeSurrogate g' = mRemoteNodeIdToRemoteNodeSurrogate g |` (- set ex)"
    "mRemoteNodeIdToRemoteMeasurementSurrogate g' = mRemoteNodeIdToRemoteMeasurementSurrogate g |` (- set ex)"
    and acts: "acts = map RemotePeerTimedOut ex @ arm_remote armed"
    using assms(2) by (auto simp: prune_remote_eq p)
  have "RemotePeerTimedOut n \<in> set acts \<longleftrightarrow> n \<in> set ex" for n
    by (auto simp: acts arm_remote_def split: option.splits)
  then show ?thesis using ex g' by (auto simp: hasRemoteNodeSurrogate_def)
qed

theorem remote_timeout_removes_surrogates_witness:
  "\<exists>g' acts. prune_remote example_api (seconds 6) example_played = (g', acts) \<and> RemotePeerTimedOut 9 \<in> set acts \<and>
     \<not> hasRemoteNodeSurrogate 9 g'"
proof -
  obtain g' acts where p: "prune_remote example_api (seconds 6) example_played = (g', acts)" by force
  have "gateway_ok example_played" by (rule gateway.inv_reachable [OF example_played_reachable])
  from remote_timeout_removes_surrogates [OF this p] p show ?thesis
    by (simp add: deadline_def example_played_def seconds_def)
qed

text \<open>
  C35: A remote node that says goodbye leaves its surrogate behind. When the BYEBYE of a remote node is played
  into the local network its deadline is forgotten but its surrogate stays (and is created if there was
  none), so no later pass of the timer, at any time, removes it: messages of that node on the local
  network stay ignored until a new state message sets a new deadline.
\<close>

theorem byebye_leaves_surrogate:
  assumes "gateway_ok g" "forwardMessageLocally A BYEBYE n msg to now g = Inr (g', acts)" "SendUdp k m ep \<in> set acts"
  shows "hasRemoteNodeSurrogate n g' \<and> deadline (mRemoteTracker g') n = None \<and>
    hasRemoteNodeSurrogate n (fst (prune_remote A later g'))"
  using assms(2)
proof (cases rule: forwardMessageLocally_elim)
  case silent
  with assms(3) resolveDestination_frame(3) [OF silent] show ?thesis by (auto simp: receives_only_def)
next
  case (plain k ep g1 a1 a2)
  have "\<exists>k' a. getSocketForRemoteNode A n False g = Some (k', g1, a)"
    using plain(1) by (rule resolveDestination_elim) (auto simp: destination_of_def)
  then have s: "hasRemoteNodeSurrogate n g1" using getSocketForRemoteNode_frame by (fastforce simp: hasRemoteNodeSurrogate_def)
  have g': "g' = g1\<lparr>mRemoteTracker := tracker_remove n (mRemoteTracker g1)\<rparr>"
    using plain(2) by (simp add: observed_def onRemotePeerLeft_def)
  have tr: "tracker_ok (mRemoteTracker g1)"
    using assms(1) resolveDestination_frame(1) [OF plain(1)] by (simp add: gateway_ok_def same_tables_def)
  have ok: "gateway_ok g'" using forwardMessageLocally_keeps(1) [OF assms(2,1)] .
  have d: "deadline (mRemoteTracker g') n = None" by (simp add: g' deadline_remove [OF tr])
  obtain tr' ex armed where p: "prune (no_node A) later (mRemoteTracker g') = (tr', ex, armed)" by (metis prod_cases3)
  have "n \<notin> set ex" using prune_sets(1) [of "mRemoteTracker g'" "no_node A" later] ok p d by (simp add: gateway_ok_def)
  moreover have "hasRemoteNodeSurrogate n g'" using s by (simp add: g' hasRemoteNodeSurrogate_def)
  ultimately show ?thesis using d by (simp add: prune_remote_eq p hasRemoteNodeSurrogate_def)
qed simp_all

theorem byebye_leaves_surrogate_witness:
  "\<exists>g' acts. forwardMessageLocally example_api BYEBYE 9 [3, 0, 9] None 0 example_played = Inr (g', acts) \<and>
     hasRemoteNodeSurrogate 9 (fst (prune_remote example_api (seconds 1000) g'))"
proof -
  have ok: "gateway_ok example_played" by (rule gateway.inv_reachable [OF example_played_reachable])
  have "getSocketForRemoteNode example_api 9 False example_played = Some (1, example_played, [])"
    by (simp add: getSocketForRemoteNode_eq example_played_def example_routed_def)
  then obtain g' acts where f: "forwardMessageLocally example_api BYEBYE 9 [3, 0, 9] None 0 example_played = Inr (g', acts)"
    "SendUdp 1 [3, 0, 9] (getBroadcastEndpoint example_api example_played) \<in> set acts"
    by (simp add: forwardMessageLocally_def resolveDestination_def destination_of_def onRemotePeerLeft_def sendUdpMessage_def
        example_api_def)
  from byebye_leaves_surrogate [OF ok f] f(1) show ?thesis by blast
qed

subsection \<open>Endpoint keys\<close>

text \<open>
  The string key identifies the endpoint. As long as the library prints different addresses differently,
  two endpoints have the same key only if they are the same endpoint, even though an IPv6 address
  contains the separator itself.
\<close>

theorem createKeyFromEndpoint_injective:
  assumes "inj (address_string A)" "createKeyFromEndpoint A ep = createKeyFromEndpoint A ep'"
  shows "ep = ep'"
proof -
  from separator_split [of "address_string A (ep_address ep)" "CHR '':''" "to_string (unat (ep_port ep))"
      "address_string A (ep_address ep')" "to_string (unat (ep_port ep'))"] assms(2)
  have "address_string A (ep_address ep) = address_string A (ep_address ep')"
    "to_string (unat (ep_port ep)) = to_string (unat (ep_port ep'))" by (simp_all add: createKeyFromEndpoint_def)
  then have "ep_address ep = ep_address ep'" "unat (ep_port ep) = unat (ep_port ep')"
    using assms(1) decimal_value_to_string by (metis injD)+
  then show ?thesis by (cases ep, cases ep') (simp add: word_unat_eq_iff)
qed

theorem createKeyFromEndpoint_injective_witness:
  "createKeyFromEndpoint example_api \<lparr>ep_address = 1, ep_port = 23\<rparr> \<noteq> createKeyFromEndpoint example_api \<lparr>ep_address = 12, ep_port = 3\<rparr>"
proof
  assume k: "createKeyFromEndpoint example_api \<lparr>ep_address = 1, ep_port = 23\<rparr> = createKeyFromEndpoint example_api \<lparr>ep_address = 12, ep_port = 3\<rparr>"
  have "inj (address_string example_api)"
    using decimal_value_to_string by (metis (no_types, lifting) example_api_def injI link_api.select_convs(11))
  from createKeyFromEndpoint_injective [OF this k] show False by simp
qed

end
