(* ===== verification/Controller.thy ===== *)
theory Controller
  imports UdpTunnel ShmTunnel TunnelGateway
begin

text \<open>
  \<open>include/ableton/extender/Controller.hpp\<close>: the configuration, the choice of the tunnel, the calls that only the UDP
  tunnel takes, the peer counters and the callbacks of the application, and shutdown.

  Link's \<open>Peers\<close> and \<open>PeerGateways\<close> are not part of the repository. \<open>uniqueSessionPeerCount\<close> of the
  two peer tables is the argument \<open>view\<close>: the number of local and of remote peers in a session. An
  installed callback of the application is an identifier; the default callbacks do nothing.
\<close>

subsection \<open>State\<close>

record 'ip Config =
  tunnel_port :: u16
  peers :: "'ip UdpEndpoint list"
  use_shm :: bool

definition default_config :: "'ip Config" where
  "default_config = \<lparr>tunnel_port = 20909, peers = [], use_shm = False\<rparr>"

datatype ('g, 'n, 'ip) AnyTunnel =
    ShmBackend "('g, 'n) ShmTunnel"
  | UdpBackend "('g, 'n, 'ip UdpEndpoint) UdpTunnel"

type_synonym 'sid view = "('sid \<Rightarrow> nat) \<times> ('sid \<Rightarrow> nat)"

record ('g, 'n, 'ip, 'sid, 'cb) Controller =
  mConfig :: "'ip Config"
  mTunnel :: "('g, 'n, 'ip) AnyTunnel option"
  discovery_enabled :: bool
  mSessionPeerCount :: nat                 \<comment> \<open>of \<open>mSessionPeerCounter\<close>\<close>
  mRemoteSessionPeerCount :: nat           \<comment> \<open>of \<open>mRemoteSessionPeerCounter\<close>\<close>
  mLocalSessionId :: 'sid
  mRemoteSessionId :: 'sid
  mPeerCountCallback :: "'cb option"
  mTempoCallback :: "'cb option"
  mStartStopCallback :: "'cb option"

datatype ('g, 'n, 'ip, 'cb) controller_action =
    UdpAction "('g, 'n, 'ip UdpEndpoint) action"
  | ShmAction "('g, 'n) shm_action"
  | PeerCounts 'cb nat nat
  | TempoChanged 'cb int
  | StartStopChanged 'cb bool
  | EnableDiscovery bool
  | RepairGateway 'ip
  | StopIo

type_synonym ('g, 'n, 'ip, 'sid, 'cb) controller_result =
  "('g, 'n, 'ip, 'sid, 'cb) Controller \<times> ('g, 'n, 'ip, 'cb) controller_action list"

subsection \<open>Construction\<close>

text \<open>
  \<open>createTunnel\<close>. \<open>can_bind\<close> tells whether the UDP socket can be bound to a port; the constructor of
  the shared-memory tunnel leaves its mark in the shared memory even when it throws.
\<close>

definition createTunnel ::
    "'n codec \<Rightarrow> (u16 \<Rightarrow> bool) \<Rightarrow> 'ip Config \<Rightarrow> SharedMemory \<Rightarrow>
       SharedMemory \<times> (fault + ('g, 'n, 'ip) AnyTunnel \<times> ('g, 'n, 'ip, 'cb) controller_action list)" where
  "createTunnel C can_bind config m =
     (if use_shm config then
        (case ShmTunnel_init C m of
           (m1, Inl f) \<Rightarrow> (m1, Inl f)
         | (m1, Inr (t, acts)) \<Rightarrow> (m1, Inr (ShmBackend t, map ShmAction acts)))
      else if \<not> can_bind (tunnel_port config) then (m, Inl SocketError)
      else (case UdpTunnel_init (peers config) of
              (t, acts) \<Rightarrow> (m, Inr (UdpBackend t, map UdpAction acts))))"

definition Controller_init ::
    "'n codec \<Rightarrow> (u16 \<Rightarrow> bool) \<Rightarrow> 'sid \<Rightarrow> 'ip Config \<Rightarrow> SharedMemory \<Rightarrow>
       SharedMemory \<times> (fault + ('g, 'n, 'ip, 'sid, 'cb) controller_result)" where
  "Controller_init C can_bind no_session config m =
     (case createTunnel C can_bind config m of
        (m1, Inl f) \<Rightarrow> (m1, Inl f)
      | (m1, Inr (tunnel, acts)) \<Rightarrow>
          (m1, Inr (\<lparr>mConfig = config, mTunnel = Some tunnel, discovery_enabled = True,
                     mSessionPeerCount = 0, mRemoteSessionPeerCount = 0,
                     mLocalSessionId = no_session, mRemoteSessionId = no_session,
                     mPeerCountCallback = None, mTempoCallback = None, mStartStopCallback = None\<rparr>,
                    acts @ [EnableDiscovery True])))"

subsection \<open>Peers of the tunnel\<close>

text \<open>The \<open>dynamic_cast\<close> to the UDP tunnel; with a shared-memory tunnel, or none, nothing happens.\<close>

definition Controller_addPeer ::
    "'n codec \<Rightarrow> 'ip UdpEndpoint \<Rightarrow> ('g, 'n, 'ip, 'sid, 'cb) Controller \<Rightarrow> ('g, 'n, 'ip, 'sid, 'cb) controller_result" where
  "Controller_addPeer C ep c =
     (case mTunnel c of
        Some (UdpBackend t) \<Rightarrow>
          (case addPeer C ep t of (t1, acts) \<Rightarrow> (c\<lparr>mTunnel := Some (UdpBackend t1)\<rparr>, map UdpAction acts))
      | _ \<Rightarrow> (c, []))"

definition Controller_removePeer ::
    "'n codec \<Rightarrow> 'ip UdpEndpoint \<Rightarrow> ('g, 'n, 'ip, 'sid, 'cb) Controller \<Rightarrow>
       fault + ('g, 'n, 'ip, 'sid, 'cb) controller_result" where
  "Controller_removePeer C ep c =
     (case mTunnel c of
        Some (UdpBackend t) \<Rightarrow>
          (case removePeer C ep t of
             Inl f \<Rightarrow> Inl f
           | Inr (t1, acts) \<Rightarrow> Inr (c\<lparr>mTunnel := Some (UdpBackend t1)\<rparr>, map UdpAction acts))
      | _ \<Rightarrow> Inr (c, []))"

definition Controller_setUnknownPeerCallback ::
    "UnknownPeerCallback \<Rightarrow> ('g, 'n, 'ip, 'sid, 'cb) Controller \<Rightarrow> ('g, 'n, 'ip, 'sid, 'cb) Controller" where
  "Controller_setUnknownPeerCallback callback c =
     (case mTunnel c of
        Some (UdpBackend t) \<Rightarrow> c\<lparr>mTunnel := Some (UdpBackend (setUnknownPeerCallback callback t))\<rparr>
      | _ \<Rightarrow> c)"

subsection \<open>Peer counts and session callbacks\<close>

definition setNumPeersCallback :: "'cb \<Rightarrow> ('g, 'n, 'ip, 'sid, 'cb) Controller \<Rightarrow> ('g, 'n, 'ip, 'sid, 'cb) Controller" where
  "setNumPeersCallback callback c = c\<lparr>mPeerCountCallback := Some callback\<rparr>"

definition setTempoCallback :: "'cb \<Rightarrow> ('g, 'n, 'ip, 'sid, 'cb) Controller \<Rightarrow> ('g, 'n, 'ip, 'sid, 'cb) Controller" where
  "setTempoCallback callback c = c\<lparr>mTempoCallback := Some callback\<rparr>"

definition setStartStopCallback :: "'cb \<Rightarrow> ('g, 'n, 'ip, 'sid, 'cb) Controller \<Rightarrow> ('g, 'n, 'ip, 'sid, 'cb) Controller" where
  "setStartStopCallback callback c = c\<lparr>mStartStopCallback := Some callback\<rparr>"

definition notifyPeerCount ::
    "'sid view \<Rightarrow> ('g, 'n, 'ip, 'sid, 'cb) Controller \<Rightarrow> ('g, 'n, 'ip, 'cb) controller_action list" where
  "notifyPeerCount view c =
     (let local = fst view (mLocalSessionId c);
          remote = snd view (mRemoteSessionId c)
      in case mPeerCountCallback c of None \<Rightarrow> [] | Some callback \<Rightarrow> [PeerCounts callback local remote])"

text \<open>
  \<open>SessionPeerCounter::operator()\<close>: the new count is exchanged for the old one, and \<open>mNotify\<close> is
  called if they differ. The two counters of the controller, which Link calls when the peers
  change, notify with both counts.
\<close>

definition SessionPeerCounter :: "nat \<Rightarrow> nat \<Rightarrow> nat \<times> bool" where
  "SessionPeerCounter count oldCount = (count, oldCount \<noteq> count)"

definition localPeersChanged ::
    "'sid view \<Rightarrow> ('g, 'n, 'ip, 'sid, 'cb) Controller \<Rightarrow> ('g, 'n, 'ip, 'sid, 'cb) controller_result" where
  "localPeersChanged view c =
     (let (count, notify) = SessionPeerCounter (fst view (mLocalSessionId c)) (mSessionPeerCount c)
      in (c\<lparr>mSessionPeerCount := count\<rparr>, if notify then notifyPeerCount view c else []))"

definition remotePeersChanged ::
    "'sid view \<Rightarrow> ('g, 'n, 'ip, 'sid, 'cb) Controller \<Rightarrow> ('g, 'n, 'ip, 'sid, 'cb) controller_result" where
  "remotePeersChanged view c =
     (let (count, notify) = SessionPeerCounter (snd view (mRemoteSessionId c)) (mRemoteSessionPeerCount c)
      in (c\<lparr>mRemoteSessionPeerCount := count\<rparr>, if notify then notifyPeerCount view c else []))"

text \<open>
  \<open>SessionTimelineCallback\<close> of the local peers (\<open>mUpdateTempo\<close> set) and of the remote peers. The tempo is
  Link's integer number of microseconds per beat.
\<close>

definition SessionTimelineCallback ::
    "bool \<Rightarrow> 'sid \<Rightarrow> int \<Rightarrow> ('g, 'n, 'ip, 'sid, 'cb) Controller \<Rightarrow> ('g, 'n, 'ip, 'sid, 'cb) controller_result" where
  "SessionTimelineCallback mUpdateTempo session tempo c =
     (if mUpdateTempo then
        (c\<lparr>mLocalSessionId := session\<rparr>,
         (case mTempoCallback c of None \<Rightarrow> [] | Some callback \<Rightarrow> [TempoChanged callback tempo]))
      else (c\<lparr>mRemoteSessionId := session\<rparr>, []))"

definition SessionStartStopStateCallback ::
    "bool \<Rightarrow> ('g, 'n, 'ip, 'sid, 'cb) Controller \<Rightarrow> ('g, 'n, 'ip, 'cb) controller_action list" where
  "SessionStartStopStateCallback isPlaying c =
     (case mStartStopCallback c of None \<Rightarrow> [] | Some callback \<Rightarrow> [StartStopChanged callback isPlaying])"

subsection \<open>Gateways and shutdown\<close>

text \<open>
  \<open>GatewayFactory\<close>: a new gateway on the interface \<open>addr\<close>, known to the tunnel as \<open>gid\<close>, which is
  listening when it is returned. \<open>can_listen\<close> tells whether its multicast socket can be opened.
\<close>

definition AnyTunnel_addGateway :: "'g \<Rightarrow> ('g, 'n, 'ip) AnyTunnel \<Rightarrow> ('g, 'n, 'ip) AnyTunnel" where
  "AnyTunnel_addGateway gid tunnel =
     (case tunnel of ShmBackend t \<Rightarrow> ShmBackend (addGateway gid t) | UdpBackend t \<Rightarrow> UdpBackend (addGateway gid t))"

definition GatewayFactory ::
    "('ip \<Rightarrow> bool) \<Rightarrow> 'ip \<Rightarrow> 'g \<Rightarrow> ('g, 'n, 'ip, 'sid, 'cb) Controller \<Rightarrow>
       fault + ('g, 'n, 'ip, 'sid, 'cb) Controller \<times> ('n, 'ip, 'ps) gateway_result" where
  "GatewayFactory can_listen addr gid c =
     (if \<not> can_listen addr then Inl SocketError
      else (case mTunnel c of
              None \<Rightarrow> Inl NullPointer
            | Some tunnel \<Rightarrow>
                Inr (c\<lparr>mTunnel := Some (AnyTunnel_addGateway gid tunnel)\<rparr>, gateway_listen (TunnelGateway_init addr))))"

text \<open>The handler of an exception that leaves a task of the IO thread posts the repair of the gateway.\<close>

definition UdpSendExceptionHandler :: "'ip \<Rightarrow> ('g, 'n, 'ip, 'cb) controller_action list" where
  "UdpSendExceptionHandler interfaceAddr = [RepairGateway interfaceAddr]"

text \<open>
  The destructor, in three pieces: the tunnel stops listening; a task on the IO thread, which the destructor waits
  for, disables the discovery; the tunnel is destroyed (\<open>None\<close> as memory: the shared memory object is removed), and
  the IO thread ends. \<open>Process\<close> puts the steps of the other threads between the pieces.
\<close>

definition tunnel_stop_listening ::
    "'n codec \<Rightarrow> ('g, 'n, 'ip, 'sid, 'cb) Controller \<Rightarrow> SharedMemory \<Rightarrow>
       fault + ('g, 'n, 'ip, 'sid, 'cb) Controller \<times> SharedMemory \<times> ('g, 'n, 'ip, 'cb) controller_action list" where
  "tunnel_stop_listening C c m =
     (case mTunnel c of
        None \<Rightarrow> Inl NullPointer
      | Some (UdpBackend t) \<Rightarrow>
          (case stop_listening C t of (t1, acts) \<Rightarrow> Inr (c\<lparr>mTunnel := Some (UdpBackend t1)\<rparr>, m, map UdpAction acts))
      | Some (ShmBackend t) \<Rightarrow>
          (case ShmTunnel_stop_listening C t m of
             Inl f \<Rightarrow> Inl f
           | Inr (t1, m1, acts) \<Rightarrow> Inr (c\<lparr>mTunnel := Some (ShmBackend t1)\<rparr>, m1, map ShmAction acts)))"

definition disable_discovery ::
    "('g, 'n, 'ip, 'sid, 'cb) Controller \<Rightarrow> ('g, 'n, 'ip, 'sid, 'cb) controller_result" where
  "disable_discovery c = (c\<lparr>discovery_enabled := False\<rparr>, [EnableDiscovery False])"

definition tunnel_reset ::
    "('g, 'n, 'ip, 'sid, 'cb) Controller \<Rightarrow> SharedMemory \<Rightarrow> ('g, 'n, 'ip, 'sid, 'cb) Controller \<times> SharedMemory option" where
  "tunnel_reset c m =
     (c\<lparr>mTunnel := None\<rparr>, case mTunnel c of Some (ShmBackend t) \<Rightarrow> ShmTunnel_destroy m | _ \<Rightarrow> Some m)"

definition Controller_destroy ::
    "'n codec \<Rightarrow> ('g, 'n, 'ip, 'sid, 'cb) Controller \<Rightarrow> SharedMemory \<Rightarrow>
       fault + ('g, 'n, 'ip, 'sid, 'cb) Controller \<times> SharedMemory option \<times> ('g, 'n, 'ip, 'cb) controller_action list" where
  "Controller_destroy C c m =
     (case tunnel_stop_listening C c m of
        Inl f \<Rightarrow> Inl f
      | Inr (c1, m1, acts) \<Rightarrow>
          (let (c2, acts') = disable_discovery c1;
               (c3, m3) = tunnel_reset c2 m1
           in Inr (c3, m3, acts @ acts' @ [StopIo])))"

end
