(* ===== verification/Controller_Properties.thy ===== *)
theory Controller_Properties
  imports Controller
begin

text \<open>
  What the application hears from the controller: the two peer counters and the one callback they
  share, compared with the counts of the two peer tables, while Link also changes the session
  the counts are taken for.
\<close>

subsection \<open>Sequences of notifications from Link\<close>

datatype 'sid peer_event =
    LocalPeers "'sid view"             \<comment> \<open>the counter of the local peers is called\<close>
  | RemotePeers "'sid view"
  | LocalSession 'sid int              \<comment> \<open>\<open>SessionTimelineCallback\<close> of the local peers, with a tempo\<close>
  | RemoteSession 'sid int

text \<open>The pair of counts an application would see by looking at the peer tables at that moment.\<close>

definition counts_in :: "('g, 'n, 'ip, 'sid, 'cb) Controller \<Rightarrow> 'sid view \<Rightarrow> nat \<times> nat" where
  "counts_in c v = (fst v (mLocalSessionId c), snd v (mRemoteSessionId c))"

text \<open>The calls of the counters in a run: which counter, the pair of counts at that moment, and what was called back.\<close>

record ('g, 'n, 'ip, 'cb) counter_call =
  by_local :: bool
  pair :: "nat \<times> nat"
  reports :: "('g, 'n, 'ip, 'cb) controller_action list"

fun counter_calls ::
    "'sid peer_event list \<Rightarrow> ('g, 'n, 'ip, 'sid, 'cb) Controller \<Rightarrow> ('g, 'n, 'ip, 'cb) counter_call list" where
  "counter_calls [] c = []"
| "counter_calls (LocalPeers v # es) c =
     (let (c1, acts) = localPeersChanged v c
      in \<lparr>by_local = True, pair = counts_in c v, reports = acts\<rparr> # counter_calls es c1)"
| "counter_calls (RemotePeers v # es) c =
     (let (c1, acts) = remotePeersChanged v c
      in \<lparr>by_local = False, pair = counts_in c v, reports = acts\<rparr> # counter_calls es c1)"
| "counter_calls (LocalSession sid tempo # es) c = counter_calls es (fst (SessionTimelineCallback True sid tempo c))"
| "counter_calls (RemoteSession sid tempo # es) c = counter_calls es (fst (SessionTimelineCallback False sid tempo c))"

subsection \<open>Each counter by itself\<close>

lemma remdups_adj_step: "tl (remdups_adj (a # b # xs)) = (if a = b then [] else [b]) @ tl (remdups_adj (b # xs))"
  by (simp add: remdups_adj_Cons split: list.split)

lemma counter_steps:
  assumes "mPeerCountCallback c = Some callback"
  shows "localPeersChanged v c = (c\<lparr>mSessionPeerCount := fst (counts_in c v)\<rparr>,
       if mSessionPeerCount c = fst (counts_in c v) then [] else [case_prod (PeerCounts callback) (counts_in c v)])"
    and "remotePeersChanged v c = (c\<lparr>mRemoteSessionPeerCount := snd (counts_in c v)\<rparr>,
       if mRemoteSessionPeerCount c = snd (counts_in c v) then [] else [case_prod (PeerCounts callback) (counts_in c v)])"
  using assms
  by (simp_all add: localPeersChanged_def remotePeersChanged_def SessionPeerCounter_def notifyPeerCount_def counts_in_def)

lemma session_step:
  "mPeerCountCallback (fst (SessionTimelineCallback up sid tempo c)) = mPeerCountCallback c"
  "mSessionPeerCount (fst (SessionTimelineCallback up sid tempo c)) = mSessionPeerCount c"
  "mRemoteSessionPeerCount (fst (SessionTimelineCallback up sid tempo c)) = mRemoteSessionPeerCount c"
  by (simp_all add: SessionTimelineCallback_def)

lemma report_true:
  assumes "mPeerCountCallback c = Some callback"
  shows "list_all (\<lambda>r. reports r = [] \<or> reports r = [case_prod (PeerCounts callback) (pair r)]) (counter_calls es c)"
  using assms
proof (induction es arbitrary: c)
  case (Cons e es)
  then show ?case by (cases e) (simp_all add: counter_steps [OF Cons.prems] session_step)
qed simp

lemma local_reports:
  assumes "mPeerCountCallback c = Some callback"
  shows "map (fst \<circ> pair) (filter (\<lambda>r. by_local r \<and> reports r \<noteq> []) (counter_calls es c)) =
     tl (remdups_adj (mSessionPeerCount c # map (fst \<circ> pair) (filter by_local (counter_calls es c))))"
  using assms
proof (induction es arbitrary: c)
  case (Cons e es)
  then show ?case
    by (cases e) (simp_all add: counter_steps [OF Cons.prems] session_step remdups_adj_step del: remdups_adj.simps)
qed simp

lemma remote_reports:
  assumes "mPeerCountCallback c = Some callback"
  shows "map (snd \<circ> pair) (filter (\<lambda>r. \<not> by_local r \<and> reports r \<noteq> []) (counter_calls es c)) =
     tl (remdups_adj (mRemoteSessionPeerCount c # map (snd \<circ> pair) (filter (\<lambda>r. \<not> by_local r) (counter_calls es c))))"
  using assms
proof (induction es arbitrary: c)
  case (Cons e es)
  then show ?case
    by (cases e) (simp_all add: counter_steps [OF Cons.prems] session_step remdups_adj_step del: remdups_adj.simps)
qed simp

subsection \<open>Both counters while the sessions stay\<close>

text \<open>
  Link calls the counter of a peer table after every change of that table. So as long as the sessions stay the
  same, only the count of the table that is called for can have changed between two calls. A change of
  session changes the counts without a call; such runs are left out here.
\<close>

fun called_on_change :: "('g, 'n, 'ip, 'sid, 'cb) Controller \<Rightarrow> nat \<times> nat \<Rightarrow> 'sid peer_event list \<Rightarrow> bool" where
  "called_on_change c p [] \<longleftrightarrow> True"
| "called_on_change c p (LocalPeers v # es) \<longleftrightarrow> snd (counts_in c v) = snd p \<and> called_on_change c (counts_in c v) es"
| "called_on_change c p (RemotePeers v # es) \<longleftrightarrow> fst (counts_in c v) = fst p \<and> called_on_change c (counts_in c v) es"
| "called_on_change c p (LocalSession sid tempo # es) \<longleftrightarrow> False"
| "called_on_change c p (RemoteSession sid tempo # es) \<longleftrightarrow> False"

lemma called_on_change_cong:
  "mLocalSessionId c' = mLocalSessionId c \<Longrightarrow> mRemoteSessionId c' = mRemoteSessionId c \<Longrightarrow>
     called_on_change c' p es = called_on_change c p es"
  by (induction c p es rule: called_on_change.induct) (simp_all add: counts_in_def)

lemma calls_report_changes:
  assumes "mPeerCountCallback c = Some callback"
    and "called_on_change c (mSessionPeerCount c, mRemoteSessionPeerCount c) es"
  shows "concat (map reports (counter_calls es c)) = map (case_prod (PeerCounts callback))
    (tl (remdups_adj ((mSessionPeerCount c, mRemoteSessionPeerCount c) # map pair (counter_calls es c))))"
  using assms
proof (induction es arbitrary: c)
  case (Cons e es)
  show ?case
  proof (cases e)
    case (LocalPeers v)
    let ?c = "c\<lparr>mSessionPeerCount := fst (counts_in c v)\<rparr>"
    obtain l r where p: "counts_in c v = (l, r)" by force
    have r: "r = mRemoteSessionPeerCount c" "called_on_change c (l, r) es" using Cons.prems(2) unfolding LocalPeers called_on_change.simps p prod.sel by blast+
    have "called_on_change ?c (mSessionPeerCount ?c, mRemoteSessionPeerCount ?c) es"
      using called_on_change_cong [of ?c c "(l, r)" es] r(2) unfolding r(1) by (simp add: p)
    from Cons.IH [OF _ this] Cons.prems(1) have
      "concat (map reports (counter_calls es ?c)) = map (case_prod (PeerCounts callback)) (tl (remdups_adj ((l, r) # map pair (counter_calls es ?c))))"
      using p r(1) by simp
    then show ?thesis
      using LocalPeers p r(1) by (simp add: counter_steps [OF Cons.prems(1)] remdups_adj_step del: remdups_adj.simps)
  next
    case (RemotePeers v)
    let ?c = "c\<lparr>mRemoteSessionPeerCount := snd (counts_in c v)\<rparr>"
    obtain l r where p: "counts_in c v = (l, r)" by force
    have l: "l = mSessionPeerCount c" "called_on_change c (l, r) es" using Cons.prems(2) unfolding RemotePeers called_on_change.simps p prod.sel by blast+
    have "called_on_change ?c (mSessionPeerCount ?c, mRemoteSessionPeerCount ?c) es"
      using called_on_change_cong [of ?c c "(l, r)" es] l(2) unfolding l(1) by (simp add: p)
    from Cons.IH [OF _ this] Cons.prems(1) have
      "concat (map reports (counter_calls es ?c)) = map (case_prod (PeerCounts callback)) (tl (remdups_adj ((l, r) # map pair (counter_calls es ?c))))"
      using p l(1) by simp
    then show ?thesis
      using RemotePeers p l(1) by (simp add: counter_steps [OF Cons.prems(1)] remdups_adj_step del: remdups_adj.simps)
  qed (use Cons.prems(2) in simp_all)
qed simp

subsection \<open>Properties\<close>

text \<open>
  C36: What the application hears of the peer counts, in any run of counter calls and session changes. What a
  counter reports is the pair of counts that holds at that moment. Each counter reports exactly the changes of its own
  number: the numbers it reports are the numbers it was called with, repetitions removed, starting from the one it
  remembers. While no session changes and Link calls the counter of a table on every change of that
  table (\<open>called_on_change\<close>), the reports of both together are exactly the changes of the pair, each once. With
  session changes in between that last part fails, see \<open>pair_reported_twice\<close>.
\<close>

theorem peer_counts_reported_on_change:
  assumes "mPeerCountCallback c = Some callback"
  shows "(\<forall>r \<in> set (counter_calls es c). reports r = [] \<or> reports r = [PeerCounts callback (fst (pair r)) (snd (pair r))]) \<and>
    map (fst \<circ> pair) (filter (\<lambda>r. by_local r \<and> reports r \<noteq> []) (counter_calls es c)) =
      tl (remdups_adj (mSessionPeerCount c # map (fst \<circ> pair) (filter by_local (counter_calls es c)))) \<and>
    map (snd \<circ> pair) (filter (\<lambda>r. \<not> by_local r \<and> reports r \<noteq> []) (counter_calls es c)) =
      tl (remdups_adj (mRemoteSessionPeerCount c # map (snd \<circ> pair) (filter (\<lambda>r. \<not> by_local r) (counter_calls es c)))) \<and>
    (called_on_change c (mSessionPeerCount c, mRemoteSessionPeerCount c) es \<longrightarrow>
       concat (map reports (counter_calls es c)) = map (\<lambda>(local, remote). PeerCounts callback local remote)
         (tl (remdups_adj ((mSessionPeerCount c, mRemoteSessionPeerCount c) # map pair (counter_calls es c)))))"
  using report_true [OF assms, unfolded list_all_iff] local_reports [OF assms] remote_reports [OF assms] calls_report_changes [OF assms]
  by (fastforce simp: split_beta)

definition example_controller :: "(nat, u64, nat, nat, nat) Controller" where
  "example_controller = \<lparr>mConfig = default_config, mTunnel = None, discovery_enabled = True, mSessionPeerCount = 0,
     mRemoteSessionPeerCount = 0, mLocalSessionId = 1, mRemoteSessionId = 2, mPeerCountCallback = Some 7,
     mTempoCallback = None, mStartStopCallback = None\<rparr>"

text \<open>Two local peers appear, the counter is called again, then a remote peer appears.\<close>

theorem peer_counts_reported_on_change_witness:
  "concat (map reports (counter_calls [LocalPeers (\<lambda>_. 2, \<lambda>_. 0), LocalPeers (\<lambda>_. 2, \<lambda>_. 0), RemotePeers (\<lambda>_. 2, \<lambda>_. 1)]
     example_controller)) = [PeerCounts 7 2 0, PeerCounts 7 2 1]"
proof -
  have "mPeerCountCallback example_controller = Some 7" by (simp add: example_controller_def)
  from peer_counts_reported_on_change [OF this, of "[LocalPeers (\<lambda>_. 2, \<lambda>_. 0), LocalPeers (\<lambda>_. 2, \<lambda>_. 0), RemotePeers (\<lambda>_. 2, \<lambda>_. 1)]"]
  show ?thesis
    by (simp add: example_controller_def counts_in_def localPeersChanged_def remotePeersChanged_def SessionPeerCounter_def Let_def)
qed

text \<open>
  A session change behind the back of the counters. Session 1 has one local peer and session 3 has two. The
  count of session 1 was reported; a new timeline of session 3 makes it the current one without a call of the counter.
  What is on display is then wrong until some counter is called; the next change of the remote peers reports the
  pair, and the next call for the local peers reports the same pair again.
\<close>

lemma pair_reported_twice:
  defines "local \<equiv> (\<lambda>sid :: nat. if sid = 1 then 1 else 2)"
  shows "map reports (counter_calls [LocalPeers (local, \<lambda>_. 0), LocalSession 3 500000, RemotePeers (local, \<lambda>_. 1),
      LocalPeers (local, \<lambda>_. 1)] example_controller) = [[PeerCounts 7 1 0], [PeerCounts 7 2 1], [PeerCounts 7 2 1]]"
  by (simp add: local_def example_controller_def counts_in_def localPeersChanged_def remotePeersChanged_def
      SessionPeerCounter_def SessionTimelineCallback_def notifyPeerCount_def)

text \<open>
  The wrong count can also outlast a call: the session goes to another one whose count is reported by the remote
  counter, and back; the local counter finds the number it remembers and says nothing.
\<close>

lemma stale_count_stays:
  defines "local \<equiv> (\<lambda>sid :: nat. if sid = 1 then 1 else 2)"
  shows "map reports (counter_calls [LocalPeers (local, \<lambda>_. 0), LocalSession 3 500000, RemotePeers (local, \<lambda>_. 1),
      LocalSession 1 500000, LocalPeers (local, \<lambda>_. 1)] example_controller) = [[PeerCounts 7 1 0], [PeerCounts 7 2 1], []] \<and>
    pair (last (counter_calls [LocalPeers (local, \<lambda>_. 0), LocalSession 3 500000, RemotePeers (local, \<lambda>_. 1),
      LocalSession 1 500000, LocalPeers (local, \<lambda>_. 1)] example_controller)) = (1, 1)"
  by (simp add: local_def example_controller_def counts_in_def localPeersChanged_def remotePeersChanged_def
      SessionPeerCounter_def SessionTimelineCallback_def notifyPeerCount_def)

end
