(* ===== verification/End_To_End.thy ===== *)
theory End_To_End
  imports Two_Sites TunnelGateway_Properties
begin

text \<open>
  From local network to local network: the gateway and the tunnel of one site and the tunnel and a
  gateway of another, composed as the actions of each are the calls of the next.
\<close>

subsection \<open>Playing a state message\<close>

text \<open>
  On an IPv4 interface, with a surrogate or sockets to make one, a state message of a remote node is sent by
  the surrogate with the surrogate's own measurement endpoint: a broadcast to the Link multicast group, an
  answer to the endpoint of the node it is for.
\<close>

lemma surrogate_available:
  assumes "hasRemoteNodeSurrogate n g \<or> (\<forall>k. can_open A k)"
  obtains s g1 acts where "getSocketForRemoteNode A n False g = Some (stateSocket s, g1, acts)"
    "mRemoteNodeIdToRemoteNodeSurrogate g1 n = Some s" "local_interface_address g1 = local_interface_address g"
proof (cases "mRemoteNodeIdToRemoteNodeSurrogate g n")
  case None
  with assms have "\<forall>k. can_open A k" by (simp add: hasRemoteNodeSurrogate_def)
  with None that [of "\<lparr>stateSocket = next_socket g, measurementSocket = next_socket g + 1, surrogate_running = True\<rparr>"]
  show thesis by (simp add: getSocketForRemoteNode_eq Let_def)
next
  case (Some s)
  with that [of s g "[]"] show thesis by (simp add: getSocketForRemoteNode_eq)
qed

lemma plays_state:
  assumes dest: "mt = BROADCAST \<and> is_v4 A (local_interface_address g) \<and> ep = multicastEndpointV4 A \<or>
      mt = UNICAST \<and> (\<exists>k e. to = Some k \<and> localNodeIdToEndpointMap g k = Some e \<and> ep = stateEndpoint e)"
    and "is_v4 A (ep_address ep)" "hasRemoteNodeSurrogate n g \<or> (\<forall>k. can_open A k)"
    and fits: "\<And>ep. length m + length (measurement_payload A ep) < max_message_size A"
  shows "\<exists>g' acts s. forwardMessageLocally A mt n m to now g = Inr (g', acts) \<and>
    mRemoteNodeIdToRemoteNodeSurrogate g' n = Some s \<and>
    SendUdp (stateSocket s) (m @ measurement_payload A (socket_endpoint A (measurementSocket s))) ep \<in> set acts"
proof -
  obtain s g1 acts1 where s: "getSocketForRemoteNode A n False g = Some (stateSocket s, g1, acts1)"
    "mRemoteNodeIdToRemoteNodeSurrogate g1 n = Some s"
    using surrogate_available [OF assms(3)] by blast
  have r: "resolveDestination A mt n to g = Inr (Some (stateSocket s, ep), g1, acts1)"
    using dest s(1) assms(2)
    by (auto simp: resolveDestination_def destination_of_def getBroadcastEndpoint_def hasLocalNode_def)
  obtain g2 acts2 where o: "observeRemotePeerState A n m now g1 = (g2, acts2)" by force
  obtain tr where g2: "g2 = g1\<lparr>mRemoteTracker := tr\<rparr>" using observe_frame [OF o] by blast
  with s(2) have s2: "mRemoteNodeIdToRemoteNodeSurrogate g2 n = Some s" by simp
  then have "appendMeasurementEndpoint A n m g2 =
      Some (m @ measurement_payload A (socket_endpoint A (measurementSocket s)), g2, [])"
    using fits by (simp add: appendMeasurementEndpoint_def getSocketForRemoteNode_eq)
  with dest r o s2 show ?thesis by (auto simp: forwardMessageLocally_def sendUdpMessage_def)
qed

subsection \<open>Carrying a measurement\<close>

text \<open>
  \<open>carried\<close>: what a gateway of site \<open>A\<close> forwards leaves its tunnel as a datagram for site \<open>B\<close>, and the tunnel
  there calls the gateway \<open>g\<close> with it. \<open>a\<close> and \<open>b\<close> are the endpoints of the sites for each other.
\<close>

definition carried ::
    "'n codec \<Rightarrow> 'ep \<Rightarrow> 'ep \<Rightarrow> TunnelMessageType \<Rightarrow> 'n \<Rightarrow> bytes \<Rightarrow> 'n option \<Rightarrow> 'g \<Rightarrow> time \<Rightarrow> time \<Rightarrow>
       ('g, 'n, 'ep) UdpTunnel \<Rightarrow> ('g, 'n, 'ep) UdpTunnel \<Rightarrow> ('g, 'n, 'ep) UdpTunnel \<Rightarrow> ('g, 'n, 'ep) UdpTunnel \<Rightarrow> bool" where
  "carried C a b mt n msg to g now later A B A' B' \<longleftrightarrow>
     (\<exists>acts d acts'. forward C mt n msg to now A = Inr (A', acts) \<and> d \<in> set (sent_to b acts) \<and>
        on_datagram C a d later B = Inr (B', acts') \<and> CallGateway (ForwardMessageLocally g mt n msg to) \<in> set acts')"

lemma connected_peer:
  assumes "connected t ep"
  obtains i where "mEndpointToPeerIdx t ep = Some i" "i < length (mPeers t)" "state (mPeers t ! i) = CONNECTED"
  using assms by (auto simp: connected_def knows_def peer_entry_def)

lemma sent_to_each: "p \<in> set ps \<Longrightarrow> endpoint p = b \<Longrightarrow> d \<in> set (sent_to b (map (\<lambda>p. SendTo d (endpoint p)) ps))"
  by (induction ps) auto

lemma sent_to_only: "d' \<in> set (sent_to b (map (\<lambda>p. SendTo d (endpoint p)) ps)) \<Longrightarrow> d' = d"
  by (induction ps) (auto split: if_splits)

text \<open>A message for a node follows the route of the node, a pong goes to every connected peer.\<close>

lemma addressed_carried:
  assumes codec: "wire_codec C" and mt: "mt = UNICAST \<or> mt = MEASUREMENT_PING \<or> mt = MEASUREMENT_PONG"
    and fits: "header_size C mt + length msg \<le> kMaxMessageSize C"
    and A: "udp_ok A" "connected A b" "mt \<noteq> MEASUREMENT_PONG \<Longrightarrow> remoteNodeIdToPeerIdx A m = mEndpointToPeerIdx A b"
    and go: "shouldForward mt n msg now A = Inr (True, A1)"
    and B: "connected B a" "g \<in> set (gateways B)"
  shows "\<exists>routes. carried C a b mt n msg (Some m) g now later A B A1 (B\<lparr>remoteNodeIdToPeerIdx := routes\<rparr>)"
proof -
  let ?d = "datagram_of C (outbound mt n (Some m)) msg"
  have to: "carries_to_node mt" using mt by (auto simp: carries_to_node_def)
  obtain i where i: "mEndpointToPeerIdx A b = Some i" "i < length (mPeers A)" "state (mPeers A ! i) = CONNECTED"
    using A(2) by (rule connected_peer)
  have b: "endpoint (mPeers A ! i) = b" using index_okD [OF udp_okD(1) [OF A(1)] i(1)] by simp
  obtain c where A1: "A1 = A\<lparr>mDedupCache := c\<rparr>"
    using shouldForward_ok [OF udp_okD(5) [OF A(1)]] go by (metis old.sum.inject(2) prod.inject)
  have "?d \<in> set (sent_to b (map (\<lambda>p. SendTo ?d (endpoint p)) (filter (\<lambda>p. state p = CONNECTED) (mPeers A))))"
    using i b by (intro sent_to_each [of "mPeers A ! i"]) auto
  then obtain acts where f: "forward C mt n msg (Some m) now A = Inr (A1, acts)" "?d \<in> set (sent_to b acts)"
    using wire_codec.forward_unfold [OF codec go fits, of "Some m"] mt A(3) i b by (auto simp: A1 Let_def)
  obtain j where j: "mEndpointToPeerIdx B a = Some j" "j < length (mPeers B)" "state (mPeers B ! j) = CONNECTED"
    using B(1) by (rule connected_peer)
  have "on_datagram C a ?d later B =
      Inr (B\<lparr>remoteNodeIdToPeerIdx := emplace n j (remoteNodeIdToPeerIdx B)\<rparr>,
           map CallGateway (forward_locally mt n msg (Some m) B) @ (if is_running B then [ReceiveAgain] else []))"
    by (rule wire_codec.on_datagram_link [OF codec]) (use mt fits to j in auto)
  with f B(2) show ?thesis unfolding carried_def forward_locally_def by fastforce
qed

text \<open>A site that knows nothing of a node learns its route from the broadcast that is carried to it.\<close>

lemma broadcast_carried_learns:
  assumes codec: "wire_codec C" and fits: "header_size C BROADCAST + length msg \<le> kMaxMessageSize C"
    and c: "carried C a b BROADCAST n msg None g now later A B A' B'"
    and A: "udp_ok A" "connected A b" and B: "udp_ok B" "connected B a"
  obtains c j where "A' = A\<lparr>mDedupCache := c\<rparr>" "mEndpointToPeerIdx B a = Some j"
    "B' = B\<lparr>remoteNodeIdToPeerIdx := emplace n j (remoteNodeIdToPeerIdx B)\<rparr>"
proof -
  let ?d = "datagram_of C (outbound BROADCAST n None) msg"
  from c obtain acts d acts' where f: "forward C BROADCAST n msg None now A = Inr (A', acts)" "d \<in> set (sent_to b acts)"
    "on_datagram C a d later B = Inr (B', acts')" by (auto simp: carried_def)
  obtain go e where go: "shouldForward BROADCAST n msg now A = Inr (go, A\<lparr>mDedupCache := e\<rparr>)"
    using shouldForward_ok [OF udp_okD(5) [OF A(1)]] by metis
  have go_on: "go" using f(1,2) go by (cases go) (simp_all add: forward_def)
  have go': "shouldForward BROADCAST n msg now A = Inr (True, A\<lparr>mDedupCache := e\<rparr>)" using go go_on by simp
  have "forward C BROADCAST n msg None now A =
      Inr (A\<lparr>mDedupCache := e\<rparr>, map (\<lambda>p. SendTo ?d (endpoint p)) (filter (\<lambda>p. state p = CONNECTED) (mPeers A)))"
    using wire_codec.forward_unfold [OF codec go' fits, of None] by (simp add: carries_to_node_def Let_def)
  from trans [OF f(1) [symmetric] this] have A': "A' = A\<lparr>mDedupCache := e\<rparr>"
    and acts: "acts = map (\<lambda>p. SendTo ?d (endpoint p)) (filter (\<lambda>p. state p = CONNECTED) (mPeers A))"
    unfolding sum.inject prod.inject by (rule conjunct1, rule conjunct2)
  have d: "d = ?d" by (rule sent_to_only [OF f(2) [unfolded acts]])
  obtain j where j: "mEndpointToPeerIdx B a = Some j" "j < length (mPeers B)" "state (mPeers B ! j) = CONNECTED"
    using B(2) by (rule connected_peer)
  have "B' = B\<lparr>remoteNodeIdToPeerIdx := emplace n j (remoteNodeIdToPeerIdx B)\<rparr>"
    using f(3) wire_codec.on_datagram_link [OF codec _ fits _ j, of None n later] by (simp add: d carries_to_node_def)
  with A' j(1) that show thesis by blast
qed

text \<open>Neither pings nor pongs are filtered.\<close>

lemma measurement_carried:
  assumes "wire_codec C" "mt = MEASUREMENT_PING \<or> mt = MEASUREMENT_PONG"
    and "header_size C mt + length msg \<le> kMaxMessageSize C"
    and "udp_ok A" "connected A b" "mt = MEASUREMENT_PING \<Longrightarrow> remoteNodeIdToPeerIdx A m = mEndpointToPeerIdx A b"
    and "connected B a" "g \<in> set (gateways B)"
  shows "\<exists>routes. carried C a b mt n msg (Some m) g now later A B A (B\<lparr>remoteNodeIdToPeerIdx := routes\<rparr>)"
proof -
  have "shouldForward mt n msg now A = Inr (True, A)" using assms(2) by (auto simp: shouldForward_def)
  from addressed_carried [OF assms(1) _ assms(3-5) _ this assms(7,8)] assms(2,6) show ?thesis by blast
qed

text \<open>The gateway of the node that is measured: the ping is played from a socket of its own, and the answer goes back.\<close>

lemma ping_played_and_answered:
  assumes node: "localNodeIdToEndpointMap g n = Some e" "is_v4 A (ep_address (measurementEndpoint e))"
      "localMeasurementEndpointToNodeId g (createKeyFromEndpoint A (measurementEndpoint e)) = Some n"
    and sock: "mRemoteNodeIdToRemoteMeasurementSurrogate g fake \<noteq> None \<or> (\<forall>k. can_open A k)"
    and pong: "\<not> is_ping A pong"
  obtains g' acts p acts' where
    "forwardMessageLocally A MEASUREMENT_PING fake ping (Some n) now g = Inr (g', acts)"
    "mRemoteNodeIdToRemoteMeasurementSurrogate g' fake = Some p" "SendUdp (pingSocket p) ping (measurementEndpoint e) \<in> set acts"
    "ping_surrogate_receive A fake (measurementEndpoint e) pong fake' g' = (g', acts')"
    "TunnelForward MEASUREMENT_PONG n pong (Some fake) \<in> set acts'"
proof -
  obtain p g1 acts where s: "getSocketForRemoteMeasurement A fake g = Some (pingSocket p, g1, acts)"
    "mRemoteNodeIdToRemoteMeasurementSurrogate g1 fake = Some p"
    and same: "localMeasurementEndpointToNodeId g1 = localMeasurementEndpointToNodeId g"
  proof (cases "mRemoteNodeIdToRemoteMeasurementSurrogate g fake")
    case None
    then show thesis using sock that [of "\<lparr>pingSocket = next_socket g, ping_running = True\<rparr>"]
      by (simp add: getSocketForRemoteMeasurement_eq Let_def)
  next
    case (Some p)
    then show thesis using that [of p g "[]"] by (simp add: getSocketForRemoteMeasurement_eq)
  qed
  have "resolveDestination A MEASUREMENT_PING fake (Some n) g = Inr (Some (pingSocket p, measurementEndpoint e), g1, acts)"
    using node(1,2) s(1) by (simp add: resolveDestination_def destination_of_def hasLocalNode_def)
  then have f: "forwardMessageLocally A MEASUREMENT_PING fake ping (Some n) now g =
      Inr (g1, acts @ [SendUdp (pingSocket p) ping (measurementEndpoint e)])"
    by (simp add: forwardMessageLocally_def sendUdpMessage_def)
  show thesis
    by (rule that [OF f s(2)]) (use node(3) same pong s(2) in
        \<open>auto simp: ping_surrogate_receive_def handle_measurement_message_def\<close>)
qed

subsection \<open>Properties\<close>

text \<open>
  C2: A local node of one site appears at the other. When a gateway of site \<open>A\<close> hears the state message of a local
  node, it forwards the message without its measurement entry; if that is not a repetition and the two
  sites are connected, the tunnel sends one datagram to site \<open>B\<close>, which hands the same message to its
  gateways; and a gateway there multicasts it into its own network from the node's surrogate, with the
  measurement endpoint of that surrogate in place of the entry that was taken out.
\<close>

theorem node_appears_at_other_site:
  fixes gA :: "('n, 'ip) TunnelGateway" and gB :: "('n, 'ip2) TunnelGateway" and C :: "'n codec"
    and tA tB :: "('g, 'n, 'ep) UdpTunnel"
  assumes codec: "wire_codec C"
    and heard: "parseMessageHeader A msg = (h, payload)" "messageType h = kAlive \<or> messageType h = kResponse"
      "fromPayload A (ident h) payload = Some st" "\<not> hasRemoteNodeSurrogate (ident h) gA"
      "is_v4 A (ep_address from_ep)" "in_subnet24 A (local_interface_address gA) (ep_address from_ep)"
      "measurement_entry_size A (peer_endpoint A st) \<le> length msg"
      "gateway_receive A from_ep msg None now gA = Inr (gA', actsA)"
    and m: "m = take (length msg - measurement_entry_size A (peer_endpoint A st)) msg"
      "header_size C BROADCAST + length m \<le> kMaxMessageSize C"
    and tunnels: "udp_ok tA" "connected tA b" "connected tB a" "shouldForward BROADCAST (ident h) m now tA = Inr (True, tA1)"
      "g \<in> set (gateways tB)"
    and played: "is_v4 B (local_interface_address gB)" "is_v4 B (ep_address (multicastEndpointV4 B))"
      "hasRemoteNodeSurrogate (ident h) gB \<or> (\<forall>k. can_open B k)"
      "\<And>ep. length m + length (measurement_payload B ep) < max_message_size B"
  shows "TunnelForward BROADCAST (ident h) m None \<in> set actsA \<and>
    (\<exists>tA' acts d tB' acts' gB' acts'' s.
       forward C BROADCAST (ident h) m None now tA = Inr (tA', acts) \<and> d \<in> set (sent_to b acts) \<and>
       on_datagram C a d later tB = Inr (tB', acts') \<and>
       CallGateway (ForwardMessageLocally g BROADCAST (ident h) m None) \<in> set acts' \<and>
       forwardMessageLocally B BROADCAST (ident h) m None later gB = Inr (gB', acts'') \<and>
       mRemoteNodeIdToRemoteNodeSurrogate gB' (ident h) = Some s \<and>
       SendUdp (stateSocket s) (m @ measurement_payload B (socket_endpoint B (measurementSocket s)))
         (multicastEndpointV4 B) \<in> set acts'')"
proof -
  have 1: "TunnelForward BROADCAST (ident h) m None \<in> set actsA"
    using hears_local_node(1) [OF heard] m(1) by simp
  have "index_ok tA" by (rule udp_okD(1) [OF tunnels(1)])
  from message_crosses [OF codec _ _ m(2) tunnels(1-3) this tunnels(4), of None later]
  obtain tA' acts d tB' acts' where 2: "forward C BROADCAST (ident h) m None now tA = Inr (tA', acts)" "d \<in> set (sent_to b acts)"
    "on_datagram C a d later tB = Inr (tB', acts')"
    "CallGateway (ForwardMessageLocally g BROADCAST (ident h) m None) \<in> set acts'"
    using tunnels(5) by (auto simp: carries_to_node_def)
  have dest: "BROADCAST = BROADCAST \<and> is_v4 B (local_interface_address gB) \<and> multicastEndpointV4 B = multicastEndpointV4 B \<or>
      BROADCAST = UNICAST \<and> (\<exists>k e. None = Some k \<and> localNodeIdToEndpointMap gB k = Some e \<and> multicastEndpointV4 B = stateEndpoint e)"
    using played(1) by simp
  from plays_state [OF dest played(2-4)] obtain gB' acts'' s where 3:
    "forwardMessageLocally B BROADCAST (ident h) m None later gB = Inr (gB', acts'')"
    "mRemoteNodeIdToRemoteNodeSurrogate gB' (ident h) = Some s"
    "SendUdp (stateSocket s) (m @ measurement_payload B (socket_endpoint B (measurementSocket s))) (multicastEndpointV4 B)
      \<in> set acts''" by blast
  from 1 2 3 show ?thesis by blast
qed

text \<open>Node 4 says alive at the first site; the gateway of the second site has played nothing of it before.\<close>

theorem node_appears_at_other_site_witness:
  "\<exists>gA' actsA gB' acts'' s. gateway_receive example_api \<lparr>ep_address = 1, ep_port = 3000\<rparr> [1, 5, 4, 8] None 0 example_played = Inr (gA', actsA) \<and>
     TunnelForward BROADCAST 4 [1, 5, 4] None \<in> set actsA \<and>
     forwardMessageLocally example_api BROADCAST 4 [1, 5, 4] None 0 example_gateway = Inr (gB', acts'') \<and>
     mRemoteNodeIdToRemoteNodeSurrogate gB' 4 = Some s \<and>
     SendUdp (stateSocket s) ([1, 5, 4] @ measurement_payload example_api (socket_endpoint example_api (measurementSocket s)))
       \<lparr>ep_address = 224, ep_port = 20808\<rparr> \<in> set acts''"
proof -
  let ?ep = "\<lparr>ep_address = 1, ep_port = 3000\<rparr> :: nat UdpEndpoint" and ?h = "\<lparr>messageType = kAlive, ttl = 5, ident = 4\<rparr> :: u64 MessageHeader"
  let ?st = "(4, \<lparr>ep_address = 1, ep_port = 8\<rparr>) :: u64 \<times> nat UdpEndpoint"
  have p: "parseMessageHeader example_api [1, 5, 4, 8] = (?h, [8])" by (simp add: example_api_def example_header_def)
  have f: "fromPayload example_api (ident ?h) [8] = Some ?st" by (simp add: example_api_def)
  have n: "\<not> hasRemoteNodeSurrogate (ident ?h) example_played"
    by (simp add: hasRemoteNodeSurrogate_def example_played_def example_routed_def)
  have api: "is_v4 example_api x" "in_subnet24 example_api x y" "measurement_entry_size example_api e = 1" "can_open example_api k"
    "length (measurement_payload example_api e) = 1" "max_message_size example_api = 512"
    "multicastEndpointV4 example_api = \<lparr>ep_address = 224, ep_port = 20808\<rparr>" for x y e k
    by (simp_all add: example_api_def)
  have run: "gateway_running example_played" by (simp add: example_played_def example_routed_def example_gateway_eq)
  obtain gA' actsA where r: "gateway_receive example_api ?ep [1, 5, 4, 8] None 0 example_played = Inr (gA', actsA)"
    using p f n api run by (simp add: gateway_receive_def handle_state_message_def receivePeerState_def Let_def split_beta)
  let ?A = "example_site 2 CONNECTED"
  have "\<exists>c. isDuplicate (to_byte BROADCAST) (4 :: u64) [1, 5, 4] 0 initial_cache = Inr (False, c)"
    by (rule isDuplicate_initial_cache)
  then have "\<exists>t. shouldForward BROADCAST 4 [1, 5, 4] 0 ?A = Inr (True, t)"
    by (elim exE) (simp add: shouldForward_def example_site_def)
  then obtain t where go: "shouldForward BROADCAST (ident ?h) [1, 5, 4] 0 ?A = Inr (True, t)" by auto
  have len: "length [1 :: byte, 5, 4] + length (measurement_payload example_api e) < max_message_size example_api" for e
    using api by simp
  have m: "[1, 5, 4] = take (length [1 :: byte, 5, 4, 8] - measurement_entry_size example_api (peer_endpoint example_api ?st)) [1, 5, 4, 8]"
    using api by simp
  have fits: "header_size network_codec BROADCAST + length [1 :: byte, 5, 4] \<le> kMaxMessageSize network_codec"
    by (simp add: header_size_def carries_to_node_def network_codec_sizes)
  have big: "measurement_entry_size example_api (peer_endpoint example_api ?st) \<le> length [1 :: byte, 5, 4, 8]" using api by simp
  have kind: "messageType ?h = kAlive \<or> messageType ?h = kResponse" by simp
  have sites: "udp_ok ?A" "connected ?A 2" "connected (example_site 1 CONNECTED) 1" "3 \<in> set (gateways (example_site 1 CONNECTED))"
    by simp_all
  have open_ok: "hasRemoteNodeSurrogate (ident ?h) example_gateway \<or> (\<forall>k. can_open example_api k)" using api by simp
  note bridged = node_appears_at_other_site [OF net.wire_codec_axioms p kind f n api(1) api(2) big r m fits sites(1-3) go sites(4)
      api(1) api(1) open_ok len, of 0]
  from r bridged [unfolded MessageHeader.select_convs api(7)] show ?thesis
    by (elim conjE exE) (intro exI conjI, assumption+)
qed

text \<open>
  C3: The answer of a node comes back to the node that asked. A gateway hears the state message of a local node from
  \<open>ep_q\<close>; the message crosses the tunnel to a site that has no route to the node yet; a gateway there plays it into its
  network from some socket \<open>k\<close>. A node there answers to that socket, which is the state socket of a surrogate.
  Then the surrogate is that of the node that asked: the gateway sends the answer into the tunnel for this node;
  unless it is a repetition, it is carried back to the first site, and the gateway there sends it to
  exactly \<open>ep_q\<close>, from the surrogate of the node that answers and with the measurement endpoint of that surrogate.
\<close>

theorem answer_reaches_node:
  fixes N :: "('n, 'ip) TunnelGateway" and F :: "('n, 'ip2) TunnelGateway" and C :: "'n codec"
    and tN tF :: "('g, 'n, 'ep) UdpTunnel"
  assumes codec: "wire_codec C"
    and asked: "parseMessageHeader AN msgq = (hq, payloadq)" "messageType hq = kAlive \<or> messageType hq = kResponse"
      "fromPayload AN (ident hq) payloadq = Some stq" "\<not> hasRemoteNodeSurrogate (ident hq) N0"
      "is_v4 AN (ep_address ep_q)" "in_subnet24 AN (local_interface_address N0) (ep_address ep_q)"
      "measurement_entry_size AN (peer_endpoint AN stq) \<le> length msgq"
      "gateway_receive AN ep_q msgq None t0 N0 = Inr (N, actsN)"
    and mq: "mq = take (length msgq - measurement_entry_size AN (peer_endpoint AN stq)) msgq"
      "header_size C BROADCAST + length mq \<le> kMaxMessageSize C"
    and crossed: "udp_ok tN0" "connected tN0 b" "gN \<in> set (gateways tN0)" "udp_ok tF0" "connected tF0 a"
      "remoteNodeIdToPeerIdx tF0 (ident hq) = None" "carried C a b BROADCAST (ident hq) mq None gF t0 t1 tN0 tF0 tN tF"
    and played: "gateway_start G" "(gateway_move AF)\<^sup>*\<^sup>* G F0"
      "forwardMessageLocally AF BROADCAST (ident hq) mq None t1 F0 = Inr (F, actsF)" "SendUdp k shown dest \<in> set actsF"
    and answered: "socket_of F (StateOf n) = Some k" "parseMessageHeader AF msg = (h, payload)"
      "messageType h = kAlive \<or> messageType h = kResponse" "fromPayload AF (ident h) payload = Some st"
      "\<not> hasRemoteNodeSurrogate (ident h) F" "is_v4 AF (ep_address from_ep)"
      "in_subnet24 AF (local_interface_address F) (ep_address from_ep)"
      "measurement_entry_size AF (peer_endpoint AF st) \<le> length msg"
      "gateway_receive AF from_ep msg (Some n) t2 F = Inr (F', acts)"
    and m: "m = take (length msg - measurement_entry_size AF (peer_endpoint AF st)) msg"
      "header_size C UNICAST + length m \<le> kMaxMessageSize C" "shouldForward UNICAST (ident h) m t2 tF = Inr (True, tF1)"
    and near: "hasRemoteNodeSurrogate (ident h) N \<or> (\<forall>k. can_open AN k)"
      "\<And>ep. length m + length (measurement_payload AN ep) < max_message_size AN"
  shows "n = ident hq \<and> TunnelForward BROADCAST (ident hq) mq None \<in> set actsN \<and>
    (\<exists>tN' N' acts' s. TunnelForward UNICAST (ident h) m (Some (ident hq)) \<in> set acts \<and>
       carried C b a UNICAST (ident h) m (Some (ident hq)) gN t2 t3 tF tN tF1 tN' \<and>
       forwardMessageLocally AN UNICAST (ident h) m (Some (ident hq)) t3 N = Inr (N', acts') \<and>
       mRemoteNodeIdToRemoteNodeSurrogate N' (ident h) = Some s \<and>
       SendUdp (stateSocket s) (m @ measurement_payload AN (socket_endpoint AN (measurementSocket s))) ep_q \<in> set acts')"
proof -
  have "gateway_ok F" using forwardMessageLocally_keeps(1) [OF played(3) gateway.inv_reachable [OF played(1,2)]] .
  then have n: "n = ident hq"
    using answered(1) played_broadcast_socket [OF played(3,4)] unfolding gateway_ok_def sockets_ok_def
    by (metis owner.inject(1))
  have 1: "TunnelForward BROADCAST (ident hq) mq None \<in> set actsN"
    "localNodeIdToEndpointMap N (ident hq) = Some \<lparr>stateEndpoint = ep_q, measurementEndpoint = peer_endpoint AN stq\<rparr>"
    using hears_local_node(1,2) [OF asked] mq(1) by simp_all
  have 2: "TunnelForward UNICAST (ident h) m (Some (ident hq)) \<in> set acts"
    using hears_local_node(1) [OF answered(2-9)] m(1) n by simp
  obtain e j where c: "tN = tN0\<lparr>mDedupCache := e\<rparr>" "mEndpointToPeerIdx tF0 a = Some j"
    "tF = tF0\<lparr>remoteNodeIdToPeerIdx := emplace (ident hq) j (remoteNodeIdToPeerIdx tF0)\<rparr>"
    by (rule broadcast_carried_learns [OF codec mq(2) crossed(7,1,2,4,5)])
  have route: "remoteNodeIdToPeerIdx tF (ident hq) = mEndpointToPeerIdx tF a" using c crossed(6) by (auto simp: emplace_def)
  have tunnels: "udp_ok tF" "connected tF a" "connected tN b" "gN \<in> set (gateways tN)"
    using c crossed(2-5) connected_peers_cong [of tF tF0] connected_peers_cong [of tN tN0] by (auto simp: udp_ok_routes)
  from addressed_carried [OF codec _ m(2) tunnels(1,2) _ m(3) tunnels(3,4), of "ident hq" t3] route
  obtain R where 3: "carried C b a UNICAST (ident h) m (Some (ident hq)) gN t2 t3 tF tN tF1 (tN\<lparr>remoteNodeIdToPeerIdx := R\<rparr>)"
    by auto
  have dest: "UNICAST = BROADCAST \<and> is_v4 AN (local_interface_address N) \<and> ep_q = multicastEndpointV4 AN \<or>
      UNICAST = UNICAST \<and> (\<exists>k e'. Some (ident hq) = Some k \<and> localNodeIdToEndpointMap N k = Some e' \<and> ep_q = stateEndpoint e')"
    using 1(2) by simp
  from plays_state [OF dest asked(5) near] obtain N' acts' s where 4:
    "forwardMessageLocally AN UNICAST (ident h) m (Some (ident hq)) t3 N = Inr (N', acts')"
    "mRemoteNodeIdToRemoteNodeSurrogate N' (ident h) = Some s"
    "SendUdp (stateSocket s) (m @ measurement_payload AN (socket_endpoint AN (measurementSocket s))) ep_q \<in> set acts'"
    by blast
  show ?thesis by (intro exI conjI) (rule n 1 2 3 4)+
qed

lemma example_api_facts:
  "is_v4 example_api x" "in_subnet24 example_api x y" "measurement_entry_size example_api e = 1" "can_open example_api k"
  "length (measurement_payload example_api e) = 1" "max_message_size example_api = 512"
  by (simp_all add: example_api_def)

text \<open>
  Node 9 asks at the first site, from port 3000. Its message crosses to the second site, whose gateway plays it from
  socket 1; node 4 answers there, to socket 1.
\<close>

theorem answer_reaches_node_witness:
  "\<exists>N actsN tN tF F' acts tF1 tN' N' acts' s.
     gateway_receive example_api \<lparr>ep_address = 1, ep_port = 3000\<rparr> [1, 5, 9, 7, 8] None 0 example_gateway = Inr (N, actsN) \<and>
     carried network_codec 1 2 BROADCAST 9 [1, 5, 9, 7] None 3 0 0 (example_site 2 CONNECTED) (example_site 1 CONNECTED) tN tF \<and>
     gateway_receive example_api \<lparr>ep_address = 1, ep_port = 3100\<rparr> [2, 5, 4, 8] (Some 9) 0 example_played = Inr (F', acts) \<and>
     TunnelForward UNICAST 4 [2, 5, 4] (Some 9) \<in> set acts \<and>
     carried network_codec 2 1 UNICAST 4 [2, 5, 4] (Some 9) 3 0 0 tF tN tF1 tN' \<and>
     forwardMessageLocally example_api UNICAST 4 [2, 5, 4] (Some 9) 0 N = Inr (N', acts') \<and>
     mRemoteNodeIdToRemoteNodeSurrogate N' 4 = Some s \<and>
     SendUdp (stateSocket s) ([2, 5, 4] @ measurement_payload example_api (socket_endpoint example_api (measurementSocket s)))
       \<lparr>ep_address = 1, ep_port = 3000\<rparr> \<in> set acts'"
proof -
  let ?q = "\<lparr>ep_address = 1, ep_port = 3000\<rparr> :: nat UdpEndpoint" and ?hq = "\<lparr>messageType = kAlive, ttl = 5, ident = 9\<rparr> :: u64 MessageHeader"
  let ?a = "\<lparr>ep_address = 1, ep_port = 3100\<rparr> :: nat UdpEndpoint" and ?h = "\<lparr>messageType = kResponse, ttl = 5, ident = 4\<rparr> :: u64 MessageHeader"
  let ?stq = "(9, \<lparr>ep_address = 1, ep_port = 8\<rparr>) :: u64 \<times> nat UdpEndpoint" and ?st = "(4, \<lparr>ep_address = 1, ep_port = 8\<rparr>) :: u64 \<times> nat UdpEndpoint"
  let ?tN = "example_site 2 CONNECTED" and ?tF = "example_site 1 CONNECTED"
  have q: "parseMessageHeader example_api [1, 5, 9, 7, 8] = (?hq, [7, 8])" "fromPayload example_api (ident ?hq) [7, 8] = Some ?stq"
    "\<not> hasRemoteNodeSurrogate (ident ?hq) example_gateway" "gateway_running example_gateway"
    by (simp_all add: example_api_def example_header_def hasRemoteNodeSurrogate_def example_gateway_eq)
  have p: "parseMessageHeader example_api [2, 5, 4, 8] = (?h, [8])" "fromPayload example_api (ident ?h) [8] = Some ?st"
    "\<not> hasRemoteNodeSurrogate (ident ?h) example_played" "gateway_running example_played"
    "mRemoteNodeIdToRemoteNodeSurrogate example_played 9 = Some surrogate9"
    by (simp_all add: example_api_def example_header_def hasRemoteNodeSurrogate_def example_played_def example_routed_def example_gateway_eq)
  obtain N actsN where rq: "gateway_receive example_api ?q [1, 5, 9, 7, 8] None 0 example_gateway = Inr (N, actsN)"
    using q example_api_facts by (simp add: gateway_receive_def handle_state_message_def receivePeerState_def Let_def split_beta)
  obtain F' acts where r: "gateway_receive example_api ?a [2, 5, 4, 8] (Some 9) 0 example_played = Inr (F', acts)"
    using p example_api_facts by (simp add: gateway_receive_def handle_state_message_def receivePeerState_def Let_def split_beta)
  have first: "\<exists>t. shouldForward mt k b 0 (example_site e st) = Inr (True, t)" if "mt = BROADCAST \<or> mt = UNICAST" for mt k b e st
    using isDuplicate_initial_cache [of "to_byte mt" k b 0] that by (auto simp: shouldForward_def example_site_def)
  have mq: "[1, 5, 9, 7] = take (length [1 :: byte, 5, 9, 7, 8] - measurement_entry_size example_api (peer_endpoint example_api ?stq)) [1, 5, 9, 7, 8]"
    and m: "[2, 5, 4] = take (length [2 :: byte, 5, 4, 8] - measurement_entry_size example_api (peer_endpoint example_api ?st)) [2, 5, 4, 8]"
    and big: "measurement_entry_size example_api (peer_endpoint example_api ?stq) \<le> length [1 :: byte, 5, 9, 7, 8]"
      "measurement_entry_size example_api (peer_endpoint example_api ?st) \<le> length [2 :: byte, 5, 4, 8]"
    using example_api_facts by simp_all
  have fits: "header_size network_codec BROADCAST + length [1 :: byte, 5, 9, 7] \<le> kMaxMessageSize network_codec"
    "header_size network_codec UNICAST + length [2 :: byte, 5, 4] \<le> kMaxMessageSize network_codec"
    by (simp_all add: header_size_def carries_to_node_def network_codec_sizes)
  have sites: "udp_ok ?tN" "connected ?tN 2" "3 \<in> set (gateways ?tN)" "udp_ok ?tF" "connected ?tF 1" "3 \<in> set (gateways ?tF)"
    and no_route: "remoteNodeIdToPeerIdx ?tF (ident ?hq) = None" by simp_all (simp add: example_site_def)
  obtain t where "shouldForward BROADCAST 9 [1, 5, 9, 7] 0 ?tN = Inr (True, t)" using first by blast
  from message_crosses [OF net.wire_codec_axioms _ _ fits(1) sites(1,2,5) udp_okD(1) [OF sites(1)] this, of None 0] sites(6)
  obtain tN tF where c: "carried network_codec 1 2 BROADCAST (ident ?hq) [1, 5, 9, 7] None 3 0 0 ?tN ?tF tN tF"
    by (fastforce simp: carried_def carries_to_node_def)
  have "mDedupCache tF = mDedupCache ?tF" by (rule broadcast_carried_learns [OF net.wire_codec_axioms fits(1) c sites(1,2,4,5)]) simp
  then obtain t' where go: "shouldForward UNICAST (ident ?h) [2, 5, 4] 0 tF = Inr (True, t')"
    using isDuplicate_initial_cache [of "to_byte UNICAST" "4 :: u64" "[2, 5, 4]" 0] by (auto simp: shouldForward_def example_site_def)
  have kind: "messageType ?hq = kAlive \<or> messageType ?hq = kResponse" "messageType ?h = kAlive \<or> messageType ?h = kResponse" by simp_all
  have play: "forwardMessageLocally example_api BROADCAST (ident ?hq) [1, 5, 9, 7] None 0 example_gateway =
     Inr (example_played, [ReceiveState 9, ReceiveMeasurement 9, SawRemotePeer (9, \<lparr>ep_address = 1, ep_port = 7\<rparr>),
       ArmRemoteTracker (seconds 6), SendUdp 1 [1, 5, 9, 7, 2] \<lparr>ep_address = 224, ep_port = 20808\<rparr>])"
    using example_play by simp
  have sent: "SendUdp 1 [1, 5, 9, 7, 2] \<lparr>ep_address = 224, ep_port = 20808\<rparr> \<in>
      set [ReceiveState 9, ReceiveMeasurement 9, SawRemotePeer (9, \<lparr>ep_address = 1, ep_port = 7\<rparr>),
       ArmRemoteTracker (seconds 6), SendUdp 1 [1, 5, 9, 7, 2] \<lparr>ep_address = 224, ep_port = 20808\<rparr>]" by simp
  have sock: "socket_of example_played (StateOf 9) = Some 1" using p(5) by (simp add: socket_of_def)
  have opens: "hasRemoteNodeSurrogate (ident ?h) N \<or> (\<forall>k. can_open example_api k)" using example_api_facts by simp
  have len: "length [2 :: byte, 5, 4] + length (measurement_payload example_api e) < max_message_size example_api" for e
    using example_api_facts by simp
  have "gateway_move example_api (TunnelGateway_init 2) example_gateway"
    unfolding gateway_move_def example_gateway_def by (metis gw_listen prod.collapse)
  then have start: "(gateway_move example_api)\<^sup>*\<^sup>* (TunnelGateway_init 2) example_gateway" by (rule r_into_rtranclp)
  note bridged = answer_reaches_node [OF net.wire_codec_axioms q(1) kind(1) q(2,3) example_api_facts(1,2) big(1) rq mq fits(1)
      sites(1-5) no_route c example_played_reachable(1) start play sent sock p(1) kind(2) p(2,3) example_api_facts(1,2) big(2) r m fits(2) go opens len, of 0]
  from rq r c bridged [unfolded MessageHeader.select_convs] show ?thesis
    by (elim conjE exE) (intro exI conjI, (simp; fail | assumption)+)
qed

text \<open>A gateway that has heard node 9; a site with a route to node 9.\<close>

definition example_measured :: "(u64, nat) TunnelGateway" where
  "example_measured = example_gateway\<lparr>
     localNodeIdToEndpointMap :=
       [9 \<mapsto> \<lparr>stateEndpoint = \<lparr>ep_address = 1, ep_port = 3000\<rparr>, measurementEndpoint = \<lparr>ep_address = 1, ep_port = 8\<rparr>\<rparr>],
     localMeasurementEndpointToNodeId := [createKeyFromEndpoint example_api \<lparr>ep_address = 1, ep_port = 8\<rparr> \<mapsto> 9]\<rparr>"

definition example_route :: "(nat, u64, nat) UdpTunnel" where
  "example_route = (example_site 2 CONNECTED)\<lparr>remoteNodeIdToPeerIdx := [9 \<mapsto> 0]\<rparr>"

lemma example_route_simps:
  "udp_ok example_route" "connected example_route 2" "remoteNodeIdToPeerIdx example_route 9 = mEndpointToPeerIdx example_route 2"
  "3 \<in> set (gateways example_route)"
proof -
  show "udp_ok example_route" by (simp add: example_route_def udp_ok_routes)
  show "connected example_route 2"
    using connected_peers_cong [of example_route "example_site 2 CONNECTED"] by (simp add: example_route_def)
qed (simp_all add: example_route_def example_site_def)

text \<open>
  C4: A measurement goes around. A local node measures a node of another site: it pings, from a socket of its own,
  the measurement endpoint of the surrogate that stands for that node. The gateway makes up an identity
  for the socket, the ping follows the route of the node through the tunnel, and the gateway of the other
  site sends it to the node's measurement endpoint from a socket of its own; the node's answer to that
  socket goes back through the tunnel under the node's identity, and leaves the measurement socket of the
  surrogate for exactly the endpoint that pinged.
\<close>

theorem measurement_round_trip:
  fixes N :: "('n, 'ip) TunnelGateway" and F :: "('n, 'ip2) TunnelGateway" and C :: "'n codec"
    and tN tF :: "('g, 'n, 'ep) UdpTunnel"
  assumes codec: "wire_codec C"
    and near: "mRemoteNodeIdToRemoteNodeSurrogate N n = Some s"
      "localMeasurementEndpointToNodeId N (createKeyFromEndpoint AN pinger) = None"
      "is_ping AN ping" "is_v4 AN (ep_address pinger)"
    and tunnels: "udp_ok tN" "connected tN b" "remoteNodeIdToPeerIdx tN n = mEndpointToPeerIdx tN b"
      "udp_ok tF" "connected tF a" "gN \<in> set (gateways tN)" "gF \<in> set (gateways tF)"
    and fits: "header_size C MEASUREMENT_PING + length ping \<le> kMaxMessageSize C"
      "header_size C MEASUREMENT_PONG + length pong \<le> kMaxMessageSize C"
    and far: "localNodeIdToEndpointMap F n = Some e" "is_v4 AF (ep_address (measurementEndpoint e))"
      "localMeasurementEndpointToNodeId F (createKeyFromEndpoint AF (measurementEndpoint e)) = Some n"
      "mRemoteNodeIdToRemoteMeasurementSurrogate F fake \<noteq> None \<or> (\<forall>k. can_open AF k)" "\<not> is_ping AF pong"
  shows "\<exists>N' acts tF' F' acts2 p acts3 tN' m.
    surrogate_receive AN n pinger ping fake N = (N', acts) \<and> TunnelForward MEASUREMENT_PING fake ping (Some n) \<in> set acts \<and>
    carried C a b MEASUREMENT_PING fake ping (Some n) gF t1 t2 tN tF tN tF' \<and>
    forwardMessageLocally AF MEASUREMENT_PING fake ping (Some n) t2 F = Inr (F', acts2) \<and>
    mRemoteNodeIdToRemoteMeasurementSurrogate F' fake = Some p \<and>
    SendUdp (pingSocket p) ping (measurementEndpoint e) \<in> set acts2 \<and>
    ping_surrogate_receive AF fake (measurementEndpoint e) pong fake' F' = (F', acts3) \<and>
    TunnelForward MEASUREMENT_PONG n pong (Some fake) \<in> set acts3 \<and>
    carried C b a MEASUREMENT_PONG n pong (Some fake) gN t3 t4 tF' tN tF' tN' \<and>
    forwardMessageLocally AN MEASUREMENT_PONG n pong (Some fake) t4 N' = Inr (N', [SendUdp (measurementSocket s) m pinger]) \<and>
    take (length pong) m = pong"
proof -
  obtain N' acts where r: "surrogate_receive AN n pinger ping fake N = (N', acts)" by force
  from ping_answer_returns [OF near r, of pong t4] obtain m where 1:
    "TunnelForward MEASUREMENT_PING fake ping (Some n) \<in> set acts"
    "forwardMessageLocally AN MEASUREMENT_PONG n pong (Some fake) t4 N' = Inr (N', [SendUdp (measurementSocket s) m pinger])"
    "take (length pong) m = pong" by blast
  obtain R where 2: "carried C a b MEASUREMENT_PING fake ping (Some n) gF t1 t2 tN tF tN (tF\<lparr>remoteNodeIdToPeerIdx := R\<rparr>)"
    using measurement_carried [OF codec _ fits(1) tunnels(1,2) _ tunnels(5,7), of n fake t1 t2] tunnels(3) by auto
  obtain F' acts2 p acts3 where 3: "forwardMessageLocally AF MEASUREMENT_PING fake ping (Some n) t2 F = Inr (F', acts2)"
    "mRemoteNodeIdToRemoteMeasurementSurrogate F' fake = Some p" "SendUdp (pingSocket p) ping (measurementEndpoint e) \<in> set acts2"
    "ping_surrogate_receive AF fake (measurementEndpoint e) pong fake' F' = (F', acts3)"
    "TunnelForward MEASUREMENT_PONG n pong (Some fake) \<in> set acts3" by (rule ping_played_and_answered [OF far])
  let ?tF = "tF\<lparr>remoteNodeIdToPeerIdx := R\<rparr>"
  have "udp_ok ?tF" "connected ?tF a"
    using tunnels(4,5) connected_peers_cong [of ?tF tF] by (simp_all add: udp_ok_routes)
  then obtain R' where 4: "carried C b a MEASUREMENT_PONG n pong (Some fake) gN t3 t4 ?tF tN ?tF (tN\<lparr>remoteNodeIdToPeerIdx := R'\<rparr>)"
    using measurement_carried [OF codec _ fits(2) _ _ _ tunnels(2,6), of ?tF a fake n t3 t4] by auto
  show ?thesis by (intro exI conjI) (rule r 1 2 3 4)+
qed

text \<open>A socket on port 4000 at the first site pings the surrogate of node 9.\<close>

theorem measurement_round_trip_witness:
  "\<exists>N' acts tF' F' acts2 p acts3 tN' m.
     surrogate_receive example_api 9 \<lparr>ep_address = 1, ep_port = 4000\<rparr> [1] 55 example_played = (N', acts) \<and>
     carried network_codec 1 2 MEASUREMENT_PING 55 [1] (Some 9) 3 0 0 example_route
       (example_site 1 CONNECTED) example_route tF' \<and>
     forwardMessageLocally example_api MEASUREMENT_PING 55 [1] (Some 9) 0 example_measured = Inr (F', acts2) \<and>
     mRemoteNodeIdToRemoteMeasurementSurrogate F' 55 = Some p \<and>
     SendUdp (pingSocket p) [1] \<lparr>ep_address = 1, ep_port = 8\<rparr> \<in> set acts2 \<and>
     ping_surrogate_receive example_api 55 \<lparr>ep_address = 1, ep_port = 8\<rparr> [2] 77 F' = (F', acts3) \<and>
     carried network_codec 2 1 MEASUREMENT_PONG 9 [2] (Some 55) 3 0 0 tF'
       example_route tF' tN' \<and>
     forwardMessageLocally example_api MEASUREMENT_PONG 9 [2] (Some 55) 0 N' = Inr (N', [SendUdp 2 m \<lparr>ep_address = 1, ep_port = 4000\<rparr>])"
proof -
  let ?tF = "example_site 1 CONNECTED"
  let ?pinger = "\<lparr>ep_address = 1, ep_port = 4000\<rparr> :: nat UdpEndpoint" and ?me = "\<lparr>ep_address = 1, ep_port = 8\<rparr> :: nat UdpEndpoint"
  let ?e = "\<lparr>stateEndpoint = \<lparr>ep_address = 1, ep_port = 3000\<rparr>, measurementEndpoint = ?me\<rparr> :: nat LocalNodeEndpoints"
  have near: "mRemoteNodeIdToRemoteNodeSurrogate example_played 9 = Some surrogate9"
      "localMeasurementEndpointToNodeId example_played (createKeyFromEndpoint example_api ?pinger) = None"
      "is_ping example_api [1]" "is_v4 example_api (ep_address ?pinger)"
    by (simp_all add: example_played_def example_routed_def example_gateway_eq example_api_def)
  have sites: "udp_ok ?tF" "connected ?tF 1" "3 \<in> set (gateways example_route)" "3 \<in> set (gateways ?tF)"
    by (simp_all add: example_route_simps)
  have fits: "header_size network_codec MEASUREMENT_PING + length [1 :: byte] \<le> kMaxMessageSize network_codec"
      "header_size network_codec MEASUREMENT_PONG + length [2 :: byte] \<le> kMaxMessageSize network_codec"
    by (simp_all add: header_size_def carries_to_node_def network_codec_sizes)
  have far: "localNodeIdToEndpointMap example_measured 9 = Some ?e" "is_v4 example_api (ep_address (measurementEndpoint ?e))"
      "localMeasurementEndpointToNodeId example_measured (createKeyFromEndpoint example_api (measurementEndpoint ?e)) = Some 9"
      "mRemoteNodeIdToRemoteMeasurementSurrogate example_measured 55 \<noteq> None \<or> (\<forall>k. can_open example_api k)" "\<not> is_ping example_api [2]"
    by (simp_all add: example_measured_def example_api_def)
  note trip = measurement_round_trip [OF net.wire_codec_axioms near example_route_simps(1-3) sites fits far, of 0 0 77 0 0]
  from trip [unfolded LocalNodeEndpoints.select_convs RemoteNodeSurrogate.select_convs] show ?thesis
    by (elim conjE exE) (intro exI conjI, assumption+)
qed

end
