(* ===== verification/Platform_Context.thy ===== *)
theory Platform_Context
  imports TunnelGateway
begin

text \<open>
  \<open>include/ableton/platforms/asio/Context.hpp\<close>: how the sockets of the tunnel and of the gateways are
  opened, the loop of the IO thread, and the life of its thread.

  Asio is a parameter: \<open>platform_api\<close> holds the operations on addresses, and \<open>works\<close> tells which
  step of opening a socket succeeds. A socket is the list of steps that opened it.
\<close>

subsection \<open>Sockets\<close>

record 'ip platform_api =
  addr_is_v4 :: "'ip \<Rightarrow> bool"
  addr_is_v6 :: "'ip \<Rightarrow> bool"
  addr_is_loopback :: "'ip \<Rightarrow> bool"
  addr_scope_id :: "'ip \<Rightarrow> nat"
  any_v4 :: 'ip
  any_v6 :: 'ip
  group_v4 :: "'ip UdpEndpoint"
  group_v6 :: "nat \<Rightarrow> 'ip UdpEndpoint"

datatype family = FamilyV4 | FamilyV6

datatype 'ip socket_step =
    OpenSocket family
  | ReuseAddress bool
  | AllowBroadcast bool
  | EnableLoopback bool
  | OutboundInterface 'ip
  | OutboundScope nat
  | BindTo "'ip UdpEndpoint"
  | JoinGroup 'ip 'ip
  | JoinGroupScope 'ip nat

fun perform :: "('ip socket_step \<Rightarrow> bool) \<Rightarrow> 'ip socket_step list \<Rightarrow> fault + 'ip socket_step list" where
  "perform works [] = Inr []"
| "perform works (s # ss) =
     (if \<not> works s then Inl SocketError
      else (case perform works ss of Inl f \<Rightarrow> Inl f | Inr done_steps \<Rightarrow> Inr (s # done_steps)))"

definition family_of :: "'ip platform_api \<Rightarrow> 'ip \<Rightarrow> family" where
  "family_of P addr = (if addr_is_v4 P addr then FamilyV4 else FamilyV6)"

definition openUnicastSocket ::
    "'ip platform_api \<Rightarrow> ('ip socket_step \<Rightarrow> bool) \<Rightarrow> 'ip \<Rightarrow> fault + 'ip socket_step list" where
  "openUnicastSocket P works addr =
     (let opened = [OpenSocket (family_of P addr), EnableLoopback (addr_is_loopback P addr)]
      in if addr_is_v4 P addr then
           perform works (opened @ [OutboundInterface addr, BindTo \<lparr>ep_address = addr, ep_port = 0\<rparr>])
         else if addr_is_v6 P addr then
           perform works (opened @ [OutboundScope (addr_scope_id P addr), BindTo \<lparr>ep_address = addr, ep_port = 0\<rparr>])
         else (case perform works opened of Inl f \<Rightarrow> Inl f | Inr _ \<Rightarrow> Inl UnknownProtocol))"

definition openMulticastSocket ::
    "'ip platform_api \<Rightarrow> ('ip socket_step \<Rightarrow> bool) \<Rightarrow> 'ip \<Rightarrow> fault + 'ip socket_step list" where
  "openMulticastSocket P works addr =
     (let opened = [OpenSocket (family_of P addr), ReuseAddress True, AllowBroadcast (\<not> addr_is_loopback P addr),
                    EnableLoopback (addr_is_loopback P addr)]
      in if addr_is_v4 P addr then
           perform works (opened @
             [OutboundInterface addr, BindTo \<lparr>ep_address = any_v4 P, ep_port = ep_port (group_v4 P)\<rparr>,
              JoinGroup (ep_address (group_v4 P)) addr])
         else if addr_is_v6 P addr then
           (let scopeId = addr_scope_id P addr; group = group_v6 P scopeId
            in perform works (opened @
                 [OutboundScope scopeId, BindTo \<lparr>ep_address = any_v6 P, ep_port = ep_port group\<rparr>,
                  JoinGroupScope (ep_address group) scopeId]))
         else (case perform works opened of Inl f \<Rightarrow> Inl f | Inr _ \<Rightarrow> Inl UnknownProtocol))"

definition openBoundUdpSocket ::
    "'ip platform_api \<Rightarrow> ('ip socket_step \<Rightarrow> bool) \<Rightarrow> u16 \<Rightarrow> fault + 'ip socket_step list" where
  "openBoundUdpSocket P works port =
     perform works [OpenSocket FamilyV4, ReuseAddress True, BindTo \<lparr>ep_address = any_v4 P, ep_port = port\<rparr>]"

subsection \<open>The IO thread\<close>

text \<open>
  The loop of the thread over the outcomes of \<open>service.run()\<close>: the exceptions handed to the handler, and
  how it ends, if it does. Only exceptions of the handler's type are caught; another one ends the process.
\<close>

datatype 'e run_outcome = RunReturns | RunThrows 'e

datatype thread_end = StillRunning | ThreadReturns | ProcessTerminates

fun service_loop :: "('e \<Rightarrow> bool) \<Rightarrow> 'e run_outcome list \<Rightarrow> 'e list \<times> thread_end" where
  "service_loop caught [] = ([], StillRunning)"
| "service_loop caught (RunReturns # rs) = ([], ThreadReturns)"
| "service_loop caught (RunThrows e # rs) =
     (if caught e then (case service_loop caught rs of (es, fin) \<Rightarrow> (e # es, fin)) else ([], ProcessTerminates))"

subsection \<open>The life of the thread\<close>

record 't Context =
  has_service :: bool
  has_work :: bool
  service_stopped :: bool
  joins :: nat
  tasks :: "'t list"         \<comment> \<open>posted to the service and not run yet\<close>

definition Context_init :: "'t Context" where
  "Context_init = \<lparr>has_service = True, has_work = True, service_stopped = False, joins = 0, tasks = []\<rparr>"

text \<open>The exception type of the default handler is private, so nothing is caught.\<close>

definition DefaultHandler_catches :: "'e \<Rightarrow> bool" where
  "DefaultHandler_catches e \<longleftrightarrow> False"

text \<open>\<open>async\<close> dereferences the service, which a moved-from object does not have.\<close>

definition Context_async :: "'t \<Rightarrow> 't Context \<Rightarrow> fault + 't Context" where
  "Context_async handler c = (if has_service c then Inr (c\<lparr>tasks := tasks c @ [handler]\<rparr>) else Inl NullPointer)"

text \<open>The move constructor: the new object, and what is left of the old one.\<close>

definition Context_move :: "'t Context \<Rightarrow> 't Context \<times> 't Context" where
  "Context_move rhs = (rhs, rhs\<lparr>has_service := False, has_work := False, tasks := []\<rparr>)"

definition Context_stop :: "'t Context \<Rightarrow> 't Context" where
  "Context_stop c =
     (if has_service c \<and> has_work c then c\<lparr>has_work := False, service_stopped := True, joins := joins c + 1\<rparr> else c)"

definition Context_destroy :: "'t Context \<Rightarrow> 't Context" where
  "Context_destroy c = (if has_service c \<and> has_work c then c\<lparr>has_work := False, joins := joins c + 1\<rparr> else c)"

subsection \<open>Facts\<close>

lemma perform_all: "perform works ss = Inr ss' \<longleftrightarrow> list_all works ss \<and> ss' = ss"
  by (induction ss arbitrary: ss') (force split: sum.split)+

lemma service_loop_caught:
  "list_all caught es \<Longrightarrow> service_loop caught (map RunThrows es @ rs) = (let (es', fin) = service_loop caught rs in (es @ es', fin))"
  by (induction es) (simp_all split: prod.split)

lemma uncaught_ends_process: "service_loop DefaultHandler_catches (RunThrows e # rs) = ([], ProcessTerminates)"
  by (simp add: DefaultHandler_catches_def)

lemma posted_in_order:
  "Context_async t2 c1 = Inr c2 \<Longrightarrow> Context_async t1 c = Inr c1 \<Longrightarrow> tasks c2 = tasks c @ [t1, t2]"
  "Context_async t (snd (Context_move c)) = Inl NullPointer"
  by (auto simp: Context_async_def Context_move_def split: if_splits)

lemma thread_joined_once:
  "joins (Context_destroy (Context_stop c)) = joins c + (if has_service c \<and> has_work c then 1 else 0)"
  "joins (Context_destroy (snd (Context_move c))) = joins c"
  by (simp_all add: Context_destroy_def Context_stop_def Context_move_def)

end
