(* ===== verification/Link_Extender.thy ===== *)
theory Link_Extender
  imports Controller UdpTunnel_Invariants
begin

text \<open>
  The facade \<open>include/LinkExtender.hpp\<close> that the application sees: it owns the controller and passes every call on.
\<close>

record ('g, 'n, 'ip, 'sid, 'cb) LinkExtender =
  mController :: "('g, 'n, 'ip, 'sid, 'cb) Controller"

type_synonym ('g, 'n, 'ip, 'sid, 'cb) extender_result =
  "('g, 'n, 'ip, 'sid, 'cb) LinkExtender \<times> ('g, 'n, 'ip, 'cb) controller_action list"

definition LinkExtender_init ::
    "'n codec \<Rightarrow> (u16 \<Rightarrow> bool) \<Rightarrow> 'sid \<Rightarrow> 'ip Config \<Rightarrow> SharedMemory \<Rightarrow>
       SharedMemory \<times> (fault + ('g, 'n, 'ip, 'sid, 'cb) extender_result)" where
  "LinkExtender_init C can_bind no_session config m =
     (case Controller_init C can_bind no_session config m of
        (m1, Inl f) \<Rightarrow> (m1, Inl f)
      | (m1, Inr (c, acts)) \<Rightarrow> (m1, Inr (\<lparr>mController = c\<rparr>, acts)))"

definition LinkExtender_addPeer ::
    "'n codec \<Rightarrow> 'ip UdpEndpoint \<Rightarrow> ('g, 'n, 'ip, 'sid, 'cb) LinkExtender \<Rightarrow> ('g, 'n, 'ip, 'sid, 'cb) extender_result" where
  "LinkExtender_addPeer C ep x =
     (case Controller_addPeer C ep (mController x) of (c, acts) \<Rightarrow> (x\<lparr>mController := c\<rparr>, acts))"

definition LinkExtender_removePeer ::
    "'n codec \<Rightarrow> 'ip UdpEndpoint \<Rightarrow> ('g, 'n, 'ip, 'sid, 'cb) LinkExtender \<Rightarrow>
       fault + ('g, 'n, 'ip, 'sid, 'cb) extender_result" where
  "LinkExtender_removePeer C ep x =
     (case Controller_removePeer C ep (mController x) of
        Inl f \<Rightarrow> Inl f
      | Inr (c, acts) \<Rightarrow> Inr (x\<lparr>mController := c\<rparr>, acts))"

definition LinkExtender_setNumPeersCallback ::
    "'cb \<Rightarrow> ('g, 'n, 'ip, 'sid, 'cb) LinkExtender \<Rightarrow> ('g, 'n, 'ip, 'sid, 'cb) LinkExtender" where
  "LinkExtender_setNumPeersCallback callback x = x\<lparr>mController := setNumPeersCallback callback (mController x)\<rparr>"

definition LinkExtender_setTempoCallback ::
    "'cb \<Rightarrow> ('g, 'n, 'ip, 'sid, 'cb) LinkExtender \<Rightarrow> ('g, 'n, 'ip, 'sid, 'cb) LinkExtender" where
  "LinkExtender_setTempoCallback callback x = x\<lparr>mController := setTempoCallback callback (mController x)\<rparr>"

definition LinkExtender_setStartStopCallback ::
    "'cb \<Rightarrow> ('g, 'n, 'ip, 'sid, 'cb) LinkExtender \<Rightarrow> ('g, 'n, 'ip, 'sid, 'cb) LinkExtender" where
  "LinkExtender_setStartStopCallback callback x = x\<lparr>mController := setStartStopCallback callback (mController x)\<rparr>"

definition LinkExtender_setUnknownPeerCallback ::
    "UnknownPeerCallback \<Rightarrow> ('g, 'n, 'ip, 'sid, 'cb) LinkExtender \<Rightarrow> ('g, 'n, 'ip, 'sid, 'cb) LinkExtender" where
  "LinkExtender_setUnknownPeerCallback callback x =
     x\<lparr>mController := Controller_setUnknownPeerCallback callback (mController x)\<rparr>"

subsection \<open>Only the UDP tunnel has peers\<close>

text \<open>With a shared-memory tunnel the three calls about peers do nothing.\<close>

lemma shm_ignores_peers:
  assumes "mTunnel (mController x) = Some (ShmBackend t)"
  shows "LinkExtender_addPeer C ep x = (x, [])" "LinkExtender_removePeer C ep x = Inr (x, [])"
    "LinkExtender_setUnknownPeerCallback cb x = x"
  using assms by (simp_all add: LinkExtender_addPeer_def LinkExtender_removePeer_def
      LinkExtender_setUnknownPeerCallback_def Controller_addPeer_def Controller_removePeer_def
      Controller_setUnknownPeerCallback_def)

text \<open>A peer that is added and removed again leaves the table of peers as it was.\<close>

lemma add_then_remove:
  assumes "mTunnel (mController x) = Some (UdpBackend t)" "udp_ok t" "mEndpointToPeerIdx t ep = None"
    and "LinkExtender_addPeer C ep x = (x1, acts1)" "LinkExtender_removePeer C ep x1 = Inr (x2, acts2)"
  shows "\<exists>t2. mTunnel (mController x2) = Some (UdpBackend t2) \<and> mPeers t2 = mPeers t"
  using assms
  by (auto simp: LinkExtender_addPeer_def LinkExtender_removePeer_def Controller_addPeer_def Controller_removePeer_def
      addPeer_def removePeer_def push_peer_def Let_def rebuildEndpointIndex_def split: sum.splits prod.splits if_splits option.splits)

end
