(* ===== verification/Approvals.thy ===== *)
theory Approvals
  imports Extender_Prelude "HOL-Library.Multiset" "HOL-Library.Sublist"
begin

text \<open>
  The approval of unknown peers in \<open>source/main.cpp\<close>: the queue of pending requests that the IO thread, the
  console thread, one timer thread per request and the destructor of \<open>State\<close> share.

  A section under the mutex is one step. The closures \<open>accept\<close> and \<open>reject\<close> of a request are
  determined by its endpoint; calling one posts the decision to the IO thread through the tunnel, which
  they reach by a plain pointer. The threads of the process are explicit: a timer thread that has taken
  a request out of the queue has not yet answered it. The prompts printed and the requests made are
  recorded.
\<close>

subsection \<open>The queue\<close>

record 'ep PendingApproval =
  request_id :: u64
  request_ep :: 'ep

record 'ep SharedPending =
  approvals :: "'ep PendingApproval list"
  nextId :: u64
  alive :: bool

definition SharedPending_init :: "'ep SharedPending" where
  "SharedPending_init = \<lparr>approvals = [], nextId = 0, alive = True\<rparr>"

text \<open>\<open>printNextPrompt\<close> returns the endpoint it prints.\<close>

definition printNextPrompt :: "'ep SharedPending \<Rightarrow> fault + 'ep" where
  "printNextPrompt sp = (case approvals sp of [] \<Rightarrow> Inl EmptyQueueFront | e # _ \<Rightarrow> Inr (request_ep e))"

text \<open>The callback for an unknown peer: the new queue, the endpoint prompted for, and the id for the timer.\<close>

definition unknown_peer_callback :: "'ep \<Rightarrow> 'ep SharedPending \<Rightarrow> fault + 'ep SharedPending \<times> 'ep list \<times> u64" where
  "unknown_peer_callback ep sp =
     (let n = nextId sp;
          wasEmpty = (approvals sp = []);
          sp1 = sp\<lparr>nextId := n + 1, approvals := approvals sp @ [\<lparr>request_id = n, request_ep = ep\<rparr>]\<rparr>
      in if wasEmpty then (case printNextPrompt sp1 of Inl f \<Rightarrow> Inl f | Inr p \<Rightarrow> Inr (sp1, [p], n))
         else Inr (sp1, [], n))"

text \<open>A timer thread after its sleep: it takes its request only if that is the first in the queue.\<close>

definition timer_takes :: "u64 \<Rightarrow> 'ep SharedPending \<Rightarrow> 'ep SharedPending \<times> 'ep PendingApproval option" where
  "timer_takes n sp =
     (if \<not> alive sp then (sp, None)
      else (case approvals sp of
              [] \<Rightarrow> (sp, None)
            | e # es \<Rightarrow> if request_id e = n then (sp\<lparr>approvals := es\<rparr>, Some e) else (sp, None)))"

definition timer_prompts :: "'ep SharedPending \<Rightarrow> fault + 'ep list" where
  "timer_prompts sp =
     (if approvals sp \<noteq> [] \<and> alive sp then (case printNextPrompt sp of Inl f \<Rightarrow> Inl f | Inr p \<Rightarrow> Inr [p])
      else Inr [])"

text \<open>\<open>resolvePendingApproval\<close>: taking the first request (and whether another waits), and the prompt at the end.\<close>

definition console_takes :: "'ep SharedPending \<Rightarrow> 'ep SharedPending \<times> ('ep PendingApproval \<times> bool) option" where
  "console_takes sp =
     (case approvals sp of
        [] \<Rightarrow> (sp, None)
      | e # es \<Rightarrow> (sp\<lparr>approvals := es\<rparr>, Some (e, es \<noteq> [])))"

definition console_prompts :: "'ep SharedPending \<Rightarrow> 'ep list" where
  "console_prompts sp = (case approvals sp of [] \<Rightarrow> [] | e # _ \<Rightarrow> [request_ep e])"

text \<open>\<open>~State\<close>: no timer acts any more, and what waits is rejected in order.\<close>

definition State_drain :: "'ep SharedPending \<Rightarrow> 'ep SharedPending \<times> 'ep list" where
  "State_drain sp = (sp\<lparr>alive := False, approvals := []\<rparr>, map request_ep (approvals sp))"

subsection \<open>The threads\<close>

datatype 'ep timer_thread =
    Sleeping u64
  | AboutToReject "'ep PendingApproval"
  | AboutToPrompt
  | TimerDone

datatype 'ep console_thread =
    Reading
  | AboutToAnswer bool "'ep PendingApproval" bool
  | AboutToPromptNext
  | ConsoleDone

text \<open>The \<open>State\<close> object: in use, drained by its destructor, and gone with the tunnel inside it.\<close>

datatype phase = InUse | Draining | Gone

record 'ep App =
  shared :: "'ep SharedPending"
  timers :: "'ep timer_thread list"
  console :: "'ep console_thread"
  phase :: phase
  decisions :: "('ep \<times> bool) list"       \<comment> \<open>posted to the IO thread: accept or reject\<close>
  requests :: "'ep list"
  shown :: "'ep list"

definition App_init :: "'ep App" where
  "App_init = \<lparr>shared = SharedPending_init, timers = [], console = Reading, phase = InUse,
     decisions = [], requests = [], shown = []\<rparr>"

datatype 'ep app_event =
    Ask 'ep             \<comment> \<open>the IO thread calls the callback\<close>
  | Wake nat            \<comment> \<open>a timer thread ends its sleep\<close>
  | TimerRejects nat
  | TimerPrompts nat
  | Key char
  | ConsoleAnswers
  | ConsolePrompts
  | DestroyState        \<comment> \<open>the body of \<open>~State\<close>, after the console thread was joined\<close>
  | DestroyMembers      \<comment> \<open>the members of \<open>State\<close>, the tunnel among them\<close>

text \<open>A call of a closure dereferences the tunnel.\<close>

definition decide :: "'ep \<Rightarrow> bool \<Rightarrow> 'ep App \<Rightarrow> fault + 'ep App" where
  "decide ep accept a = (if phase a = Gone then Inl UseAfterFree else Inr (a\<lparr>decisions := decisions a @ [(ep, accept)]\<rparr>))"

text \<open>\<open>input\<close> for one key.\<close>

definition input_key :: "char \<Rightarrow> 'ep App \<Rightarrow> 'ep App" where
  "input_key key a =
     (if key = CHR ''q'' then a\<lparr>console := ConsoleDone\<rparr>
      else if key = CHR ''a'' \<or> key = CHR ''d'' then
        (case console_takes (shared a) of
           (sp, None) \<Rightarrow> a
         | (sp, Some (e, hasNext)) \<Rightarrow> a\<lparr>shared := sp, console := AboutToAnswer (key = CHR ''a'') e hasNext\<rparr>)
      else a)"

text \<open>One step of the process; \<open>None\<close> where the thread is not at that point.\<close>

fun app_step :: "'ep app_event \<Rightarrow> 'ep App \<Rightarrow> (fault + 'ep App) option" where
  "app_step (Ask ep) a =
     (if phase a = Gone then None
      else Some (case unknown_peer_callback ep (shared a) of
                   Inl f \<Rightarrow> Inl f
                 | Inr (sp, prompted, n) \<Rightarrow>
                     Inr (a\<lparr>shared := sp, timers := timers a @ [Sleeping n],
                            requests := requests a @ [ep], shown := shown a @ prompted\<rparr>)))"
| "app_step (Wake i) a =
     (if i < length (timers a) then
        (case timers a ! i of
           Sleeping n \<Rightarrow>
             Some (Inr (case timer_takes n (shared a) of
                          (sp, None) \<Rightarrow> a\<lparr>timers := (timers a)[i := TimerDone]\<rparr>
                        | (sp, Some e) \<Rightarrow> a\<lparr>shared := sp, timers := (timers a)[i := AboutToReject e]\<rparr>))
         | _ \<Rightarrow> None)
      else None)"
| "app_step (TimerRejects i) a =
     (if i < length (timers a) then
        (case timers a ! i of
           AboutToReject e \<Rightarrow> Some (decide (request_ep e) False (a\<lparr>timers := (timers a)[i := AboutToPrompt]\<rparr>))
         | _ \<Rightarrow> None)
      else None)"
| "app_step (TimerPrompts i) a =
     (if i < length (timers a) then
        (case timers a ! i of
           AboutToPrompt \<Rightarrow>
             Some (case timer_prompts (shared a) of
                     Inl f \<Rightarrow> Inl f
                   | Inr ps \<Rightarrow> Inr (a\<lparr>timers := (timers a)[i := TimerDone], shown := shown a @ ps\<rparr>))
         | _ \<Rightarrow> None)
      else None)"
| "app_step (Key key) a = (if console a = Reading then Some (Inr (input_key key a)) else None)"
| "app_step ConsoleAnswers a =
     (case console a of
        AboutToAnswer accept e hasNext \<Rightarrow>
          Some (decide (request_ep e) accept (a\<lparr>console := (if hasNext then AboutToPromptNext else Reading)\<rparr>))
      | _ \<Rightarrow> None)"
| "app_step ConsolePrompts a =
     (if console a = AboutToPromptNext
      then Some (Inr (a\<lparr>console := Reading, shown := shown a @ console_prompts (shared a)\<rparr>)) else None)"
| "app_step DestroyState a =
     (if console a = ConsoleDone \<and> phase a = InUse then
        (case State_drain (shared a) of
           (sp, rejected) \<Rightarrow>
             Some (Inr (a\<lparr>shared := sp, phase := Draining,
                          decisions := decisions a @ map (\<lambda>ep. (ep, False)) rejected\<rparr>)))
      else None)"
| "app_step DestroyMembers a = (if phase a = Draining then Some (Inr (a\<lparr>phase := Gone\<rparr>)) else None)"

end
