(* ===== verification/Console.thy ===== *)
theory Console
  imports Approvals Decimal Complex_Main "HOL-Library.Word"
begin

text \<open>
  What \<open>source/main.cpp\<close> prints and reads: the state line that is redrawn in place, the texts, nested
  exceptions, the mode of the terminal, and the loop over the keys.

  A \<open>double\<close> is the rational number it stands for, and \<open>fixed\<close> with \<open>setprecision(2)\<close> prints it rounded
  to hundredths, ties to even, as the C library does. The stream is a string of bytes.
\<close>

subsection \<open>Numbers in columns\<close>

text \<open>\<open>left\<close> with \<open>setw\<close>, the fill character a blank.\<close>

definition setw_left :: "nat \<Rightarrow> string \<Rightarrow> string" where
  "setw_left w s = s @ replicate (w - length s) (CHR '' '')"

definition hundredths :: "rat \<Rightarrow> int" where
  "hundredths x =
     (let y = 100 * x; f = \<lfloor>y\<rfloor>; r = y - of_int f
      in if r < 1 / 2 \<or> r = 1 / 2 \<and> even f then f else f + 1)"

definition two_digits :: "nat \<Rightarrow> string" where
  "two_digits n = [char_of (48 + n div 10), char_of (48 + n mod 10)]"

definition fixed2 :: "rat \<Rightarrow> string" where
  "fixed2 x =
     (let h = nat (hundredths \<bar>x\<bar>)
      in (if x < 0 then ''-'' else []) @ to_string (h div 100) @ ''.'' @ two_digits (h mod 100))"

subsection \<open>The state line\<close>

text \<open>What the callbacks of the application keep for the display.\<close>

record Display =
  localPeers :: nat
  remotePeers :: nat
  display_tempo :: rat
  isPlaying :: bool

definition Display_init :: Display where
  "Display_init = \<lparr>localPeers = 0, remotePeers = 0, display_tempo = 0, isPlaying = False\<rparr>"

definition clearLine :: string where
  "clearLine = ''   '' @ [CHR 0x0D]"

definition printStateHeader :: string where
  "printStateHeader = ''local peers | remote peers | tempo   | playing'' @ [CHR 0x0A]"

definition state_line :: "Display \<Rightarrow> string" where
  "state_line d =
     setw_left 11 (to_string (localPeers d)) @ '' | '' @ setw_left 12 (to_string (remotePeers d)) @ '' | '' @
     setw_left 7 (fixed2 (display_tempo d)) @ '' | '' @ (if isPlaying d then ''[playing]'' else ''[stopped]'')"

definition printState :: "Display \<Rightarrow> string" where
  "printState d = state_line d @ clearLine"

subsection \<open>Texts\<close>

definition line :: "string \<Rightarrow> string" where
  "line s = s @ [CHR 0x0A]"

definition printUsage :: "string \<Rightarrow> string" where
  "printUsage prog =
     line (''Usage: '' @ prog @ '' [--port N] [--peer host:port] ...'') @
     line [] @
     line ''  --port N           Local UDP port to listen on (default: 20909)'' @
     line ''  --peer host:port   Remote ALE instance to connect to (repeatable)'' @
     line ''                     host may be a hostname, IPv4, or [IPv6] address'' @
     line ''  --shm              Use shared-memory tunnel instead of UDP'' @
     line ''                     (useful for testing with network namespaces on the same host)'' @
     line [] @
     line ''  Keys while running:'' @
     line ''    q   quit'' @
     line ''    a   accept pending unknown peer'' @
     line ''    d   deny pending unknown peer''"

text \<open>An exception with the one nested in it, if any; an object that is no \<open>std::exception\<close> prints nothing.\<close>

datatype thrown = StdException string "thrown option" | OtherObject

fun print_exception :: "thrown \<Rightarrow> nat \<Rightarrow> string" where
  "print_exception (StdException what nested) level =
     replicate level (CHR '' '') @ line (''exception: '' @ what) @
     (case nested of None \<Rightarrow> [] | Some e \<Rightarrow> print_exception e (level + 1))"
| "print_exception OtherObject level = []"

text \<open>What \<open>main\<close> says about the tunnel before it starts; \<open>show_ep\<close> prints an endpoint. The dash is in UTF-8.\<close>

definition em_dash :: string where
  "em_dash = [CHR 0xE2, CHR 0x80, CHR 0x94]"

definition banner :: "('ep \<Rightarrow> string) \<Rightarrow> bool \<Rightarrow> nat \<Rightarrow> 'ep list \<Rightarrow> string" where
  "banner show_ep use_shm port peers =
     (if use_shm then line ''Using shared-memory tunnel.''
      else ''UDP tunnel on port '' @ to_string port @
        (if peers = [] then line ('' (no configured peers '' @ em_dash @ '' awaiting incoming connections)'')
         else '' with '' @ to_string (length peers) @ line '' peer(s):'' @
           concat (map (\<lambda>ep. line (''  '' @ show_ep ep)) peers)))"

definition prompt :: "('ep \<Rightarrow> string) \<Rightarrow> 'ep \<Rightarrow> string" where
  "prompt show_ep ep =
     line [] @ line (''Unknown peer: '' @ show_ep ep @ '' '' @ em_dash @ '' [a]ccept [d]eny (auto-reject in 60s)'')"

subsection \<open>The mode of the terminal\<close>

text \<open>The local flags of the terminal, on Linux; \<open>None\<close> when the standard input is no terminal.\<close>

type_synonym termios = "32 word"

unbundle bit_operations_syntax

definition ICANON :: termios where
  "ICANON = 2"

definition disableBufferedInput :: "termios option \<Rightarrow> termios option" where
  "disableBufferedInput t = map_option (\<lambda>flags. flags AND NOT ICANON) t"

definition enableBufferedInput :: "termios option \<Rightarrow> termios option" where
  "enableBufferedInput t = map_option (\<lambda>flags. flags OR ICANON) t"

lemma terminal_restored: "enableBufferedInput (disableBufferedInput t) = enableBufferedInput t"
  by (cases t) (auto simp: enableBufferedInput_def disableBufferedInput_def intro!: bit_word_eqI simp: bit_simps)

subsection \<open>The keys\<close>

text \<open>\<open>std::cin.get()\<close> on what is left of the input; at its end it returns -1 for ever, of which the cast keeps one byte.\<close>

definition cin_get :: "string \<Rightarrow> char \<times> string" where
  "cin_get keys = (case keys of [] \<Rightarrow> (CHR 0xFF, []) | c # cs \<Rightarrow> (c, cs))"

text \<open>
  \<open>input\<close>, on a queue that only the console changes: the answers it gives and the queue it leaves.
  \<open>None\<close>: it does not return.
\<close>

partial_function (option) input_loop ::
    "string \<Rightarrow> 'ep SharedPending \<Rightarrow> (('ep \<times> bool) list \<times> 'ep SharedPending) option" where
  "input_loop keys sp =
     (let (key, rest) = cin_get keys
      in if key = CHR ''q'' then Some ([], sp)
         else if key = CHR ''a'' \<or> key = CHR ''d'' then
           (case console_takes sp of
              (sp1, None) \<Rightarrow> input_loop rest sp1
            | (sp1, Some (e, hasNext)) \<Rightarrow>
                Option.bind (input_loop rest sp1)
                  (\<lambda>(answers, sp2). Some ((request_ep e, key = CHR ''a'') # answers, sp2)))
         else input_loop rest sp)"

end
