(* ===== verification/Approvals_Properties.thy ===== *)
theory Approvals_Properties
  imports Approvals
begin

text \<open>
  The approval of unknown peers as a transition system of the threads of the process: no request is
  lost or answered twice, and what the races between the threads can and cannot do.
\<close>

definition app_move :: "'ep App \<Rightarrow> 'ep App \<Rightarrow> bool" where
  "app_move a a' \<longleftrightarrow> (\<exists>e. app_step e a = Some (Inr a'))"

definition app_start :: "'ep App \<Rightarrow> bool" where
  "app_start a \<longleftrightarrow> a = App_init"

subsection \<open>Requests are conserved\<close>

fun held_by :: "'ep timer_thread \<Rightarrow> 'ep multiset" where
  "held_by (AboutToReject e) = {#request_ep e#}"
| "held_by _ = {#}"

fun held_by_console :: "'ep console_thread \<Rightarrow> 'ep multiset" where
  "held_by_console (AboutToAnswer accept e hasNext) = {#request_ep e#}"
| "held_by_console _ = {#}"

text \<open>The requests a thread has taken out of the queue and not answered yet.\<close>

definition in_hand :: "'ep App \<Rightarrow> 'ep multiset" where
  "in_hand a = sum_list (map held_by (timers a)) + held_by_console (console a)"

definition waiting :: "'ep App \<Rightarrow> 'ep multiset" where
  "waiting a = mset (map request_ep (approvals (shared a)))"

definition answered :: "'ep App \<Rightarrow> 'ep multiset" where
  "answered a = mset (map fst (decisions a))"

definition conserved :: "'ep App \<Rightarrow> bool" where
  "conserved a \<longleftrightarrow> mset (requests a) = waiting a + in_hand a + answered a"

lemma held_update:
  "i < length ts \<Longrightarrow>
     sum_list (map held_by (ts[i := t])) + held_by (ts ! i) = sum_list (map held_by ts) + held_by t"
proof (induction ts arbitrary: i)
  case (Cons u ts)
  then show ?case by (cases i) (simp_all add: ac_simps)
qed simp

lemma held_update_empty:
  "i < length ts \<Longrightarrow> held_by (ts ! i) = {#} \<Longrightarrow>
     sum_list (map held_by (ts[i := t])) = sum_list (map held_by ts) + held_by t"
  using held_update [of i ts t] by simp

lemmas conserved_simps = conserved_def waiting_def in_hand_def answered_def

lemma unknown_peer_callback_eq:
  "unknown_peer_callback ep sp =
     Inr (sp\<lparr>nextId := nextId sp + 1, approvals := approvals sp @ [\<lparr>request_id = nextId sp, request_ep = ep\<rparr>]\<rparr>,
          if approvals sp = [] then [ep] else [], nextId sp)"
  by (simp add: unknown_peer_callback_def printNextPrompt_def Let_def)

lemma timer_prompts_eq:
  "timer_prompts sp = Inr (if approvals sp \<noteq> [] \<and> alive sp then [request_ep (hd (approvals sp))] else [])"
  by (cases "approvals sp") (simp_all add: timer_prompts_def printNextPrompt_def)

lemma timer_takes_cases:
  obtains (nothing) "timer_takes n sp = (sp, None)" "\<And>e es. approvals sp = e # es \<Longrightarrow> alive sp \<Longrightarrow> request_id e \<noteq> n"
  | (takes) e es where "approvals sp = e # es" "request_id e = n" "alive sp"
      "timer_takes n sp = (sp\<lparr>approvals := es\<rparr>, Some e)"
proof (cases "approvals sp")
  case Nil
  show thesis by (rule nothing) (use Nil in \<open>simp_all add: timer_takes_def\<close>)
next
  case (Cons e es)
  show thesis
  proof (cases "alive sp \<and> request_id e = n")
    case True
    show thesis by (rule takes [OF Cons]) (use True Cons in \<open>simp_all add: timer_takes_def\<close>)
  next
    case False
    show thesis by (rule nothing) (use False Cons in \<open>auto simp: timer_takes_def\<close>)
  qed
qed

lemma decide_cases:
  "decide ep accept a = Inr a' \<longleftrightarrow> phase a \<noteq> Gone \<and> a' = a\<lparr>decisions := decisions a @ [(ep, accept)]\<rparr>"
  by (auto simp: decide_def)

text \<open>The steps that succeed, one by one.\<close>

lemma app_step_elim:
  assumes "app_step e a = Some (Inr a')"
  obtains (ask) ep where "e = Ask ep" "phase a \<noteq> Gone"
      "a' = a\<lparr>shared := (shared a)\<lparr>nextId := nextId (shared a) + 1,
                approvals := approvals (shared a) @ [\<lparr>request_id = nextId (shared a), request_ep = ep\<rparr>]\<rparr>,
              timers := timers a @ [Sleeping (nextId (shared a))], requests := requests a @ [ep],
              shown := shown a @ (if approvals (shared a) = [] then [ep] else [])\<rparr>"
  | (wake_idle) i n where "e = Wake i" "i < length (timers a)" "timers a ! i = Sleeping n"
      "\<And>x xs. approvals (shared a) = x # xs \<Longrightarrow> alive (shared a) \<Longrightarrow> request_id x \<noteq> n"
      "a' = a\<lparr>timers := (timers a)[i := TimerDone]\<rparr>"
  | (wake_takes) i n x xs where "e = Wake i" "i < length (timers a)" "timers a ! i = Sleeping n"
      "approvals (shared a) = x # xs" "request_id x = n" "alive (shared a)"
      "a' = a\<lparr>shared := (shared a)\<lparr>approvals := xs\<rparr>, timers := (timers a)[i := AboutToReject x]\<rparr>"
  | (rejects) i x where "e = TimerRejects i" "i < length (timers a)" "timers a ! i = AboutToReject x" "phase a \<noteq> Gone"
      "a' = a\<lparr>timers := (timers a)[i := AboutToPrompt], decisions := decisions a @ [(request_ep x, False)]\<rparr>"
  | (prompts) i where "e = TimerPrompts i" "i < length (timers a)" "timers a ! i = AboutToPrompt"
      "a' = a\<lparr>timers := (timers a)[i := TimerDone], shown := shown a @
         (if approvals (shared a) \<noteq> [] \<and> alive (shared a) then [request_ep (hd (approvals (shared a)))] else [])\<rparr>"
  | (key_idle) key where "e = Key key" "console a = Reading" "a' = a \<or> a' = a\<lparr>console := ConsoleDone\<rparr>"
  | (key_takes) key x xs where "e = Key key" "console a = Reading" "key = CHR ''a'' \<or> key = CHR ''d''"
      "approvals (shared a) = x # xs"
      "a' = a\<lparr>shared := (shared a)\<lparr>approvals := xs\<rparr>, console := AboutToAnswer (key = CHR ''a'') x (xs \<noteq> [])\<rparr>"
  | (answers) accept x hasNext where "e = ConsoleAnswers" "console a = AboutToAnswer accept x hasNext" "phase a \<noteq> Gone"
      "a' = a\<lparr>console := (if hasNext then AboutToPromptNext else Reading), decisions := decisions a @ [(request_ep x, accept)]\<rparr>"
  | (prompts_next) "e = ConsolePrompts" "console a = AboutToPromptNext"
      "a' = a\<lparr>console := Reading, shown := shown a @ console_prompts (shared a)\<rparr>"
  | (destroy) "e = DestroyState" "console a = ConsoleDone" "phase a = InUse"
      "a' = a\<lparr>shared := (shared a)\<lparr>alive := False, approvals := []\<rparr>, phase := Draining,
              decisions := decisions a @ map (\<lambda>ep. (ep, False)) (map request_ep (approvals (shared a)))\<rparr>"
  | (gone) "e = DestroyMembers" "phase a = Draining" "a' = a\<lparr>phase := Gone\<rparr>"
proof (cases e)
  case (Ask ep)
  then show thesis using assms ask by (auto simp: unknown_peer_callback_eq split: if_splits)
next
  case (Wake i)
  then obtain n where i: "i < length (timers a)" "timers a ! i = Sleeping n"
    using assms by (auto split: if_splits timer_thread.splits)
  show thesis
    by (rule timer_takes_cases [of n "shared a"]) (use assms Wake i wake_idle wake_takes in \<open>auto split: prod.splits\<close>)
next
  case (TimerRejects i)
  then show thesis using assms rejects by (auto simp: decide_cases split: if_splits timer_thread.splits)
next
  case (TimerPrompts i)
  then show thesis using assms prompts by (auto simp: timer_prompts_eq split: if_splits timer_thread.splits)
next
  case (Key key)
  then show thesis using assms key_idle key_takes
    by (cases "approvals (shared a)") (auto simp: input_key_def console_takes_def split: if_splits)
next
  case ConsoleAnswers
  then show thesis using assms answers by (auto simp: decide_cases split: console_thread.splits)
next
  case ConsolePrompts
  then show thesis using assms prompts_next by (auto split: if_splits)
next
  case DestroyState
  then show thesis using assms destroy by (auto simp: State_drain_def split: if_splits)
next
  case DestroyMembers
  then show thesis using assms gone by (auto split: if_splits)
qed

lemma conserved_step: "app_step e a = Some (Inr a') \<Longrightarrow> conserved a \<Longrightarrow> conserved a'"
proof (erule app_step_elim, goal_cases)
  case (3 i n x xs)
  then show ?case by (simp add: conserved_simps held_update_empty ac_simps)
next
  case (4 i x)
  then show ?case using held_update [of i "timers a" AboutToPrompt]
    by (simp add: conserved_simps ac_simps)
qed (auto simp: conserved_simps held_update_empty comp_def)

lemma conserved_init: "conserved App_init"
  by (simp add: conserved_simps App_init_def SharedPending_init_def)

interpretation app_conserves: invariant_system app_start app_move conserved
  by unfold_locales (auto simp: app_start_def app_move_def conserved_init intro: conserved_step)

subsection \<open>Timers that elapse in order\<close>

fun sleeping_ids :: "'ep timer_thread list \<Rightarrow> u64 list" where
  "sleeping_ids [] = []"
| "sleeping_ids (Sleeping n # ts) = n # sleeping_ids ts"
| "sleeping_ids (_ # ts) = sleeping_ids ts"

fun is_sleeping :: "'ep timer_thread \<Rightarrow> bool" where
  "is_sleeping (Sleeping n) \<longleftrightarrow> True"
| "is_sleeping _ \<longleftrightarrow> False"

text \<open>All sleeps are equally long, so they end in the order in which the threads were started.\<close>

definition in_order :: "'ep app_event \<Rightarrow> 'ep App \<Rightarrow> bool" where
  "in_order e a \<longleftrightarrow> (case e of Wake i \<Rightarrow> list_all (\<lambda>t. \<not> is_sleeping t) (take i (timers a)) | _ \<Rightarrow> True)"

definition app_move_in_order :: "'ep App \<Rightarrow> 'ep App \<Rightarrow> bool" where
  "app_move_in_order a a' \<longleftrightarrow> (\<exists>e. in_order e a \<and> app_step e a = Some (Inr a'))"

lemma sleeping_ids_append [simp]: "sleeping_ids (ts @ us) = sleeping_ids ts @ sleeping_ids us"
  by (induction ts rule: sleeping_ids.induct) simp_all

lemma sleeping_ids_Nil: "list_all (\<lambda>t. \<not> is_sleeping t) ts \<longleftrightarrow> sleeping_ids ts = []"
  by (induction ts rule: sleeping_ids.induct) simp_all

lemma sleeping_ids_awake [simp]: "\<not> is_sleeping t \<Longrightarrow> sleeping_ids (t # ts) = sleeping_ids ts"
  by (cases t) simp_all

lemma sleeping_ids_update:
  assumes "i < length ts" "\<not> is_sleeping (ts ! i)" "\<not> is_sleeping t"
  shows "sleeping_ids (ts[i := t]) = sleeping_ids ts"
proof -
  have "sleeping_ids (take i ts @ ts ! i # drop (Suc i) ts) = sleeping_ids (take i ts @ t # drop (Suc i) ts)"
    using assms by simp
  then show ?thesis using assms(1) id_take_nth_drop [OF assms(1)] by (simp add: upd_conv_take_nth_drop)
qed

lemma sleeping_ids_wake:
  assumes "i < length ts" "ts ! i = Sleeping n" "\<not> is_sleeping t" "list_all (\<lambda>t. \<not> is_sleeping t) (take i ts)"
  shows "sleeping_ids ts = n # sleeping_ids (ts[i := t])"
proof -
  have "sleeping_ids (take i ts @ ts ! i # drop (Suc i) ts) = n # sleeping_ids (take i ts @ t # drop (Suc i) ts)"
    using assms sleeping_ids_Nil [of "take i ts"] by simp
  then show ?thesis using assms(1) id_take_nth_drop [OF assms(1)] by (simp add: upd_conv_take_nth_drop)
qed

text \<open>While the \<open>State\<close> is in use, every request that waits has its own timer still running.\<close>

definition timed :: "'ep App \<Rightarrow> bool" where
  "timed a \<longleftrightarrow> conserved a \<and> (alive (shared a) \<longleftrightarrow> phase a = InUse) \<and>
     (phase a = InUse \<longrightarrow> suffix (map request_id (approvals (shared a))) (sleeping_ids (timers a)))"

lemma suffix_drop_head: "suffix (x # xs) ys \<Longrightarrow> suffix xs ys"
  by (auto simp: suffix_def)

lemma suffix_other_head: "suffix xs (y # ys) \<Longrightarrow> xs = [] \<or> hd xs \<noteq> y \<Longrightarrow> suffix xs ys"
  by (auto simp: suffix_Cons)

lemma timed_step:
  assumes "app_step e a = Some (Inr a')" "in_order e a" "timed a"
  shows "timed a'"
proof -
  have c: "conserved a'" using assms conserved_step by (auto simp: timed_def)
  from assms(1) show ?thesis
  proof (cases rule: app_step_elim)
    case (wake_idle i n)
    have "sleeping_ids (timers a) = n # sleeping_ids (timers a')"
      using sleeping_ids_wake [OF wake_idle(2,3), of TimerDone] assms(2) wake_idle by (simp add: in_order_def)
    moreover have "map request_id (approvals (shared a)) = [] \<or> hd (map request_id (approvals (shared a))) \<noteq> n" if "alive (shared a)"
      using wake_idle(4) that by (cases "approvals (shared a)") auto
    ultimately have "suffix (map request_id (approvals (shared a))) (sleeping_ids (timers a'))" if "phase a = InUse"
      using that assms(3) suffix_other_head [of "map request_id (approvals (shared a))" n] by (auto simp: timed_def)
    then show ?thesis using assms(3) wake_idle(5) c by (simp add: timed_def)
  next
    case (wake_takes i n x xs)
    have "sleeping_ids (timers a) = n # sleeping_ids (timers a')"
      using sleeping_ids_wake [OF wake_takes(2,3), of "AboutToReject x"] assms(2) wake_takes by (simp add: in_order_def)
    moreover have "suffix (n # map request_id xs) (n # ys) \<Longrightarrow> suffix (map request_id xs) ys" for ys
      by (auto simp: suffix_Cons dest: suffix_drop_head)
    ultimately show ?thesis using assms(3) wake_takes c by (auto simp: timed_def)
  next
    case (rejects i x)
    with sleeping_ids_update [OF rejects(2), of AboutToPrompt] assms(3) c show ?thesis by (simp add: timed_def)
  next
    case (prompts i)
    with sleeping_ids_update [OF prompts(2), of TimerDone] assms(3) c show ?thesis by (simp add: timed_def)
  next
    case (key_takes key x xs)
    with assms(3) c show ?thesis by (auto simp: timed_def dest: suffix_drop_head)
  qed (use assms(3) c in \<open>auto simp: timed_def\<close>)
qed

lemma timed_init: "timed App_init"
  using conserved_init by (simp add: timed_def App_init_def SharedPending_init_def)

interpretation app_timed: invariant_system app_start app_move_in_order timed
  by unfold_locales (auto simp: app_start_def app_move_in_order_def timed_init intro: timed_step)

subsection \<open>The threads come to rest\<close>

text \<open>The steps a timer thread and the console thread have left before they wait for something outside.\<close>

fun steps_left :: "'ep timer_thread \<Rightarrow> nat" where
  "steps_left (Sleeping n) = 3"
| "steps_left (AboutToReject e) = 2"
| "steps_left AboutToPrompt = 1"
| "steps_left TimerDone = 0"

fun console_steps_left :: "'ep console_thread \<Rightarrow> nat" where
  "console_steps_left (AboutToAnswer accept e hasNext) = 2"
| "console_steps_left AboutToPromptNext = 1"
| "console_steps_left _ = 0"

definition app_steps_left :: "'ep App \<Rightarrow> nat" where
  "app_steps_left a = sum_list (map steps_left (timers a)) + console_steps_left (console a)"

text \<open>A move of the timer threads (in order) and the console thread that needs no key and no new request.\<close>

fun own_event :: "'ep app_event \<Rightarrow> bool" where
  "own_event (Ask ep) \<longleftrightarrow> False"
| "own_event (Key key) \<longleftrightarrow> False"
| "own_event DestroyState \<longleftrightarrow> False"
| "own_event DestroyMembers \<longleftrightarrow> False"
| "own_event _ \<longleftrightarrow> True"

definition own_move :: "'ep App \<Rightarrow> 'ep App \<Rightarrow> bool" where
  "own_move a a' \<longleftrightarrow> (\<exists>e. own_event e \<and> in_order e a \<and> app_step e a = Some (Inr a'))"

lemma own_moveI: "own_event e \<Longrightarrow> in_order e a \<Longrightarrow> \<exists>a'. app_step e a = Some (Inr a') \<Longrightarrow> \<exists>a'. own_move a a'"
  by (auto simp: own_move_def)

lemma sum_list_update_less:
  fixes f :: "'a \<Rightarrow> nat"
  shows "i < length ts \<Longrightarrow> f t < f (ts ! i) \<Longrightarrow> sum_list (map f (ts[i := t])) < sum_list (map f ts)"
proof (induction ts arbitrary: i)
  case (Cons u ts)
  then show ?case by (cases i) simp_all
qed simp

lemma own_move_decreases: "own_move a a' \<Longrightarrow> app_steps_left a' < app_steps_left a"
  unfolding own_move_def
proof (elim exE conjE, erule app_step_elim, goal_cases)
qed (auto simp: app_steps_left_def intro!: sum_list_update_less)

lemma own_move_keeps: "own_move a a' \<Longrightarrow> requests a' = requests a \<and> phase a' = phase a \<and> prefix (decisions a) (decisions a')"
  unfolding own_move_def by (elim exE conjE, erule app_step_elim) auto

lemma first_index:
  assumes "i < length ts" "P (ts ! i)"
  obtains j where "j < length ts" "P (ts ! j)" "list_all (\<lambda>t. \<not> P t) (take j ts)"
proof -
  define j where "j = (LEAST j. j < length ts \<and> P (ts ! j))"
  have j: "j < length ts \<and> P (ts ! j)" unfolding j_def by (rule LeastI [of _ i]) (use assms in simp)
  moreover have "\<not> P (ts ! k)" if "k < j" for k
    using not_less_Least [of k "\<lambda>j. j < length ts \<and> P (ts ! j)"] that j unfolding j_def by auto
  ultimately show thesis using that [of j] by (auto simp: list_all_length)
qed

lemma timer_can_move:
  assumes "phase a \<noteq> Gone" "i < length (timers a)" "timers a ! i \<noteq> TimerDone"
  shows "\<exists>a'. own_move a a'"
proof (cases "\<exists>j < length (timers a). is_sleeping (timers a ! j)")
  case True
  then obtain j where j: "j < length (timers a)" "is_sleeping (timers a ! j)"
    "list_all (\<lambda>t. \<not> is_sleeping t) (take j (timers a))"
    using first_index [of _ "timers a" is_sleeping] by metis
  then obtain n where "timers a ! j = Sleeping n" by (cases "timers a ! j") auto
  with j(1) have "\<exists>a'. app_step (Wake j) a = Some (Inr a')" by (simp split: prod.split option.split)
  with j(3) show ?thesis by (intro own_moveI [of "Wake j"]) (simp_all add: in_order_def)
next
  case False
  with assms(2) have "\<not> is_sleeping (timers a ! i)" by blast
  with assms(3) consider (reject) e where "timers a ! i = AboutToReject e" | (prompt) "timers a ! i = AboutToPrompt"
    by (cases "timers a ! i") auto
  then show ?thesis
  proof cases
    case reject
    with assms(1,2) have "\<exists>a'. app_step (TimerRejects i) a = Some (Inr a')" by (simp add: decide_def)
    then show ?thesis by (intro own_moveI [of "TimerRejects i"]) (simp_all add: in_order_def)
  next
    case prompt
    with assms(2) have "\<exists>a'. app_step (TimerPrompts i) a = Some (Inr a')" by (simp add: timer_prompts_eq)
    then show ?thesis by (intro own_moveI [of "TimerPrompts i"]) (simp_all add: in_order_def)
  qed
qed

lemma console_can_move:
  assumes "phase a \<noteq> Gone" "console a = AboutToAnswer accept x hasNext"
  shows "\<exists>a'. own_move a a'"
proof -
  from assms have "\<exists>a'. app_step ConsoleAnswers a = Some (Inr a')" by (simp add: decide_def)
  then show ?thesis by (intro own_moveI [of ConsoleAnswers]) (simp_all add: in_order_def)
qed

lemma sum_list_empty: "(\<And>t. t \<in> set ts \<Longrightarrow> f t = {#}) \<Longrightarrow> sum_list (map f ts) = {#}"
  by (induction ts) simp_all

lemma at_rest:
  assumes "phase a \<noteq> Gone" "\<nexists>a'. own_move a a'"
  shows "sleeping_ids (timers a) = [] \<and> in_hand a = {#}"
proof -
  have over: "t = TimerDone" if "t \<in> set (timers a)" for t
    using timer_can_move [OF assms(1)] assms(2) that by (metis in_set_conv_nth)
  have "sum_list (map held_by (timers a)) = {#}" using over by (intro sum_list_empty) fastforce
  moreover have "held_by_console (console a) = {#}"
    using console_can_move [OF assms(1)] assms(2) by (cases "console a") auto
  moreover have "list_all (\<lambda>t. \<not> is_sleeping t) (timers a)" using over by (fastforce simp: list_all_iff)
  ultimately show ?thesis by (simp add: in_hand_def sleeping_ids_Nil)
qed

lemma comes_to_rest: "\<exists>a'. own_move\<^sup>*\<^sup>* a a' \<and> (\<nexists>a''. own_move a' a'')"
proof (induction "app_steps_left a" arbitrary: a rule: less_induct)
  case less
  show ?case
  proof (cases "\<exists>a1. own_move a a1")
    case True
    then obtain a1 where a1: "own_move a a1" by blast
    from less [OF own_move_decreases [OF a1]] a1 show ?thesis by (meson converse_rtranclp_into_rtranclp)
  qed auto
qed

lemma own_moves_in_order: "own_move\<^sup>*\<^sup>* a a' \<Longrightarrow> app_move_in_order\<^sup>*\<^sup>* a a'"
proof (induction rule: rtranclp_induct)
  case (step b c)
  then have "app_move_in_order b c" by (auto simp: own_move_def app_move_in_order_def)
  with step show ?case by simp
qed simp

lemma own_moves_keep:
  "own_move\<^sup>*\<^sup>* a a' \<Longrightarrow> requests a' = requests a \<and> phase a' = phase a \<and> prefix (decisions a) (decisions a')"
proof (induction rule: rtranclp_induct)
  case (step b c)
  with own_move_keeps [OF step(2)] show ?case by (auto intro: prefix_order.order_trans)
qed simp

text \<open>A run of named steps, for the concrete executions.\<close>

fun app_run :: "'ep app_event list \<Rightarrow> 'ep App \<Rightarrow> 'ep App option" where
  "app_run [] a = Some a"
| "app_run (e # es) a = (case app_step e a of Some (Inr a') \<Rightarrow> app_run es a' | _ \<Rightarrow> None)"

lemma app_run_reaches: "app_run es a = Some a' \<Longrightarrow> app_move\<^sup>*\<^sup>* a a'"
proof (induction es arbitrary: a)
  case (Cons e es)
  then obtain a1 where "app_step e a = Some (Inr a1)" "app_run es a1 = Some a'"
    by (auto split: option.splits sum.splits)
  then have "app_move a a1" "app_move\<^sup>*\<^sup>* a1 a'" by (auto simp: app_move_def intro: Cons.IH)
  then show ?case by simp
qed simp

lemma app_step_fault:
  assumes "app_step e a = Some (Inl f)"
  shows "f = UseAfterFree \<and> phase a = Gone"
  using assms
  by (cases e) (auto simp: decide_def unknown_peer_callback_eq timer_prompts_eq split: if_splits sum.splits timer_thread.splits console_thread.splits prod.splits)

lemmas app_run_simps = App_init_def SharedPending_init_def unknown_peer_callback_eq timer_takes_def decide_def
  input_key_def console_takes_def State_drain_def timer_prompts_eq

subsection \<open>Properties\<close>

text \<open>
  C13: No request is lost and none is answered twice. However the IO thread, the timers, the console and the
  shutdown interleave, the requests made are, with multiplicity, those waiting in the queue, those a
  thread has taken out, and those answered; no thread ever reads the front of an empty queue, and the only
  way a step can fail is a closure called after the tunnel was destroyed.
\<close>

theorem requests_conserved:
  assumes "app_move\<^sup>*\<^sup>* App_init a"
  shows "mset (requests a) = mset (map request_ep (approvals (shared a))) + in_hand a + mset (map fst (decisions a)) \<and>
    (app_step e a = Some (Inl f) \<longrightarrow> f = UseAfterFree \<and> phase a = Gone)"
proof -
  have "conserved a" by (rule app_conserves.inv_reachable [OF _ assms]) (simp add: app_start_def)
  then show ?thesis using app_step_fault by (auto simp: conserved_def waiting_def answered_def)
qed

theorem requests_conserved_witness:
  "\<exists>a. app_run [Ask 7, Ask (8 :: nat), Key (CHR ''a'')] App_init = Some a \<and>
     mset (requests a) = {#8#} + in_hand a + {#}"
proof -
  obtain a where a: "app_run [Ask 7, Ask (8 :: nat), Key (CHR ''a'')] App_init = Some a"
    "approvals (shared a) = [\<lparr>request_id = 1, request_ep = 8\<rparr>]" "decisions a = []"
    by (simp add: app_run_simps)
  from requests_conserved [OF app_run_reaches [OF a(1)]] a show ?thesis by auto
qed

text \<open>
  C38: Every request is answered within its minute when the timers elapse in the order in which they
  were started. From every state reached that way while the program is in use, the timers and the
  console come to rest by themselves, in finitely many steps and with no key and no new request, and
  then every request ever made has been answered exactly once, the earlier answers being kept.
\<close>

theorem requests_answered_in_order:
  assumes "app_move_in_order\<^sup>*\<^sup>* App_init a" "phase a = InUse"
  shows "\<exists>a'. own_move\<^sup>*\<^sup>* a a' \<and> requests a' = requests a \<and> prefix (decisions a) (decisions a') \<and>
    approvals (shared a') = [] \<and> mset (map fst (decisions a')) = mset (requests a)"
proof -
  obtain a' where a': "own_move\<^sup>*\<^sup>* a a'" "\<nexists>a''. own_move a' a''" using comes_to_rest by blast
  note keep = own_moves_keep [OF a'(1)]
  have "app_move_in_order\<^sup>*\<^sup>* App_init a'" using assms(1) own_moves_in_order [OF a'(1)] by simp
  then have t: "timed a'" by (rule app_timed.inv_reachable [rotated]) (simp add: app_start_def)
  have rest: "sleeping_ids (timers a') = []" "in_hand a' = {#}"
    using at_rest [OF _ a'(2)] keep assms(2) by auto
  then have "approvals (shared a') = []" using t keep assms(2) by (simp add: timed_def)
  moreover from this have "mset (map fst (decisions a')) = mset (requests a)"
    using t rest keep by (simp add: timed_def conserved_def waiting_def answered_def)
  ultimately show ?thesis using a'(1) keep by blast
qed

theorem requests_answered_in_order_witness:
  "\<exists>a' :: nat App. mset (map fst (decisions a')) = mset [7] \<and> approvals (shared a') = []"
proof -
  obtain a where a: "app_step (Ask (7 :: nat)) App_init = Some (Inr a)" "requests a = [7]" "phase a = InUse"
    by (simp add: app_run_simps)
  then have "app_move_in_order App_init a" unfolding app_move_in_order_def
    by (intro exI [of _ "Ask 7"]) (simp add: in_order_def del: app_step.simps)
  from requests_answered_in_order [OF r_into_rtranclp [of app_move_in_order, OF this] a(3)] a(2) show ?thesis
    by metis
qed

text \<open>
  Out of order, a request can be forgotten. When the timer of a second request runs before that of the
  first, it finds another request at the front and gives up; after the first timer has taken its own,
  the second request waits with no timer left, until a key is pressed or the program ends.
\<close>

theorem overtaking_timer_strands_request:
  "\<exists>a. app_move\<^sup>*\<^sup>* App_init a \<and> phase a = InUse \<and> map request_ep (approvals (shared a)) = [q] \<and>
     timers a = [TimerDone, TimerDone] \<and> decisions a = [(p, False)]"
proof -
  have "\<exists>a. app_run [Ask p, Ask q, Wake 1, Wake 0, TimerRejects 0, TimerPrompts 0] App_init = Some a \<and> phase a = InUse \<and>
     map request_ep (approvals (shared a)) = [q] \<and> timers a = [TimerDone, TimerDone] \<and> decisions a = [(p, False)]"
    by (simp add: app_run_simps)
  then show ?thesis by (elim exE conjE) (intro exI conjI, rule app_run_reaches, assumption+)
qed

text \<open>
  C39: A key can let in a peer that was never shown. The prompt names the first request; when its timer takes it
  just before the key is pressed, the key answers the next request, for which no prompt has been printed.
\<close>

theorem key_accepts_unshown_peer:
  assumes "p \<noteq> q"
  shows "\<exists>a. app_move\<^sup>*\<^sup>* App_init a \<and> (q, True) \<in> set (decisions a) \<and> q \<notin> set (shown a)"
proof -
  obtain a where "app_run [Ask p, Ask q, Wake 0, Key (CHR ''a''), ConsoleAnswers] App_init = Some a"
    "decisions a = [(q, True)]" "shown a = [p]"
    by (simp add: app_run_simps)
  then show ?thesis using app_run_reaches assms by fastforce
qed

theorem key_accepts_unshown_peer_witness:
  "\<exists>a. app_move\<^sup>*\<^sup>* App_init a \<and> (8 :: nat, True) \<in> set (decisions a) \<and> 8 \<notin> set (shown a)"
  by (rule key_accepts_unshown_peer [of 7]) simp

text \<open>
  C40: A timer can outlive the tunnel. A timer thread that has taken its request out of the queue when the program
  is stopped is not held up by the destructor, and then calls the request's closure on the destroyed
  tunnel; the flag \<open>alive\<close> protects only the threads that have not taken their request yet.
\<close>

theorem timer_outlives_tunnel:
  "\<exists>a. app_move\<^sup>*\<^sup>* App_init a \<and> \<not> alive (shared a) \<and> requests a = [p] \<and>
     app_step (TimerRejects 0) a = Some (Inl UseAfterFree)"
proof -
  obtain a where "app_run [Ask p, Wake 0, Key (CHR ''q''), DestroyState, DestroyMembers] App_init = Some a"
    "\<not> alive (shared a)" "requests a = [p]" "app_step (TimerRejects 0) a = Some (Inl UseAfterFree)"
    by (simp add: app_run_simps)
  then show ?thesis using app_run_reaches by blast
qed

end
