(* ===== verification/Command_Line.thy ===== *)
theory Command_Line
  imports Controller Decimal
begin

text \<open>
  The command line of \<open>source/main.cpp\<close>: \<open>parseEndpoint\<close>, \<open>parseArgs\<close> and the part of \<open>main\<close> that
  runs before the program does.

  The address parser and the resolver of asio are parameters (\<open>resolver\<close>). An exception is a
  value of \<open>arg_error\<close>; every one of them is a \<open>std::invalid_argument\<close>, for which \<open>main\<close> prints the usage,
  except the \<open>std::out_of_range\<close> of \<open>std::stoul\<close>.
\<close>

subsection \<open>Parameters and errors\<close>

record 'ip resolver =
  make_address :: "string \<Rightarrow> 'ip option"                                   \<comment> \<open>\<open>ip::make_address\<close> without error\<close>
  resolve :: "string \<Rightarrow> string \<Rightarrow> string + 'ip UdpEndpoint list"             \<comment> \<open>the error message or the results\<close>

datatype arg_error =
    UnmatchedBracket string
  | NotBracketForm string
  | NotHostPortForm string
  | MissingPort string
  | CannotResolve string string
  | NoAddressesFound string
  | BadNumber number_error
  | PortNeedsValue
  | PeerNeedsValue
  | UnknownArgument string

definition is_invalid_argument :: "arg_error \<Rightarrow> bool" where
  "is_invalid_argument e \<longleftrightarrow> e \<noteq> BadNumber NumberOutOfRange"

subsection \<open>Endpoints\<close>

definition find_char :: "char \<Rightarrow> string \<Rightarrow> nat option" where
  "find_char c s = (if c \<in> set s then Some (length (takeWhile (\<lambda>x. x \<noteq> c) s)) else None)"

definition rfind_char :: "char \<Rightarrow> string \<Rightarrow> nat option" where
  "rfind_char c s =
     (if c \<in> set s then Some (length s - 1 - length (takeWhile (\<lambda>x. x \<noteq> c) (rev s))) else None)"

text \<open>\<open>static_cast<uint16_t>(std::stoul(text))\<close>\<close>

definition port_of_text :: "string \<Rightarrow> arg_error + u16" where
  "port_of_text text = (case stoul text of Inl e \<Rightarrow> Inl (BadNumber e) | Inr n \<Rightarrow> Inr (ucast n))"

definition splitEndpoint :: "string \<Rightarrow> arg_error + string \<times> string" where
  "splitEndpoint s =
     (if s \<noteq> [] \<and> hd s = CHR ''['' then
        (case find_char (CHR '']'') s of
           None \<Rightarrow> Inl (UnmatchedBracket s)
         | Some close \<Rightarrow>
             (if length s \<le> close + 1 \<or> s ! (close + 1) \<noteq> CHR '':'' then Inl (NotBracketForm s)
              else Inr (take (close - 1) (drop 1 s), drop (close + 2) s)))
      else
        (case rfind_char (CHR '':'') s of
           None \<Rightarrow> Inl (NotHostPortForm s)
         | Some colon \<Rightarrow>
             (if colon = 0 \<or> colon + 1 = length s then Inl (NotHostPortForm s)
              else Inr (take colon s, drop (colon + 1) s))))"

definition parseEndpoint :: "'ip resolver \<Rightarrow> string \<Rightarrow> arg_error + 'ip UdpEndpoint" where
  "parseEndpoint N s =
     (case splitEndpoint s of
        Inl e \<Rightarrow> Inl e
      | Inr (host, portStr) \<Rightarrow>
          (if portStr = [] then Inl (MissingPort s)
           else (case make_address N host of
                   Some addr \<Rightarrow>
                     (case port_of_text portStr of
                        Inl e \<Rightarrow> Inl e
                      | Inr port \<Rightarrow> Inr \<lparr>ep_address = addr, ep_port = port\<rparr>)
                 | None \<Rightarrow>
                     (case resolve N host portStr of
                        Inl msg \<Rightarrow> Inl (CannotResolve host msg)
                      | Inr [] \<Rightarrow> Inl (NoAddressesFound host)
                      | Inr (first # _) \<Rightarrow> Inr first))))"

subsection \<open>Arguments\<close>

text \<open>\<open>parseArgs\<close> returns a configuration, throws, or prints the usage and calls \<open>std::exit(0)\<close>.\<close>

datatype 'ip parsed = HelpExit | ArgError arg_error | Parsed "'ip Config"

fun parse_options :: "'ip resolver \<Rightarrow> string list \<Rightarrow> 'ip Config \<Rightarrow> 'ip parsed" where
  "parse_options N [] config = Parsed config"
| "parse_options N (arg # rest) config =
     (if arg = ''--help'' \<or> arg = ''-h'' then HelpExit
      else if arg = ''--port'' then
        (case rest of
           [] \<Rightarrow> ArgError PortNeedsValue
         | v # rest' \<Rightarrow>
             (case port_of_text v of
                Inl e \<Rightarrow> ArgError e
              | Inr p \<Rightarrow> parse_options N rest' (config\<lparr>tunnel_port := p\<rparr>)))
      else if arg = ''--peer'' then
        (case rest of
           [] \<Rightarrow> ArgError PeerNeedsValue
         | v # rest' \<Rightarrow>
             (case parseEndpoint N v of
                Inl e \<Rightarrow> ArgError e
              | Inr ep \<Rightarrow> parse_options N rest' (config\<lparr>peers := peers config @ [ep]\<rparr>)))
      else if arg = ''--shm'' then parse_options N rest (config\<lparr>use_shm := True\<rparr>)
      else ArgError (UnknownArgument arg))"

definition parseArgs :: "'ip resolver \<Rightarrow> string list \<Rightarrow> 'ip parsed" where
  "parseArgs N argv = parse_options N (tl argv) default_config"

subsection \<open>Start\<close>

text \<open>
  \<open>main\<close> up to the point where the program runs. \<open>starts\<close> constructs the \<open>State\<close> for a
  configuration, which can throw. The outcomes: the process exits with a code, having printed the
  usage or not, or it runs with the configuration.
\<close>

datatype ('ip, 's) outcome =
    ExitCode nat bool                     \<comment> \<open>the code, and whether the usage was printed\<close>
  | RunsWith "'ip Config" 's

definition main_start :: "'ip resolver \<Rightarrow> ('ip Config \<Rightarrow> fault + 's) \<Rightarrow> string list \<Rightarrow> ('ip, 's) outcome" where
  "main_start N starts argv =
     (case parseArgs N argv of
        HelpExit \<Rightarrow> ExitCode 0 True
      | ArgError e \<Rightarrow> ExitCode 1 (is_invalid_argument e)
      | Parsed config \<Rightarrow>
          (case starts config of
             Inl f \<Rightarrow> ExitCode 1 False
           | Inr s \<Rightarrow> RunsWith config s))"

subsection \<open>Finding the separators\<close>

declare parse_options.simps(2) [simp del]

lemma rfind_char_append:
  "c \<notin> set b \<Longrightarrow> rfind_char c (a @ c # b) = Some (length a)"
proof -
  assume "c \<notin> set b"
  then have "\<And>x. x \<in> set (rev b) \<Longrightarrow> x \<noteq> c" by auto
  from takeWhile_append2 [of "rev b" "\<lambda>x. x \<noteq> c", OF this]
  have "takeWhile (\<lambda>x. x \<noteq> c) (rev (a @ c # b)) = rev b" by simp
  then show ?thesis by (simp add: rfind_char_def)
qed

lemma find_char_append:
  "c \<notin> set a \<Longrightarrow> find_char c (a @ c # b) = Some (length a)"
proof -
  assume "c \<notin> set a"
  then have "\<And>x. x \<in> set a \<Longrightarrow> x \<noteq> c" by auto
  from takeWhile_append2 [of a "\<lambda>x. x \<noteq> c", OF this] show ?thesis by (simp add: find_char_def)
qed

lemma splitEndpoint_plain:
  assumes "host \<noteq> []" "hd host \<noteq> CHR ''[''" "CHR '':'' \<notin> set text" "text \<noteq> []"
  shows "splitEndpoint (host @ CHR '':'' # text) = Inr (host, text)"
  using assms rfind_char_append [OF assms(3), of host] by (simp add: splitEndpoint_def)

lemma splitEndpoint_bracket:
  assumes "CHR '']'' \<notin> set host"
  shows "splitEndpoint (CHR ''['' # host @ CHR '']'' # CHR '':'' # text) = Inr (host, text)"
proof -
  have "find_char (CHR '']'') ((CHR ''['' # host) @ CHR '']'' # CHR '':'' # text) = Some (Suc (length host))"
    using assms by (subst find_char_append) simp_all
  then show ?thesis by (simp add: splitEndpoint_def nth_append)
qed

lemma narrow_of_int: "ucast (of_int k :: u64) = (of_int k :: u16)"
  by transfer simp

lemma narrow_of_nat: "ucast (of_nat n :: u64) = (of_nat n :: u16)"
  using narrow_of_int [of "int n"] by simp

lemma port_of_text_to_string:
  "port_of_text (to_string n) = (if n < 2 ^ 64 then Inr (of_nat n) else Inl (BadNumber NumberOutOfRange))"
  by (simp add: port_of_text_def stoul_to_string narrow_of_nat)

lemma port_of_text_negative:
  assumes "n < 2 ^ 64"
  shows "port_of_text (CHR ''-'' # to_string n) = Inr (- of_nat n)"
proof -
  have "ucast (- of_nat n :: u64) = (- of_nat n :: u16)"
    using narrow_of_int [of "- int n"] by simp
  with stoul_negative [of "[]" n] assms show ?thesis by (simp add: port_of_text_def)
qed

end
