(* ===== verification/Command_Line_Properties.thy ===== *)
theory Command_Line_Properties
  imports Command_Line
begin

text \<open>
  What the command line accepts, as a grammar of options with their meaning, and how the texts of
  endpoints and ports are read.
\<close>

subsection \<open>The grammar of the options\<close>

datatype 'ip opt = PortOpt string u16 | PeerOpt string "'ip UdpEndpoint" | ShmOpt

fun render_opt :: "'ip opt \<Rightarrow> string list" where
  "render_opt (PortOpt text port) = [''--port'', text]"
| "render_opt (PeerOpt text ep) = [''--peer'', text]"
| "render_opt ShmOpt = [''--shm'']"

fun valid_opt :: "'ip resolver \<Rightarrow> 'ip opt \<Rightarrow> bool" where
  "valid_opt N (PortOpt text port) \<longleftrightarrow> port_of_text text = Inr port"
| "valid_opt N (PeerOpt text ep) \<longleftrightarrow> parseEndpoint N text = Inr ep"
| "valid_opt N ShmOpt \<longleftrightarrow> True"

fun ports_of :: "'ip opt list \<Rightarrow> u16 list" where
  "ports_of [] = []"
| "ports_of (PortOpt text port # opts) = port # ports_of opts"
| "ports_of (_ # opts) = ports_of opts"

fun peers_of :: "'ip opt list \<Rightarrow> 'ip UdpEndpoint list" where
  "peers_of [] = []"
| "peers_of (PeerOpt text ep # opts) = ep # peers_of opts"
| "peers_of (_ # opts) = peers_of opts"

text \<open>The last port counts, the peers add up in order, and one \<open>--shm\<close> is enough.\<close>

definition configured :: "'ip Config \<Rightarrow> 'ip opt list \<Rightarrow> 'ip Config" where
  "configured config opts =
     \<lparr>tunnel_port = last (tunnel_port config # ports_of opts), peers = peers config @ peers_of opts,
      use_shm = (use_shm config \<or> ShmOpt \<in> set opts)\<rparr>"

lemma configured_Nil [simp]: "configured config [] = config"
  by (simp add: configured_def)

lemma configured_Cons [simp]:
  "configured config (PortOpt text port # opts) = configured (config\<lparr>tunnel_port := port\<rparr>) opts"
  "configured config (PeerOpt text ep # opts) = configured (config\<lparr>peers := peers config @ [ep]\<rparr>) opts"
  "configured config (ShmOpt # opts) = configured (config\<lparr>use_shm := True\<rparr>) opts"
  by (simp_all add: configured_def)

abbreviation render_opts :: "'ip opt list \<Rightarrow> string list" where
  "render_opts opts \<equiv> concat (map render_opt opts)"

lemma parse_valid_prefix:
  "list_all (valid_opt N) opts \<Longrightarrow>
     parse_options N (render_opts opts @ rest) config = parse_options N rest (configured config opts)"
proof (induction opts arbitrary: config)
  case (Cons opt opts)
  then show ?case by (cases opt) (simp_all add: parse_options.simps(2))
qed simp

definition is_help :: "string \<Rightarrow> bool" where
  "is_help arg \<longleftrightarrow> arg = ''--help'' \<or> arg = ''-h''"

text \<open>One round of the loop: an option that is understood, a request for help, or an error.\<close>

lemma parse_step:
  assumes "parse_options N (arg # rest) config = r"
  obtains (usage) "is_help arg" "r = HelpExit"
    | (port) v rest' p where "\<not> is_help arg" "arg = ''--port''" "rest = v # rest'" "port_of_text v = Inr p"
        "parse_options N rest' (config\<lparr>tunnel_port := p\<rparr>) = r"
    | (peer) v rest' ep where "\<not> is_help arg" "arg \<noteq> ''--port''" "arg = ''--peer''" "rest = v # rest'"
        "parseEndpoint N v = Inr ep" "parse_options N rest' (config\<lparr>peers := peers config @ [ep]\<rparr>) = r"
    | (shm) "\<not> is_help arg" "arg \<noteq> ''--port''" "arg \<noteq> ''--peer''" "arg = ''--shm''"
        "parse_options N rest (config\<lparr>use_shm := True\<rparr>) = r"
    | (error) e where "r = ArgError e"
proof -
  note r = assms [unfolded parse_options.simps(2) is_help_def [symmetric], symmetric]
  show thesis
  proof (cases "is_help arg")
    case False
    show thesis
    proof (cases "arg = ''--port''")
      case port: True
      show thesis
      proof (cases rest)
        case (Cons v rest')
        show thesis
        proof (cases "port_of_text v")
          case (Inr p)
          then show thesis using that(2) [OF False port Cons Inr] r False port Cons by simp
        qed (use that(5) r False port Cons in simp)
      qed (use that(5) r False port in simp)
    next
      case port: False
      show thesis
      proof (cases "arg = ''--peer''")
        case peer: True
        show thesis
        proof (cases rest)
          case (Cons v rest')
          show thesis
          proof (cases "parseEndpoint N v")
            case (Inr ep)
            then show thesis using that(3) [OF False port peer Cons Inr] r False port peer Cons by simp
          qed (use that(5) r False port peer Cons in simp)
        qed (use that(5) r False port peer in simp)
      next
        case peer: False
        show thesis using that(4) [OF False port peer] that(5) r False port peer by (cases "arg = ''--shm''") simp_all
      qed
    qed
  qed (use that(1) r in simp)
qed

text \<open>What was understood before the loop ended, whatever it ended with.\<close>

lemma parse_options_end:
  "parse_options N args config = r \<Longrightarrow>
     (\<exists>e. r = ArgError e) \<or>
     (\<exists>opts. list_all (valid_opt N) opts \<and>
        (args = render_opts opts \<and> r = Parsed (configured config opts) \<or>
         (\<exists>h rest. is_help h \<and> args = render_opts opts @ h # rest \<and> r = HelpExit)))"
proof (induction N args config rule: parse_options.induct)
  case (1 N config)
  then show ?case by (intro disjI2 exI [of _ "[]"]) auto
next
  case (2 N arg rest config)
  from 2(4) show ?case
  proof (cases rule: parse_step)
    case usage
    then show ?thesis by (intro disjI2 exI [of _ "[]"]) auto
  next
    case (port v rest' p)
    from 2(1) [OF port(1) [unfolded is_help_def] port(2,3,4,5)] port show ?thesis
    proof (elim disjE exE conjE, goal_cases)
      case (2 opts)
      then show ?case by (intro disjI2 exI [of _ "PortOpt v p # opts"]) simp
    next
      case (3 opts h more)
      then show ?case by (intro disjI2 exI [of _ "PortOpt v p # opts"]) simp
    qed simp
  next
    case (peer v rest' ep)
    from 2(2) [OF peer(1) [unfolded is_help_def] peer(2,3,4,5,6)] peer show ?thesis
    proof (elim disjE exE conjE, goal_cases)
      case (2 opts)
      then show ?case by (intro disjI2 exI [of _ "PeerOpt v ep # opts"]) simp
    next
      case (3 opts h more)
      then show ?case by (intro disjI2 exI [of _ "PeerOpt v ep # opts"]) simp
    qed simp
  next
    case shm
    from 2(3) [OF shm(1) [unfolded is_help_def] shm(2,3,4,5)] shm show ?thesis
    proof (elim disjE exE conjE, goal_cases)
      case (2 opts)
      then show ?case by (intro disjI2 exI [of _ "ShmOpt # opts"]) simp
    next
      case (3 opts h more)
      then show ?case by (intro disjI2 exI [of _ "ShmOpt # opts"]) simp
    qed simp
  qed simp
qed

lemma parse_help: "is_help h \<Longrightarrow> parse_options N (h # rest) config = HelpExit"
  by (simp add: parse_options.simps(2) is_help_def)

lemma parse_Parsed_iff:
  "parse_options N args config = Parsed config' \<longleftrightarrow>
     (\<exists>opts. list_all (valid_opt N) opts \<and> args = render_opts opts \<and> config' = configured config opts)"
  using parse_options_end [of N args config "Parsed config'"] parse_valid_prefix [of N _ "[]" config] by auto

lemma parse_HelpExit_iff:
  "parse_options N args config = HelpExit \<longleftrightarrow>
     (\<exists>opts h rest. list_all (valid_opt N) opts \<and> is_help h \<and> args = render_opts opts @ h # rest)"
proof
  assume "parse_options N args config = HelpExit"
  from parse_options_end [OF this] show "\<exists>opts h rest. list_all (valid_opt N) opts \<and> is_help h \<and> args = render_opts opts @ h # rest"
    by auto
next
  assume "\<exists>opts h rest. list_all (valid_opt N) opts \<and> is_help h \<and> args = render_opts opts @ h # rest"
  then show "parse_options N args config = HelpExit" using parse_valid_prefix parse_help by metis
qed

lemma main_start_runs: "main_start N starts argv = RunsWith config s \<longleftrightarrow> parseArgs N argv = Parsed config \<and> starts config = Inr s"
  by (auto simp: main_start_def split: parsed.splits sum.splits)

lemma main_start_help: "main_start N starts argv = ExitCode 0 usage \<longleftrightarrow> parseArgs N argv = HelpExit \<and> usage"
  by (auto simp: main_start_def split: parsed.splits sum.splits)

subsection \<open>Properties\<close>

text \<open>
  C23: The command line is the grammar it is documented to be. The program runs with a configuration
  exactly when its arguments are a list of valid options (\<open>--port\<close> with a number, \<open>--peer\<close> with an endpoint,
  \<open>--shm\<close>), and the configuration has the last port, all peers in order and the shared-memory choice of
  these options; it exits with code 0 exactly when such a list is followed by a request for help,
  whatever comes after it; and in every other case it exits with code 1.
\<close>

theorem main_start_language:
  "(main_start N starts (prog # args) = RunsWith config s \<longleftrightarrow>
      (\<exists>opts. list_all (valid_opt N) opts \<and> args = render_opts opts \<and>
         config = configured default_config opts) \<and> starts config = Inr s) \<and>
   (main_start N starts (prog # args) = ExitCode 0 usage \<longleftrightarrow>
      (\<exists>opts h rest. list_all (valid_opt N) opts \<and> is_help h \<and> args = render_opts opts @ h # rest) \<and> usage) \<and>
   (case main_start N starts (prog # args) of RunsWith _ _ \<Rightarrow> True | ExitCode n _ \<Rightarrow> n \<le> 1)"
proof -
  have "case main_start N starts (prog # args) of RunsWith _ _ \<Rightarrow> True | ExitCode n _ \<Rightarrow> n \<le> 1"
    by (simp add: main_start_def split: parsed.split sum.split)
  then show ?thesis
    by (simp add: main_start_runs main_start_help parseArgs_def parse_Parsed_iff parse_HelpExit_iff)
qed

text \<open>
  C37: An endpoint is read back from the text it is written as. For an address text that the library reads as
  the address of an endpoint, the forms \<open>host:port\<close> (for a text that does not start with a bracket, even
  an IPv6 address with colons of its own) and \<open>[host]:port\<close> (for a text without a closing bracket) with the
  port in decimal are both parsed to that endpoint, and no name is resolved.
\<close>

theorem parseEndpoint_roundtrip:
  assumes "make_address N host = Some (ep_address ep)"
  shows "(host \<noteq> [] \<and> hd host \<noteq> CHR ''['' \<longrightarrow>
      parseEndpoint N (host @ CHR '':'' # to_string (unat (ep_port ep))) = Inr ep) \<and>
    (CHR '']'' \<notin> set host \<longrightarrow>
      parseEndpoint N (CHR ''['' # host @ CHR '']'' # CHR '':'' # to_string (unat (ep_port ep))) = Inr ep)"
proof -
  have "unat (ep_port ep) < 2 ^ 64" by (rule less_le_trans [OF unsigned_less]) simp
  then have "port_of_text (to_string (unat (ep_port ep))) = Inr (ep_port ep)"
    by (simp add: port_of_text_to_string)
  with assms show ?thesis
    by (simp add: parseEndpoint_def splitEndpoint_plain splitEndpoint_bracket)
qed

definition example_resolver :: "nat resolver" where
  "example_resolver = \<lparr>make_address = (\<lambda>host. if host = ''::1'' then Some 6 else None),
     resolve = (\<lambda>host port. if host = ''alpha'' then Inr [\<lparr>ep_address = 4, ep_port = 9000\<rparr>] else Inl ''not found'')\<rparr>"

theorem parseEndpoint_roundtrip_witness:
  "parseEndpoint example_resolver (''::1:'' @ to_string 9000) = Inr \<lparr>ep_address = 6, ep_port = 9000\<rparr> \<and>
   parseEndpoint example_resolver (''[::1]:'' @ to_string 9000) = Inr \<lparr>ep_address = 6, ep_port = 9000\<rparr>"
  using parseEndpoint_roundtrip [of example_resolver "''::1''" "\<lparr>ep_address = 6, ep_port = 9000\<rparr>"]
  by (simp add: example_resolver_def)

text \<open>
  Ports are taken modulo 65536. A number below \<open>2 ^ 64\<close> is accepted as a port, also with a minus sign and
  whatever follows the digits, and only its low 16 bits are kept; a larger number is refused with the exception
  for which \<open>main\<close> does not print the usage.
\<close>

theorem port_text_wraps:
  assumes "\<not> (case junk of [] \<Rightarrow> False | c # _ \<Rightarrow> isdigit c)"
  shows "if n < 2 ^ 64
    then (\<exists>p q. port_of_text (to_string n @ junk) = Inr p \<and> unat p = n mod 65536 \<and>
            port_of_text (CHR ''-'' # to_string n @ junk) = Inr q \<and> uint q = (- int n) mod 65536)
    else port_of_text (to_string n @ junk) = Inl (BadNumber NumberOutOfRange) \<and>
         \<not> is_invalid_argument (BadNumber NumberOutOfRange)"
proof (cases "n < 2 ^ 64")
  case True
  have "unat (of_nat n :: u16) = n mod 65536" by (simp add: unat_of_nat)
  moreover have "uint (- of_nat n :: u16) = (- int n) mod 65536" by transfer (simp add: take_bit_eq_mod)
  ultimately show ?thesis using True narrow_of_int [of "- int n"]
    by (simp add: port_of_text_def stoul_digits [OF assms] stoul_negative [OF assms] narrow_of_nat)
qed (simp add: port_of_text_def stoul_digits [OF assms] is_invalid_argument_def)

theorem port_text_wraps_witness:
  "(\<exists>p. port_of_text (to_string 65616 @ ''x'') = Inr p \<and> unat p = 80)"
proof -
  have "\<not> isdigit (CHR ''x'')" by (simp add: isdigit_def)
  with port_text_wraps [of "''x''" 65616] show ?thesis by auto
qed

end
