(* ===== verification/Application.thy ===== *)
theory Application
  imports Link_Extender Console UdpTunnel_Properties Approvals_Properties Command_Line_Properties
begin

text \<open>
  The program that \<open>source/main.cpp\<close> puts together: the command line gives the configuration, the
  \<open>State\<close> object constructs the controller with its tunnel and installs the callbacks, and from then on the
  IO thread, the console and the timers run. A request of the tunnel goes to the approval queue, and
  a decision goes back to the tunnel as a task of the IO thread.
\<close>

subsection \<open>State\<close>

text \<open>
  The three callbacks for display, and what they store. \<open>bpm\<close> is Link's \<open>Tempo::bpm\<close>, which the wrapper of
  the tempo callback applies.
\<close>

datatype app_callback = CountCallback | TempoCallback | PlayingCallback

fun show_action :: "(int \<Rightarrow> rat) \<Rightarrow> ('g, 'n, 'ip, app_callback) controller_action \<Rightarrow> Display \<Rightarrow> Display" where
  "show_action bpm (PeerCounts CountCallback local remote) d = d\<lparr>localPeers := local, remotePeers := remote\<rparr>"
| "show_action bpm (TempoChanged TempoCallback tempo) d = d\<lparr>display_tempo := bpm tempo\<rparr>"
| "show_action bpm (StartStopChanged PlayingCallback playing) d = d\<lparr>isPlaying := playing\<rparr>"
| "show_action bpm _ d = d"

record ('g, 'n, 'ip, 'sid) Program =
  linkExtender :: "('g, 'n, 'ip, 'sid, app_callback) LinkExtender"
  app :: "'ip UdpEndpoint App"
  posted :: "('ip UdpEndpoint \<times> bool) list"      \<comment> \<open>decisions the IO thread has not run yet\<close>
  display :: Display

abbreviation controller :: "('g, 'n, 'ip, 'sid) Program \<Rightarrow> ('g, 'n, 'ip, 'sid, app_callback) Controller" where
  "controller P \<equiv> mController (linkExtender P)"

text \<open>
  The constructor of \<open>State\<close> up to the last callback, which the rule \<open>program_installs\<close> below sets: the
  tunnel is receiving already by then.
\<close>

definition State_init ::
    "'n codec \<Rightarrow> (u16 \<Rightarrow> bool) \<Rightarrow> 'sid \<Rightarrow> SharedMemory \<Rightarrow> 'ip Config \<Rightarrow> fault + ('g, 'n, 'ip, 'sid) Program" where
  "State_init C can_bind no_session m config =
     (case snd (LinkExtender_init C can_bind no_session config m) of
        Inl f \<Rightarrow> Inl f
      | Inr (x, acts) \<Rightarrow>
          Inr \<lparr>linkExtender = LinkExtender_setStartStopCallback PlayingCallback (LinkExtender_setTempoCallback TempoCallback
                                (LinkExtender_setNumPeersCallback CountCallback x)),
               app = App_init, posted = [], display = Display_init\<rparr>)"

subsection \<open>Steps\<close>

text \<open>What the IO thread does by itself in the UDP tunnel; the program never calls \<open>addPeer\<close> or \<open>removePeer\<close>.\<close>

fun io_event :: "('g, 'n, 'ep) event \<Rightarrow> bool" where
  "io_event (AddPeer ep) \<longleftrightarrow> False"
| "io_event (RemovePeer ep) \<longleftrightarrow> False"
| "io_event (AcceptPeer ep) \<longleftrightarrow> False"
| "io_event (RejectPeer ep) \<longleftrightarrow> False"
| "io_event (SetCallback cb) \<longleftrightarrow> False"
| "io_event _ \<longleftrightarrow> True"

fun asks_of :: "('g, 'n, 'ep) action list \<Rightarrow> 'ep app_event list" where
  "asks_of [] = []"
| "asks_of (AskApplication ep # acts) = Ask ep # asks_of acts"
| "asks_of (_ # acts) = asks_of acts"

fun auto_rejects :: "('g, 'n, 'ep) action list \<Rightarrow> ('ep \<times> bool) list" where
  "auto_rejects [] = []"
| "auto_rejects (PostReject ep # acts) = (ep, False) # auto_rejects acts"
| "auto_rejects (_ # acts) = auto_rejects acts"

fun is_ask :: "'ep app_event \<Rightarrow> bool" where
  "is_ask (Ask ep) \<longleftrightarrow> True"
| "is_ask _ \<longleftrightarrow> False"

definition with_tunnel ::
    "('g, 'n, 'ip UdpEndpoint) UdpTunnel \<Rightarrow> ('g, 'n, 'ip, 'sid) Program \<Rightarrow> ('g, 'n, 'ip, 'sid) Program" where
  "with_tunnel t P = P\<lparr>linkExtender := \<lparr>mController = (controller P)\<lparr>mTunnel := Some (UdpBackend t)\<rparr>\<rparr>\<rparr>"

inductive program_step :: "'n codec \<Rightarrow> (int \<Rightarrow> rat) \<Rightarrow> ('g, 'n, 'ip, 'sid) Program \<Rightarrow> ('g, 'n, 'ip, 'sid) Program \<Rightarrow> bool" for C bpm where
  program_installs:
    "program_step C bpm P (P\<lparr>linkExtender := LinkExtender_setUnknownPeerCallback Application (linkExtender P)\<rparr>)"
| program_io:
    "mTunnel (controller P) = Some (UdpBackend t) \<Longrightarrow> udp_step C t e acts t' \<Longrightarrow> io_event e \<Longrightarrow>
     app_run (asks_of acts) (app P) = Some a' \<Longrightarrow>
     program_step C bpm P ((with_tunnel t' P)\<lparr>app := a', posted := posted P @ auto_rejects acts\<rparr>)"
| program_accepts:
    "mTunnel (controller P) = Some (UdpBackend t) \<Longrightarrow> posted P = (ep, True) # rest \<Longrightarrow>
     program_step C bpm P ((with_tunnel (fst (acceptPeer C ep t)) P)\<lparr>posted := rest\<rparr>)"
| program_rejects:
    "mTunnel (controller P) = Some (UdpBackend t) \<Longrightarrow> posted P = (ep, False) # rest \<Longrightarrow>
     program_step C bpm P ((with_tunnel (rejectPeer ep t) P)\<lparr>posted := rest\<rparr>)"
| program_app:
    "app_step e (app P) = Some (Inr a') \<Longrightarrow> \<not> is_ask e \<Longrightarrow>
     program_step C bpm P (P\<lparr>app := a', posted := posted P @ drop (length (decisions (app P))) (decisions a')\<rparr>)"
| program_local_peers:
    "localPeersChanged v (controller P) = (c', acts) \<Longrightarrow>
     program_step C bpm P (P\<lparr>linkExtender := \<lparr>mController = c'\<rparr>, display := fold (show_action bpm) acts (display P)\<rparr>)"
| program_remote_peers:
    "remotePeersChanged v (controller P) = (c', acts) \<Longrightarrow>
     program_step C bpm P (P\<lparr>linkExtender := \<lparr>mController = c'\<rparr>, display := fold (show_action bpm) acts (display P)\<rparr>)"
| program_timeline:
    "SessionTimelineCallback up sid tempo (controller P) = (c', acts) \<Longrightarrow>
     program_step C bpm P (P\<lparr>linkExtender := \<lparr>mController = c'\<rparr>, display := fold (show_action bpm) acts (display P)\<rparr>)"
| program_start_stop:
    "SessionStartStopStateCallback playing (controller P) = acts \<Longrightarrow>
     program_step C bpm P (P\<lparr>display := fold (show_action bpm) acts (display P)\<rparr>)"

subsection \<open>Who is let in\<close>

definition accepted :: "'ep App \<Rightarrow> 'ep set" where
  "accepted a = {ep. (ep, True) \<in> set (decisions a)}"

definition peers_approved :: "'ip UdpEndpoint set \<Rightarrow> ('g, 'n, 'ip, 'sid) Program \<Rightarrow> bool" where
  "peers_approved eps P \<longleftrightarrow>
     {ep. (ep, True) \<in> set (posted P)} \<subseteq> accepted (app P) \<and>
     (case mTunnel (controller P) of
        Some (UdpBackend t) \<Rightarrow> udp_ok t \<and> endpoint ` set (mPeers t) \<subseteq> eps \<union> accepted (app P)
      | _ \<Rightarrow> True)"

lemma io_step_endpoints:
  assumes "udp_step C t e acts t'" "io_event e" "udp_ok t"
  shows "endpoint ` set (mPeers t') = endpoint ` set (mPeers t)"
  using assms
proof (induction rule: udp_step.induct)
  case (step_forward mt n msg to now t t' acts)
  then obtain c where "t' = t\<lparr>mDedupCache := c\<rparr>" using forward_frame by metis
  then show ?case by simp
next
  case (step_datagram ep d now t t' acts)
  then obtain acts' where "handleReceive C ep (receive_buffer C d) now t = Inr (t', acts')" by (metis on_datagram_elim)
  from receive_endpoints [OF this] show ?case by (intro endpoints_of_cong) simp
next
  case (step_maintenance now t t' acts)
  then show ?case by (auto simp: runMaintenance_eq image_image split: if_splits)
qed (auto simp: stop_listening_def addGateway_def removeGateway_def)

lemma app_step_decisions: "app_step e a = Some (Inr a') \<Longrightarrow> prefix (decisions a) (decisions a')"
  by (erule app_step_elim) auto

lemma app_run_decisions: "app_run es a = Some a' \<Longrightarrow> prefix (decisions a) (decisions a')"
proof (induction es arbitrary: a)
  case (Cons e es)
  then obtain a1 where "app_step e a = Some (Inr a1)" "app_run es a1 = Some a'"
    by (auto split: option.splits sum.splits)
  with Cons.IH app_step_decisions show ?case by (blast intro: prefix_order.order_trans)
qed simp

lemma accepted_mono: "prefix (decisions a) (decisions a') \<Longrightarrow> accepted a \<subseteq> accepted a'"
  by (auto simp: accepted_def prefix_def)

lemma auto_rejects_False: "(ep, True) \<notin> set (auto_rejects acts)"
  by (induction acts rule: auto_rejects.induct) auto

lemma peers_approved_install:
  "peers_approved eps P \<Longrightarrow> peers_approved eps (P\<lparr>linkExtender := LinkExtender_setUnknownPeerCallback cb (linkExtender P)\<rparr>)"
  using setUnknownPeerCallback_ok
  by (auto simp: peers_approved_def LinkExtender_setUnknownPeerCallback_def Controller_setUnknownPeerCallback_def setUnknownPeerCallback_def
      split: option.splits AnyTunnel.splits)

lemma peers_approved_tunnel:
  assumes "peers_approved eps P" "mTunnel (controller P) = Some (UdpBackend t)" "udp_ok t'"
    and "endpoint ` set (mPeers t') \<subseteq> endpoint ` set (mPeers t) \<union> accepted (app P)"
    and "prefix (decisions (app P)) (decisions a')" "{ep. (ep, True) \<in> set ds} \<subseteq> accepted a'"
  shows "peers_approved eps ((with_tunnel t' P)\<lparr>app := a', posted := ds\<rparr>)"
proof -
  have "endpoint ` set (mPeers t) \<subseteq> eps \<union> accepted (app P)"
    using assms(1,2) by (auto simp: peers_approved_def)
  then have "endpoint ` set (mPeers t') \<subseteq> eps \<union> accepted a'"
    using assms(4) accepted_mono [OF assms(5)] by blast
  then show ?thesis using assms(3,6) by (simp add: peers_approved_def with_tunnel_def)
qed

lemma peers_approved_controller:
  "peers_approved eps P \<Longrightarrow> mTunnel c = mTunnel (controller P) \<Longrightarrow> peers_approved eps (P\<lparr>linkExtender := \<lparr>mController = c\<rparr>, display := d\<rparr>)"
  by (auto simp: peers_approved_def split: option.splits AnyTunnel.splits)

lemma acceptPeer_endpoints: "endpoint ` set (mPeers (fst (acceptPeer C ep t))) \<subseteq> insert ep (endpoint ` set (mPeers t))"
  by (auto simp: acceptPeer_def push_peer_def Let_def)

lemma program_step_approved:
  assumes "program_step C bpm P P'" "peers_approved eps P"
  shows "peers_approved eps P'"
  using assms
proof (induction rule: program_step.induct)
  case (program_installs P)
  then show ?case by (rule peers_approved_install)
next
  case (program_io P t e acts t' a')
  have ok: "udp_ok t" "{ep. (ep, True) \<in> set (posted P)} \<subseteq> accepted (app P)"
    using program_io.prems program_io.hyps(1) by (auto simp: peers_approved_def)
  have pre: "prefix (decisions (app P)) (decisions a')" by (rule app_run_decisions [OF program_io.hyps(4)])
  have "{ep. (ep, True) \<in> set (posted P @ auto_rejects acts)} \<subseteq> accepted a'"
    using ok(2) accepted_mono [OF pre] by (auto simp: auto_rejects_False)
  then show ?case
    using peers_approved_tunnel [OF program_io.prems program_io.hyps(1) udp_step_ok [OF program_io.hyps(2) ok(1)] _ pre]
      io_step_endpoints [OF program_io.hyps(2,3) ok(1)] by auto
next
  case (program_accepts P t ep rest)
  then have ok: "udp_ok t" "ep \<in> accepted (app P)" "{ep. (ep, True) \<in> set rest} \<subseteq> accepted (app P)"
    by (auto simp: peers_approved_def)
  have "peers_approved eps ((with_tunnel (fst (acceptPeer C ep t)) P)\<lparr>app := app P, posted := rest\<rparr>)"
    using acceptPeer_endpoints [of C ep t] ok acceptPeer_ok
    by (intro peers_approved_tunnel [OF program_accepts.prems program_accepts.hyps(1)]) auto
  then show ?case by (simp add: with_tunnel_def)
next
  case (program_rejects P t ep rest)
  then have ok: "udp_ok t" "{ep. (ep, True) \<in> set rest} \<subseteq> accepted (app P)"
    by (auto simp: peers_approved_def)
  have "peers_approved eps ((with_tunnel (rejectPeer ep t) P)\<lparr>app := app P, posted := rest\<rparr>)"
    using ok rejectPeer_ok
    by (intro peers_approved_tunnel [OF program_rejects.prems program_rejects.hyps(1)]) (auto simp: rejectPeer_def)
  then show ?case by (simp add: with_tunnel_def)
next
  case (program_app e P a')
  note pre = app_step_decisions [OF program_app.hyps(1)]
  then obtain ds where ds: "decisions a' = decisions (app P) @ ds" by (auto simp: prefix_def)
  then have "{ep. (ep, True) \<in> set (posted P @ ds)} \<subseteq> accepted a'"
    using program_app.prems by (auto simp: peers_approved_def accepted_def)
  with program_app.prems accepted_mono [OF pre] ds show ?case
    by (auto simp: peers_approved_def split: option.splits AnyTunnel.splits)
next
  case (program_local_peers v P c' acts)
  then show ?case by (intro peers_approved_controller) (auto simp: localPeersChanged_def SessionPeerCounter_def)
next
  case (program_remote_peers v P c' acts)
  then show ?case by (intro peers_approved_controller) (auto simp: remotePeersChanged_def SessionPeerCounter_def)
next
  case (program_timeline up sid tempo P c' acts)
  then show ?case by (intro peers_approved_controller) (auto simp: SessionTimelineCallback_def split: if_splits)
next
  case (program_start_stop playing P acts)
  then show ?case by (auto simp: peers_approved_def split: option.splits AnyTunnel.splits)
qed

lemmas LinkExtender_callbacks = LinkExtender_setStartStopCallback_def LinkExtender_setTempoCallback_def
  LinkExtender_setNumPeersCallback_def setStartStopCallback_def setTempoCallback_def setNumPeersCallback_def

lemma Controller_init_tunnel:
  assumes "snd (Controller_init C can_bind sid config m) = Inr (c, acts)"
  shows "if use_shm config then \<exists>t. mTunnel c = Some (ShmBackend t)
    else mTunnel c = Some (UdpBackend (fst (UdpTunnel_init (peers config))))"
  using assms by (auto simp: Controller_init_def createTunnel_def split_beta split: if_splits sum.splits prod.splits)

lemma State_init_cases:
  fixes P :: "('g, 'n, 'ip, 'sid) Program"
  assumes "State_init C can_bind sid m config = Inr P"
  obtains c :: "('g, 'n, 'ip, 'sid, app_callback) Controller" and acts where "snd (Controller_init C can_bind sid config m) = Inr (c, acts)" "mTunnel (controller P) = mTunnel c"
    "app P = App_init" "posted P = []" "display P = Display_init"
proof -
  obtain x acts where x: "snd (LinkExtender_init C can_bind sid config m) = Inr (x, acts)"
    and P: "P = \<lparr>linkExtender = LinkExtender_setStartStopCallback PlayingCallback (LinkExtender_setTempoCallback TempoCallback
        (LinkExtender_setNumPeersCallback CountCallback x)), app = App_init, posted = [], display = Display_init\<rparr>"
    using assms unfolding State_init_def by (auto split: sum.splits)
  from x obtain c where c: "snd (Controller_init C can_bind sid config m) = Inr (c, acts)" "x = \<lparr>mController = c\<rparr>"
    by (auto simp: LinkExtender_init_def split: prod.splits sum.splits)
  show thesis by (rule that [OF c(1)]) (simp_all add: P c(2) LinkExtender_callbacks)
qed

lemma UdpTunnel_init_endpoints: "endpoint ` set (mPeers (fst (UdpTunnel_init eps :: ('g, 'n, 'ep) result))) = set eps"
proof -
  have "endpoint ` set (mPeers (fold push_peer eps t)) = endpoint ` set (mPeers t) \<union> set eps"
    for t :: "('g, 'n, 'ep) UdpTunnel"
    by (induction eps arbitrary: t) (auto simp: push_peer_def)
  then show ?thesis by (simp add: UdpTunnel_init_def)
qed

definition program_start ::
    "'n codec \<Rightarrow> (u16 \<Rightarrow> bool) \<Rightarrow> 'sid \<Rightarrow> SharedMemory \<Rightarrow> 'ip Config \<Rightarrow> ('g, 'n, 'ip, 'sid) Program \<Rightarrow> bool" where
  "program_start C can_bind no_session m config P \<longleftrightarrow> State_init C can_bind no_session m config = Inr P"

lemma peers_approved_init:
  fixes P :: "('g, 'n, 'ip, 'sid) Program"
  assumes "program_start C can_bind sid m config P"
  shows "peers_approved (set (peers config)) P"
proof -
  obtain c :: "('g, 'n, 'ip, 'sid, app_callback) Controller" and acts where
    c: "snd (Controller_init C can_bind sid config m) = Inr (c, acts)" "mTunnel (controller P) = mTunnel c" "posted P = []"
    using assms unfolding program_start_def by (rule State_init_cases)
  from Controller_init_tunnel [OF c(1)] c(2,3) show ?thesis
    by (auto simp: peers_approved_def udp_ok_UdpTunnel_init UdpTunnel_init_endpoints split: if_splits)
qed

interpretation program: invariant_system "program_start C can_bind sid m config" "program_step C bpm"
  "peers_approved (set (peers config))"
  by unfold_locales (auto intro: peers_approved_init program_step_approved)

subsection \<open>Properties\<close>

text \<open>
  C1: Nobody is heard who was not let in. Whatever the network sends and however the threads interleave, from
  the command line on: a datagram makes the tunnel call a gateway only when it comes from an endpoint that
  was given with \<open>--peer\<close> or that was accepted at the console.
\<close>

theorem only_approved_peers_heard:
  assumes "main_start N (State_init C can_bind no_session m) argv = RunsWith config P0"
    and "(program_step C bpm)\<^sup>*\<^sup>* P0 P" "mTunnel (controller P) = Some (UdpBackend t)"
    and "on_datagram C ep d now t = Inr (t', acts)" "CallGateway call \<in> set acts"
  shows "ep \<in> set (peers config) \<or> (ep, True) \<in> set (decisions (app P))"
proof -
  have "program_start C can_bind no_session m config P0"
    using assms(1) by (simp add: main_start_runs program_start_def)
  from program.inv_reachable [OF this assms(2)] assms(3)
  have ok: "udp_ok t" "endpoint ` set (mPeers t) \<subseteq> set (peers config) \<union> accepted (app P)"
    by (auto simp: peers_approved_def)
  from assms(4) obtain acts' where h: "handleReceive C ep (receive_buffer C d) now t = Inr (t', acts')"
    and acts: "acts = acts' @ (if is_running t' then [ReceiveAgain] else [])" by (rule on_datagram_elim)
  from assms(5) have "CallGateway call \<in> set acts'" by (auto simp: acts split: if_splits)
  from handleReceive_gateway_call [OF h this] obtain i where "mEndpointToPeerIdx t ep = Some i" "i < length (mPeers t)" by blast
  with index_okD [OF udp_okD(1) [OF ok(1)]] have "ep \<in> endpoint ` set (mPeers t)" by (metis image_eqI nth_mem)
  with ok(2) show ?thesis by (auto simp: accepted_def)
qed

text \<open>A program that was started with one peer, which has said HELLO, and has one gateway.\<close>

abbreviation example_peer :: "nat UdpEndpoint" where
  "example_peer \<equiv> \<lparr>ep_address = 4, ep_port = 9000\<rparr>"

definition example_peer_tunnel :: "nat list \<Rightarrow> PeerConnectionState \<Rightarrow> (nat, u64, nat UdpEndpoint) UdpTunnel" where
  "example_peer_tunnel gs s = \<lparr>gateways = gs, mDedupCache = initial_cache, is_running = True,
     mPeers = [\<lparr>endpoint = example_peer, state = s, last_seen = 0\<rparr>], remoteNodeIdToPeerIdx = Map.empty,
     mEndpointToPeerIdx = [example_peer \<mapsto> 0], mPendingPeers = {}, mRejectedPeers = {}, mUnknownPeerCallback = AutoReject\<rparr>"

definition example_config :: "nat Config" where
  "example_config = default_config\<lparr>peers := [example_peer]\<rparr>"

definition example_program :: "(nat, u64, nat UdpEndpoint) UdpTunnel \<Rightarrow> (nat, u64, nat, nat) Program" where
  "example_program t = \<lparr>linkExtender = \<lparr>mController = \<lparr>mConfig = example_config, mTunnel = Some (UdpBackend t), discovery_enabled = True,
       mSessionPeerCount = 0, mRemoteSessionPeerCount = 0, mLocalSessionId = 0, mRemoteSessionId = 0,
       mPeerCountCallback = Some CountCallback, mTempoCallback = Some TempoCallback, mStartStopCallback = Some PlayingCallback\<rparr>\<rparr>,
     app = App_init, posted = [], display = Display_init\<rparr>"

abbreviation example_argv :: "string list" where
  "example_argv \<equiv> [''ale'', ''--peer'', ''alpha:9000'']"

lemma example_parsed: "parseArgs example_resolver example_argv = Parsed example_config"
proof -
  have "splitEndpoint ''alpha:9000'' = Inr (''alpha'', ''9000'')"
    using splitEndpoint_plain [of "''alpha''" "''9000''"] by simp
  then have "parseEndpoint example_resolver ''alpha:9000'' = Inr example_peer"
    by (simp add: parseEndpoint_def example_resolver_def)
  then have "list_all (valid_opt example_resolver) [PeerOpt ''alpha:9000'' example_peer]" by simp
  from parse_valid_prefix [OF this, of "[]" default_config] show ?thesis
    by (simp add: parseArgs_def example_config_def default_config_def)
qed

lemma example_started:
  "main_start example_resolver (State_init network_codec (\<lambda>_. True) 0 (new_memory network_codec)) example_argv =
     RunsWith example_config (example_program (example_peer_tunnel [] DISCONNECTED))"
  unfolding main_start_runs
  by (simp add: example_parsed State_init_def LinkExtender_init_def Controller_init_def createTunnel_def UdpTunnel_init_def
      push_peer_def example_config_def default_config_def example_program_def example_peer_tunnel_def LinkExtender_callbacks)

lemma example_program_running:
  "(program_step network_codec bpm)\<^sup>*\<^sup>* (example_program (example_peer_tunnel [] DISCONNECTED))
     (example_program (example_peer_tunnel [3] CONNECTED))"
proof -
  have tunnel: "(with_tunnel t' (example_program t))\<lparr>app := App_init, posted := posted (example_program t) @ []\<rparr> = example_program t'"
    for t t' by (simp add: with_tunnel_def example_program_def)
  have step: "program_step network_codec bpm (example_program t) (example_program t')"
    if "udp_step network_codec t e acts t'" "io_event e" "asks_of acts = []" "auto_rejects acts = []" for t e acts t'
    using program_io [of "example_program t" t network_codec e acts t' App_init] that tunnel [of t t']
    by (simp add: example_program_def)
  have "udp_step network_codec (example_peer_tunnel [] DISCONNECTED) (AddGateway 3) []
      (example_peer_tunnel [3] DISCONNECTED)"
    using step_add_gateway [of network_codec "example_peer_tunnel [] DISCONNECTED" 3]
    by (simp add: addGateway_def example_peer_tunnel_def)
  then have 1: "program_step network_codec bpm (example_program (example_peer_tunnel [] DISCONNECTED))
      (example_program (example_peer_tunnel [3] DISCONNECTED))" by (rule step) simp_all
  have "on_datagram network_codec example_peer (datagram_of network_codec (control network_codec TUNNEL_HELLO) []) 0
      (example_peer_tunnel [3] DISCONNECTED) =
      Inr (example_peer_tunnel [3] CONNECTED,
           [SendTo (datagram_of network_codec (control network_codec TUNNEL_HELLO) []) example_peer, ReceiveAgain])"
    by (simp add: net.on_datagram_hello handleHello_def peer_at_def example_peer_tunnel_def net.sendHello_eq)
  from step_datagram [OF this] have "program_step network_codec bpm (example_program (example_peer_tunnel [3] DISCONNECTED))
      (example_program (example_peer_tunnel [3] CONNECTED))" by (rule step) simp_all
  with 1 show ?thesis by (meson converse_rtranclp_into_rtranclp r_into_rtranclp)
qed

theorem only_approved_peers_heard_witness:
  "\<exists>t' acts. on_datagram network_codec example_peer (datagram_of network_codec (outbound BROADCAST 88 None) [1]) 0
       (example_peer_tunnel [3] CONNECTED) = Inr (t', acts) \<and>
     CallGateway (ForwardMessageLocally 3 BROADCAST 88 [1] None) \<in> set acts \<and>
     (example_peer \<in> set (peers example_config) \<or> (example_peer, True) \<in> set (decisions (App_init :: nat UdpEndpoint App)))"
proof -
  let ?t = "example_peer_tunnel [3] CONNECTED"
  have d: "on_datagram network_codec example_peer (datagram_of network_codec (outbound BROADCAST 88 None) [1]) 0 ?t =
      Inr (?t\<lparr>remoteNodeIdToPeerIdx := emplace 88 0 (remoteNodeIdToPeerIdx ?t)\<rparr>,
           map CallGateway (forward_locally BROADCAST 88 [1] None ?t) @ (if is_running ?t then [ReceiveAgain] else []))"
    by (rule net.on_datagram_link)
       (simp_all add: example_peer_tunnel_def header_size_def carries_to_node_def network_codec_sizes)
  have c: "CallGateway (ForwardMessageLocally 3 BROADCAST 88 [1] None) \<in>
      set (map CallGateway (forward_locally BROADCAST 88 [1] None ?t) @ (if is_running ?t then [ReceiveAgain] else []))"
    by (simp add: forward_locally_def example_peer_tunnel_def)
  from only_approved_peers_heard [OF example_started example_program_running _ d c] d c
  show ?thesis by (simp add: example_program_def)
qed

end
