(* ===== verification/Console_Properties.thy ===== *)
theory Console_Properties
  imports Console
begin

text \<open>
  The console shows the current state and nothing of the states before it, and its thread ends exactly when
  the key for it is pressed.
\<close>

subsection \<open>Widths\<close>

lemma length_to_string: "n < 10 ^ Suc k \<Longrightarrow> length (to_string n) \<le> Suc k"
proof (induction k arbitrary: n)
  case 0
  then show ?case by (subst to_string.simps) simp
next
  case (Suc k)
  then have "n div 10 < 10 ^ Suc k" by (simp add: less_mult_imp_div_less)
  from Suc.IH [OF this] show ?case by (subst to_string.simps) simp
qed

lemma length_setw_left: "length s \<le> w \<Longrightarrow> length (setw_left w s) = w"
  by (simp add: setw_left_def)

lemma hundredths_nonneg: "0 \<le> x \<Longrightarrow> 0 \<le> hundredths x"
  by (simp add: hundredths_def Let_def)

lemma hundredths_error: "\<bar>of_int (hundredths x) / 100 - x\<bar> \<le> 1 / 200"
proof -
  define y where "y = 100 * x"
  have f: "of_int \<lfloor>y\<rfloor> \<le> y" "y < of_int \<lfloor>y\<rfloor> + 1" by linarith+
  have "\<bar>of_int (hundredths x) - y\<bar> \<le> 1 / 2"
    using f by (auto simp: hundredths_def Let_def y_def [symmetric] abs_le_iff)
  then show ?thesis by (simp add: y_def abs_le_iff field_simps)
qed

lemma hundredths_bound: "x < of_nat b \<Longrightarrow> hundredths x \<le> 100 * int b"
proof -
  assume "x < of_nat b"
  then have "\<lfloor>100 * x\<rfloor> < 100 * int b" by (simp add: floor_less_iff)
  then show ?thesis by (simp add: hundredths_def Let_def)
qed

text \<open>What fits its column: less than \<open>10 ^ 11\<close> and \<open>10 ^ 12\<close> peers, and a tempo below 10000 beats per minute.\<close>

definition fits_columns :: "Display \<Rightarrow> bool" where
  "fits_columns d \<longleftrightarrow> localPeers d < 10 ^ 11 \<and> remotePeers d < 10 ^ 12 \<and> 0 \<le> display_tempo d \<and> display_tempo d < 9999"

lemma length_fixed2: "0 \<le> x \<Longrightarrow> x < 9999 \<Longrightarrow> length (fixed2 x) \<le> 7"
proof -
  assume x: "0 \<le> x" "x < 9999"
  have "hundredths x \<le> 100 * 9999" using hundredths_bound [of x 9999] x by simp
  then have "nat (hundredths x) div 100 < 10 ^ Suc 3" using hundredths_nonneg [OF x(1)] by simp
  from length_to_string [OF this] show ?thesis using x by (simp add: fixed2_def two_digits_def Let_def)
qed

lemma length_state_line: "fits_columns d \<Longrightarrow> length (state_line d) = 48"
  using length_to_string [of "localPeers d" 10] length_to_string [of "remotePeers d" 11] length_fixed2 [of "display_tempo d"]
  by (simp add: fits_columns_def state_line_def length_setw_left)

subsection \<open>One row of the terminal\<close>

text \<open>The row and the cursor: a carriage return moves the cursor to the left edge, any other byte is written over.\<close>

fun put_char :: "char \<Rightarrow> string \<times> nat \<Rightarrow> string \<times> nat" where
  "put_char c (row, col) = (if c = CHR 0x0D then (row, 0) else (take col row @ c # drop (Suc col) row, Suc col))"

lemma put_string:
  "CHR 0x0D \<notin> set s \<Longrightarrow> col \<le> length row \<Longrightarrow>
     fold put_char s (row, col) = (take col row @ s @ drop (col + length s) row, col + length s)"
proof (induction s arbitrary: row col)
  case (Cons c s)
  let ?row = "take col row @ c # drop (Suc col) row"
  have "take (Suc col) ?row = take col row @ [c]" "drop (Suc col + n) ?row = drop (Suc col + n) row" for n
    using Cons.prems(2) by (simp_all add: min_def add.commute)
  with Cons.IH [of "Suc col" ?row] Cons.prems show ?case by auto
qed simp

lemma isdigit_char: "k < 10 \<Longrightarrow> isdigit (char_of (48 + k :: nat))"
  by (simp add: isdigit_def)

lemma digits_no_return: "list_all isdigit s \<Longrightarrow> CHR 0x0D \<notin> set s"
  by (auto simp: list_all_iff isdigit_def)

lemma no_return: "CHR 0x0D \<notin> set (to_string n)" "k < 100 \<Longrightarrow> CHR 0x0D \<notin> set (two_digits k)"
  by (rule digits_no_return, simp add: list_all_iff to_string_digits two_digits_def isdigit_char)+

lemma state_line_no_return: "CHR 0x0D \<notin> set (state_line d)"
  using no_return by (auto simp: state_line_def setw_left_def fixed2_def Let_def)

lemma put_state:
  assumes "length row \<le> 51" "fits_columns d"
  shows "fold put_char (printState d) (row, 0) = (state_line d @ ''   '', 0)"
proof -
  have "CHR 0x0D \<notin> set (state_line d @ ''   '')" using state_line_no_return by simp
  from put_string [OF this, of 0 row] show ?thesis
    using assms by (simp add: printState_def clearLine_def length_state_line)
qed

subsection \<open>The loop over the keys\<close>

text \<open>The answers that a sequence of keys stands for, up to the key that ends it.\<close>

definition answers_of :: "string \<Rightarrow> bool list" where
  "answers_of keys =
     map (\<lambda>c. c = CHR ''a'') (filter (\<lambda>c. c = CHR ''a'' \<or> c = CHR ''d'') (takeWhile (\<lambda>c. c \<noteq> CHR ''q'') keys))"

lemma input_loop_returns:
  "CHR ''q'' \<in> set keys \<Longrightarrow>
     input_loop keys sp = Some (zip (map request_ep (approvals sp)) (answers_of keys),
                                sp\<lparr>approvals := drop (length (answers_of keys)) (approvals sp)\<rparr>)"
proof (induction keys arbitrary: sp)
  case (Cons c keys)
  show ?case
  proof (cases "c = CHR ''q''")
    case True
    then show ?thesis by (subst input_loop.simps) (simp add: cin_get_def answers_of_def)
  next
    case False
    with Cons.prems have "CHR ''q'' \<in> set keys" by simp
    note IH = Cons.IH [OF this]
    from False show ?thesis
      by (subst input_loop.simps) (auto simp: cin_get_def answers_of_def IH console_takes_def split: list.split)
  qed
qed simp

lemma input_loop_needs_q:
  assumes "input_loop keys sp = Some r"
  shows "CHR ''q'' \<in> set keys"
proof (rule input_loop.raw_induct [OF _ assms, of "\<lambda>keys sp r. CHR ''q'' \<in> set keys"])
  fix loop :: "string \<Rightarrow> 'a SharedPending \<Rightarrow> (('a \<times> bool) list \<times> 'a SharedPending) option" and keys sp r
  assume IH: "\<And>keys sp r. loop keys sp = Some r \<Longrightarrow> CHR ''q'' \<in> set keys"
    and body: "(let (key, rest) = cin_get keys
      in if key = CHR ''q'' then Some ([], sp)
         else if key = CHR ''a'' \<or> key = CHR ''d'' then
           (case console_takes sp of
              (sp1, None) \<Rightarrow> loop rest sp1
            | (sp1, Some (e, hasNext)) \<Rightarrow>
                Option.bind (loop rest sp1)
                  (\<lambda>(answers, sp2). Some ((request_ep e, key = CHR ''a'') # answers, sp2)))
         else loop rest sp) = Some r"
  have rest: "set (snd (cin_get keys)) \<subseteq> set keys" by (auto simp: cin_get_def split: list.splits)
  show "CHR ''q'' \<in> set keys"
  proof (cases "fst (cin_get keys) = CHR ''q''")
    case True
    then show ?thesis by (auto simp: cin_get_def split: list.splits)
  next
    case False
    with body have "\<exists>sp' r'. loop (snd (cin_get keys)) sp' = Some r'"
      by (cases r) (auto simp: split_beta split: if_splits option.splits prod.splits bind_splits)
    with IH rest show ?thesis by blast
  qed
qed

subsection \<open>Properties\<close>

text \<open>
  C24: The input thread ends exactly when \<open>q\<close> is pressed. For any keys and any queue of requests: if a \<open>q\<close> is among
  the keys the loop returns, having answered the first waiting requests in order with the keys \<open>a\<close> and \<open>d\<close>
  before it and ignored all others; without one it never returns, not even at the end of the input.
\<close>

theorem input_ends_with_q:
  "input_loop keys sp =
     (if CHR ''q'' \<in> set keys
      then Some (zip (map request_ep (approvals sp)) (answers_of keys),
                 sp\<lparr>approvals := drop (length (answers_of keys)) (approvals sp)\<rparr>)
      else None)"
proof (cases "CHR ''q'' \<in> set keys")
  case False
  then show ?thesis using input_loop_needs_q [of keys sp] by (cases "input_loop keys sp") auto
qed (simp add: input_loop_returns)

text \<open>
  C25: The display shows the current state. However many states have been drawn over one another on a row of
  the terminal, as long as peers and tempo fit their columns, the row shows the line of the last one and
  nothing else, and the cursor is back at its start.
\<close>

theorem row_shows_current_state:
  assumes "list_all fits_columns ds" "ds \<noteq> []"
  shows "fold put_char (concat (map printState ds)) ([], 0) = (state_line (last ds) @ ''   '', 0)"
  using assms
proof (induction ds rule: rev_induct)
  case (snoc d ds)
  show ?case
  proof (cases "ds = []")
    case True
    then show ?thesis using snoc.prems put_state [of "[]" d] by simp
  next
    case False
    with snoc have "fold put_char (concat (map printState ds)) ([], 0) = (state_line (last ds) @ ''   '', 0)"
      and fit: "fits_columns (last ds)" "fits_columns d" by (auto simp: list_all_iff)
    then show ?thesis using put_state [OF _ fit(2), of "state_line (last ds) @ ''   ''"]
      by (simp add: length_state_line)
  qed
qed simp

theorem row_shows_current_state_witness:
  "fold put_char (printState \<lparr>localPeers = 12, remotePeers = 3, display_tempo = 120, isPlaying = True\<rparr> @
      printState \<lparr>localPeers = 2, remotePeers = 0, display_tempo = 60, isPlaying = False\<rparr>) ([], 0) =
     (''2           | 0            | 60.00   | [stopped]   '', 0)"
proof -
  let ?ds = "[\<lparr>localPeers = 12, remotePeers = 3, display_tempo = 120, isPlaying = True\<rparr>,
    \<lparr>localPeers = 2, remotePeers = 0, display_tempo = 60, isPlaying = False\<rparr>]"
  have "list_all fits_columns ?ds" by (simp add: fits_columns_def)
  from row_shows_current_state [OF this]
  have "fold put_char (concat (map printState ?ds)) ([], 0) = (state_line (last ?ds) @ ''   '', 0)" by simp
  moreover have "state_line (last ?ds) = ''2           | 0            | 60.00   | [stopped]''" by code_simp
  ultimately show ?thesis by simp
qed

end
