(* ===== verification/Process.thy ===== *)
theory Process
  imports Application Console_Properties
begin

text \<open>
  The process: \<open>main\<close> of \<open>source/main.cpp\<close> from the moment the \<open>State\<close> object exists, beside the threads of
  \<open>Application\<close>. It starts the input thread, puts the terminal into raw mode, draws until the input
  thread clears \<open>running\<close>, puts the terminal back, joins the thread, destroys \<open>State\<close> and returns 0. The destruction
  goes by the points where the main thread leaves the processor to the others: the body of \<open>~State\<close>; \<open>stop_listening\<close>
  of the tunnel with the task it posts; the wait for that task; the reset of the tunnel; the join of the
  IO thread. A fault in any thread ends the process.

  \<open>state.running\<close> is cleared by the key \<open>q\<close> and by nothing else, just before the input thread returns;
  here both are the console thread at \<open>ConsoleDone\<close>. The mutex of the queue is only held inside single steps of
  the model, so waiting for it is not being scheduled. Of the tasks in the queue of the IO thread the decisions
  and the discovery task are kept, in the order of posting; its other work is the steps of the program, which may
  come in between at any time. A handler that is in the middle of its run when the tunnel is reset is not modelled.
\<close>

subsection \<open>The main thread\<close>

datatype main_point =
    Started | Drawing
  | Joining              \<comment> \<open>joins the input thread\<close>
  | Leaving | Destroying
  | Waiting              \<comment> \<open>for the task that disables the discovery\<close>
  | Freed                \<comment> \<open>the tunnel is gone, the IO thread still runs\<close>
  | Sleeping | Exited nat
  | Crashed fault

text \<open>
  The task that disables the discovery waits behind \<open>k\<close> decisions in the queue of the IO thread (\<open>disabling = Some k\<close>),
  or is not in the queue. \<open>farewell\<close> is what the destructor of the controller did.
\<close>

record ('g, 'n, 'ip, 'sid) Process =
  program :: "('g, 'n, 'ip, 'sid) Program"
  point :: main_point
  terminal :: "termios option"
  screen :: "string \<times> nat"
  disabling :: "nat option"
  farewell :: "('g, 'n, 'ip, app_callback) controller_action list"

definition process_start :: "('g, 'n, 'ip, 'sid) Program \<Rightarrow> termios option \<Rightarrow> ('g, 'n, 'ip, 'sid) Process" where
  "process_start P tio = \<lparr>program = P, point = Started, terminal = tio, screen = ([], 0), disabling = None, farewell = []\<rparr>"

definition running :: "('g, 'n, 'ip, 'sid) Program \<Rightarrow> bool" where
  "running P \<longleftrightarrow> console (app P) \<noteq> ConsoleDone"

text \<open>\<open>~State\<close>: its body posts the rejection of what waits, then its members are destroyed, with the controller.\<close>

definition destroy_State :: "('g, 'n, 'ip, 'sid) Program \<Rightarrow> ('g, 'n, 'ip, 'sid) Program option" where
  "destroy_State P =
     (case app_step DestroyState (app P) of
        Some (Inr a') \<Rightarrow> Some (P\<lparr>app := a', posted := posted P @ drop (length (decisions (app P))) (decisions a')\<rparr>)
      | _ \<Rightarrow> None)"

inductive main_step :: "'n codec \<Rightarrow> ('g, 'n, 'ip, 'sid) Process \<Rightarrow> ('g, 'n, 'ip, 'sid) Process \<Rightarrow> bool" for C where
  main_prepares:
    "point Q = Started \<Longrightarrow> main_step C Q (Q\<lparr>point := Drawing, terminal := disableBufferedInput (terminal Q)\<rparr>)"
| main_draws:
    "point Q = Drawing \<Longrightarrow> running (program Q) \<Longrightarrow>
     main_step C Q (Q\<lparr>screen := fold put_char (printState (display (program Q))) (screen Q)\<rparr>)"
| main_stops:
    "point Q = Drawing \<Longrightarrow> \<not> running (program Q) \<Longrightarrow>
     main_step C Q (Q\<lparr>point := Joining, terminal := enableBufferedInput (terminal Q)\<rparr>)"
| main_joins: "point Q = Joining \<Longrightarrow> \<not> running (program Q) \<Longrightarrow> main_step C Q (Q\<lparr>point := Leaving\<rparr>)"
| main_drains:
    "point Q = Leaving \<Longrightarrow> destroy_State (program Q) = Some P' \<Longrightarrow>
     main_step C Q (Q\<lparr>point := Destroying, program := P'\<rparr>)"
| main_stops_tunnel:
    "point Q = Destroying \<Longrightarrow> tunnel_stop_listening C (controller (program Q)) m = Inr (c', m', acts) \<Longrightarrow>
     main_step C Q (Q\<lparr>point := Waiting, program := (program Q)\<lparr>linkExtender := \<lparr>mController = c'\<rparr>\<rparr>,
                      disabling := Some (length (posted (program Q))), farewell := acts\<rparr>)"
| main_resets_tunnel:
    "point Q = Waiting \<Longrightarrow> disabling Q = None \<Longrightarrow> app_step DestroyMembers (app (program Q)) = Some (Inr a') \<Longrightarrow>
     tunnel_reset (controller (program Q)) m = (c', m') \<Longrightarrow>
     main_step C Q (Q\<lparr>point := Freed, program := (program Q)\<lparr>app := a', linkExtender := \<lparr>mController = c'\<rparr>\<rparr>\<rparr>)"
| main_joins_io: "point Q = Freed \<Longrightarrow> main_step C Q (Q\<lparr>point := Sleeping, farewell := farewell Q @ [StopIo]\<rparr>)"
| main_exits: "point Q = Sleeping \<Longrightarrow> main_step C Q (Q\<lparr>point := Exited 0\<rparr>)"

subsection \<open>The queue of the IO thread\<close>

text \<open>The first posted decision is run, in the order of posting; the task that disables the discovery when it is first.\<close>

definition decision_task :: "'n codec \<Rightarrow> ('g, 'n, 'ip, 'sid) Program \<Rightarrow> ('g, 'n, 'ip, 'sid) Program \<Rightarrow> bool" where
  "decision_task C P P' \<longleftrightarrow>
     (\<exists>t ep accept rest. mTunnel (controller P) = Some (UdpBackend t) \<and> posted P = (ep, accept) # rest \<and>
        P' = (with_tunnel (if accept then fst (acceptPeer C ep t) else rejectPeer ep t) P)\<lparr>posted := rest\<rparr>)"

inductive io_task :: "'n codec \<Rightarrow> ('g, 'n, 'ip, 'sid) Process \<Rightarrow> ('g, 'n, 'ip, 'sid) Process \<Rightarrow> bool" for C where
  io_decides:
    "decision_task C (program Q) P' \<Longrightarrow> disabling Q \<noteq> Some 0 \<Longrightarrow>
     io_task C Q (Q\<lparr>program := P', disabling := map_option (\<lambda>k. k - 1) (disabling Q)\<rparr>)"
| io_disables:
    "disabling Q = Some 0 \<Longrightarrow> disable_discovery (controller (program Q)) = (c', acts) \<Longrightarrow>
     io_task C Q (Q\<lparr>program := (program Q)\<lparr>linkExtender := \<lparr>mController = c'\<rparr>\<rparr>, disabling := None,
                    farewell := farewell Q @ acts\<rparr>)"

subsection \<open>The other threads\<close>

text \<open>
  They never destroy the \<open>State\<close> object. Once the IO thread was joined only the detached timer threads are left,
  which do not reach the controller, and when \<open>main\<close> has returned nothing is. A fault ends the process: a call of
  a closure of the destroyed tunnel, by a timer or by a decision the IO thread still finds in its queue, and a
  message that does not fit its buffer.
\<close>

fun ended :: "main_point \<Rightarrow> bool" where
  "ended (Exited n) \<longleftrightarrow> True"
| "ended (Crashed f) \<longleftrightarrow> True"
| "ended _ \<longleftrightarrow> False"

definition io_fault :: "'n codec \<Rightarrow> ('g, 'n, 'ep) UdpTunnel \<Rightarrow> fault \<Rightarrow> bool" where
  "io_fault C t f \<longleftrightarrow> (\<exists>ep d now. on_datagram C ep d now t = Inl f) \<or> (\<exists>mt n msg to now. forward C mt n msg to now t = Inl f)"

inductive others_step ::
    "'n codec \<Rightarrow> (int \<Rightarrow> rat) \<Rightarrow> ('g, 'n, 'ip, 'sid) Process \<Rightarrow> ('g, 'n, 'ip, 'sid) Process \<Rightarrow> bool" for C bpm where
  others_task: "io_task C Q Q' \<Longrightarrow> \<not> ended (point Q) \<Longrightarrow> others_step C bpm Q Q'"
| others:
    "program_step C bpm (program Q) P' \<Longrightarrow> prefix (posted (program Q)) (posted P') \<Longrightarrow>
     phase (app P') = phase (app (program Q)) \<Longrightarrow>
     point Q = Sleeping \<longrightarrow> linkExtender P' = linkExtender (program Q) \<Longrightarrow> \<not> ended (point Q) \<Longrightarrow>
     others_step C bpm Q (Q\<lparr>program := P'\<rparr>)"
| others_fault: "app_step e (app (program Q)) = Some (Inl f) \<Longrightarrow> \<not> ended (point Q) \<Longrightarrow> others_step C bpm Q (Q\<lparr>point := Crashed f\<rparr>)"
| others_late_task:
    "point Q = Freed \<Longrightarrow> posted (program Q) \<noteq> [] \<Longrightarrow> others_step C bpm Q (Q\<lparr>point := Crashed UseAfterFree\<rparr>)"
| others_overrun:
    "mTunnel (controller (program Q)) = Some (UdpBackend t) \<Longrightarrow> io_fault C t f \<Longrightarrow> \<not> ended (point Q) \<Longrightarrow>
     others_step C bpm Q (Q\<lparr>point := Crashed f\<rparr>)"

definition process_step ::
    "'n codec \<Rightarrow> (int \<Rightarrow> rat) \<Rightarrow> ('g, 'n, 'ip, 'sid) Process \<Rightarrow> ('g, 'n, 'ip, 'sid) Process \<Rightarrow> bool" where
  "process_step C bpm Q Q' \<longleftrightarrow> main_step C Q Q' \<or> others_step C bpm Q Q'"

text \<open>With nobody in between, the three pieces are the destructor of the controller.\<close>

lemma pieces_are_destructor:
  assumes "point Q = Destroying" "phase (app (program Q)) = Draining" "posted (program Q) = []"
    and "Controller_destroy C (controller (program Q)) m = Inr (c', m', acts)"
  obtains Q1 Q2 Q3 Q4 where "main_step C Q Q1" "io_task C Q1 Q2" "main_step C Q2 Q3" "main_step C Q3 Q4"
    "controller (program Q4) = c'" "farewell Q4 = acts" "phase (app (program Q4)) = Gone" "point Q4 = Sleeping"
proof -
  obtain c1 m1 acts1 where 1: "tunnel_stop_listening C (controller (program Q)) m = Inr (c1, m1, acts1)"
    using assms(4) by (auto simp: Controller_destroy_def split: sum.splits)
  obtain c2 acts2 where 2: "disable_discovery c1 = (c2, acts2)" by force
  obtain c3 m3 where 3: "tunnel_reset c2 m1 = (c3, m3)" by force
  have res: "c' = c3" "acts = acts1 @ acts2 @ [StopIo]" using assms(4) 1 2 3 by (auto simp: Controller_destroy_def)
  let ?Q1 = "Q\<lparr>point := Waiting, program := (program Q)\<lparr>linkExtender := \<lparr>mController = c1\<rparr>\<rparr>,
      disabling := Some (length (posted (program Q))), farewell := acts1\<rparr>"
  let ?Q2 = "?Q1\<lparr>program := (program ?Q1)\<lparr>linkExtender := \<lparr>mController = c2\<rparr>\<rparr>, disabling := None, farewell := acts1 @ acts2\<rparr>"
  let ?Q3 = "?Q2\<lparr>point := Freed, program := (program ?Q2)\<lparr>app := (app (program Q))\<lparr>phase := Gone\<rparr>, linkExtender := \<lparr>mController = c3\<rparr>\<rparr>\<rparr>"
  have "main_step C Q ?Q1" by (rule main_stops_tunnel [OF assms(1) 1])
  moreover have "io_task C ?Q1 ?Q2" using io_disables [of ?Q1 c2 acts2 C] assms(3) 2 by simp
  moreover have "main_step C ?Q2 ?Q3" using main_resets_tunnel [of ?Q2 "(app (program Q))\<lparr>phase := Gone\<rparr>" m1 c3 m3 C] assms(2) 3 by simp
  moreover have "main_step C ?Q3 (?Q3\<lparr>point := Sleeping, farewell := farewell ?Q3 @ [StopIo]\<rparr>)" by (rule main_joins_io) simp
  ultimately show thesis by (rule that) (simp_all add: res)
qed

subsection \<open>What the other threads leave alone\<close>

definition udp_program :: "('g, 'n, 'ip, 'sid) Program \<Rightarrow> bool" where
  "udp_program P \<longleftrightarrow> (\<exists>t. mTunnel (controller P) = Some (UdpBackend t) \<and> udp_ok t)"

definition no_tunnel :: "('g, 'n, 'ip, 'sid) Program \<Rightarrow> bool" where
  "no_tunnel P \<longleftrightarrow> mTunnel (controller P) = None"

lemma app_step_console: "app_step e a = Some (Inr a') \<Longrightarrow> console a = ConsoleDone \<Longrightarrow> console a' = ConsoleDone"
  by (erule app_step_elim) auto

lemma app_run_console: "app_run es a = Some a' \<Longrightarrow> console a = ConsoleDone \<Longrightarrow> console a' = ConsoleDone"
proof (induction es arbitrary: a)
  case (Cons e es)
  then obtain a1 where "app_step e a = Some (Inr a1)" "app_run es a1 = Some a'"
    by (auto split: option.splits sum.splits)
  with Cons app_step_console show ?case by blast
qed simp

lemma counters_tunnel:
  "localPeersChanged v c = (c', acts) \<Longrightarrow> mTunnel c' = mTunnel c"
  "remotePeersChanged v c = (c', acts) \<Longrightarrow> mTunnel c' = mTunnel c"
  "SessionTimelineCallback up sid tempo c = (c', acts) \<Longrightarrow> mTunnel c' = mTunnel c"
  by (auto simp: localPeersChanged_def remotePeersChanged_def SessionPeerCounter_def SessionTimelineCallback_def
      split: if_splits)

lemma program_step_keeps:
  assumes "program_step C bpm P P'"
  shows "(\<not> running P \<longrightarrow> \<not> running P') \<and> (udp_program P \<longrightarrow> udp_program P') \<and> (no_tunnel P \<longrightarrow> no_tunnel P')"
  using assms
proof (induction rule: program_step.induct)
  case (program_installs P)
  then show ?case
    by (auto simp: running_def udp_program_def no_tunnel_def LinkExtender_setUnknownPeerCallback_def Controller_setUnknownPeerCallback_def
        setUnknownPeerCallback_ok)
next
  case (program_io P t e acts t' a')
  then show ?case using app_run_console by (auto simp: running_def udp_program_def no_tunnel_def with_tunnel_def udp_step_ok)
next
  case (program_app e P a')
  then show ?case using app_step_console by (auto simp: running_def udp_program_def no_tunnel_def)
qed (auto simp: running_def udp_program_def no_tunnel_def with_tunnel_def counters_tunnel acceptPeer_ok rejectPeer_ok)

lemma decision_is_program_step: "decision_task C P P' \<Longrightarrow> program_step C bpm P P'"
proof -
  assume "decision_task C P P'"
  then obtain t ep accept rest where d: "mTunnel (controller P) = Some (UdpBackend t)" "posted P = (ep, accept) # rest"
    "P' = (with_tunnel (if accept then fst (acceptPeer C ep t) else rejectPeer ep t) P)\<lparr>posted := rest\<rparr>"
    by (auto simp: decision_task_def)
  then show "program_step C bpm P P'" by (cases accept) (simp_all add: program_accepts program_rejects)
qed

lemma decision_keeps:
  assumes "decision_task C P P'"
  shows "app P' = app P" "length (posted P) = Suc (length (posted P'))" "udp_program P \<Longrightarrow> udp_program P'"
    "no_tunnel P \<Longrightarrow> no_tunnel P'"
  using assms program_step_keeps [OF decision_is_program_step [OF assms]] by (auto simp: decision_task_def with_tunnel_def)

text \<open>A step of the program takes a decision from the queue, or leaves the queue as it is but for what it adds.\<close>

lemma program_step_queue: "program_step C bpm P P' \<Longrightarrow> decision_task C P P' \<or> prefix (posted P) (posted P')"
proof (induction rule: program_step.induct)
  case (program_accepts P t ep rest)
  then have "decision_task C P ((with_tunnel (fst (acceptPeer C ep t)) P)\<lparr>posted := rest\<rparr>)"
    unfolding decision_task_def by fastforce
  then show ?case ..
next
  case (program_rejects P t ep rest)
  then have "decision_task C P ((with_tunnel (rejectPeer ep t) P)\<lparr>posted := rest\<rparr>)"
    unfolding decision_task_def by fastforce
  then show ?case ..
qed (simp_all add: with_tunnel_def)

text \<open>The only fault of the IO thread inside the tunnel is a message too long for its buffer.\<close>

lemma io_fault_overrun:
  assumes "wire_codec C" "udp_ok t" "io_fault C t f"
  shows "f = BufferOverrun"
  using assms(3) unfolding io_fault_def
proof (elim disjE exE)
  fix ep d now assume f: "on_datagram C ep d now t = Inl f"
  obtain ctx payload where d: "decapsulate C (receive_buffer C d) = Inr (Some (ctx, payload))"
    using wire_codec.decapsulate_total [OF assms(1) wire_codec.length_receive_buffer [OF assms(1), of d]] by metis
  show ?thesis
  proof (cases "length payload < msg_size ctx")
    case True
    with d f show ?thesis by (simp add: on_datagram_def handleReceive_def)
  next
    case False
    then obtain t' acts where "handleReceive C ep (receive_buffer C d) now t = Inr (t', acts)"
      using handleReceive_ok [OF assms(2) d, of ep now] by (auto simp: not_less)
    with f show ?thesis by (simp add: on_datagram_def)
  qed
next
  fix mt n msg to now assume f: "forward C mt n msg to now t = Inl f"
  obtain go c where "shouldForward mt n msg now t = Inr (go, t\<lparr>mDedupCache := c\<rparr>)"
    using shouldForward_ok [OF udp_okD(5) [OF assms(2)]] by metis
  with f show ?thesis
    by (auto simp: forward_def Let_def wire_codec.encapsulate_cases [OF assms(1)]
        split: bool.splits sum.splits option.splits if_splits)
qed

subsection \<open>The invariant of the process\<close>

definition process_ok :: "termios option \<Rightarrow> ('g, 'n, 'ip, 'sid) Process \<Rightarrow> bool" where
  "process_ok tio Q \<longleftrightarrow> (\<exists>f. point Q = Crashed f) \<or>
     terminal Q = (case point Q of Started \<Rightarrow> tio | Drawing \<Rightarrow> disableBufferedInput tio | _ \<Rightarrow> enableBufferedInput tio) \<and>
     phase (app (program Q)) =
       (case point Q of Destroying \<Rightarrow> Draining | Waiting \<Rightarrow> Draining | Freed \<Rightarrow> Gone | Sleeping \<Rightarrow> Gone | Exited n \<Rightarrow> Gone
        | _ \<Rightarrow> InUse) \<and>
     (case point Q of Started \<Rightarrow> True | Drawing \<Rightarrow> True | _ \<Rightarrow> \<not> running (program Q)) \<and>
     (case point Q of Freed \<Rightarrow> no_tunnel (program Q) | Sleeping \<Rightarrow> no_tunnel (program Q) | Exited n \<Rightarrow> n = 0
      | _ \<Rightarrow> udp_program (program Q)) \<and>
     (\<forall>k. disabling Q = Some k \<longrightarrow> point Q = Waiting \<and> k \<le> length (posted (program Q)))"

lemma destroy_State_cases:
  "destroy_State P = Some P' \<longleftrightarrow>
     console (app P) = ConsoleDone \<and> phase (app P) = InUse \<and>
     P' = P\<lparr>app := (app P)\<lparr>shared := (shared (app P))\<lparr>alive := False, approvals := []\<rparr>, phase := Draining,
              decisions := decisions (app P) @ map (\<lambda>ep. (ep, False)) (map request_ep (approvals (shared (app P))))\<rparr>,
            posted := posted P @ map (\<lambda>ep. (ep, False)) (map request_ep (approvals (shared (app P))))\<rparr>"
  by (auto simp: destroy_State_def State_drain_def)

lemma tunnel_stop_udp:
  "mTunnel c = Some (UdpBackend t) \<Longrightarrow>
   tunnel_stop_listening C c m =
     Inr (c\<lparr>mTunnel := Some (UdpBackend (fst (stop_listening C t)))\<rparr>, m, map UdpAction (snd (stop_listening C t)))"
  by (simp add: tunnel_stop_listening_def split_beta)

lemma main_step_ok: "main_step C Q Q' \<Longrightarrow> process_ok tio Q \<Longrightarrow> process_ok tio Q'"
proof (induction rule: main_step.induct)
  case (main_drains Q P')
  then show ?case by (auto simp: process_ok_def destroy_State_cases running_def udp_program_def)
next
  case (main_stops_tunnel Q m c' m' acts)
  then obtain t where "mTunnel (controller (program Q)) = Some (UdpBackend t)" "udp_ok t"
    by (auto simp: process_ok_def udp_program_def)
  with main_stops_tunnel show ?case
    by (auto simp: process_ok_def running_def udp_program_def tunnel_stop_udp stop_listening_ok)
next
  case (main_resets_tunnel Q a' m c' m')
  then show ?case by (auto simp: process_ok_def running_def no_tunnel_def tunnel_reset_def split: if_splits)
qed (auto simp: process_ok_def terminal_restored)

lemma io_task_keeps:
  "io_task C Q Q' \<Longrightarrow> point Q' = point Q \<and> terminal Q' = terminal Q \<and> app (program Q') = app (program Q) \<and>
     prefix (farewell Q) (farewell Q') \<and> (udp_program (program Q) \<longrightarrow> udp_program (program Q')) \<and>
     (no_tunnel (program Q) \<longrightarrow> no_tunnel (program Q'))"
proof (induction rule: io_task.induct)
  case (io_decides Q P')
  then show ?case by (simp add: decision_keeps)
qed (auto simp: disable_discovery_def udp_program_def no_tunnel_def)

lemma io_task_ok:
  assumes "io_task C Q Q'" "process_ok tio Q"
  shows "process_ok tio Q'"
proof -
  have "disabling Q' = Some k \<Longrightarrow> \<exists>j. disabling Q = Some j \<and> (j \<le> length (posted (program Q)) \<longrightarrow> k \<le> length (posted (program Q')))" for k
    using assms(1) by cases (auto simp: decision_keeps(2))
  moreover have "disabling Q = None \<Longrightarrow> disabling Q' = None" using assms(1) by cases simp_all
  ultimately show ?thesis
    using assms(2) io_task_keeps [OF assms(1)] unfolding process_ok_def running_def
    by (auto split: main_point.splits)
qed

lemma others_step_ok: "others_step C bpm Q Q' \<Longrightarrow> process_ok tio Q \<Longrightarrow> process_ok tio Q'"
proof (induction rule: others_step.induct)
  case (others_task Q Q')
  then show ?case by (blast intro: io_task_ok)
next
  case (others Q P')
  have "length (posted (program Q)) \<le> length (posted P')" using others.hyps(2) by (rule prefix_length_le)
  with others program_step_keeps [OF others.hyps(1)] show ?case
    by (auto simp: process_ok_def split: main_point.splits)
qed (simp_all add: process_ok_def)

interpretation process: invariant_system "\<lambda>Q. \<exists>P. Q = process_start P tio \<and> udp_program P \<and> phase (app P) = InUse"
    "process_step C bpm" "process_ok tio"
  by unfold_locales
    (auto simp: process_step_def process_start_def process_ok_def [of _ "\<lparr>program = _, point = _, terminal = _, screen = _, disabling = _, farewell = _\<rparr>"]
      intro: main_step_ok others_step_ok)

subsection \<open>The way out\<close>

text \<open>
  How many steps of the main thread and of the queue of the IO thread are left once \<open>q\<close> was pressed: nine points of
  the main thread, the discovery task, and one task for each decision that is posted or will be by \<open>~State\<close>.
\<close>

definition steps_left :: "('g, 'n, 'ip, 'sid) Process \<Rightarrow> nat" where
  "steps_left Q =
     (let queued = length (posted (program Q)); unanswered = length (approvals (shared (app (program Q)))) in
      case point Q of
        Started \<Rightarrow> queued + unanswered + 9
      | Drawing \<Rightarrow> queued + unanswered + 8
      | Joining \<Rightarrow> queued + unanswered + 7
      | Leaving \<Rightarrow> queued + unanswered + 6
      | Destroying \<Rightarrow> queued + 5
      | Waiting \<Rightarrow> (case disabling Q of Some k \<Rightarrow> k + 4 | None \<Rightarrow> 3)
      | Freed \<Rightarrow> 2
      | Sleeping \<Rightarrow> 1
      | Exited n \<Rightarrow> 0
      | Crashed f \<Rightarrow> 0)"

text \<open>What the destructor of the controller will have done, when nobody else touches the peers before it stops the tunnel.\<close>

definition parting :: "'n codec \<Rightarrow> ('g, 'n, 'ip, 'sid) Process \<Rightarrow> ('g, 'n, 'ip, app_callback) controller_action list" where
  "parting C Q =
     (case point Q of
        Waiting \<Rightarrow> farewell Q @ (if disabling Q = None then [] else [EnableDiscovery False]) @ [StopIo]
      | Freed \<Rightarrow> farewell Q @ [StopIo]
      | Sleeping \<Rightarrow> farewell Q
      | Exited n \<Rightarrow> farewell Q
      | Crashed f \<Rightarrow> farewell Q
      | _ \<Rightarrow> (case mTunnel (controller (program Q)) of
               Some (UdpBackend t) \<Rightarrow> map UdpAction (snd (stop_listening C t))
             | _ \<Rightarrow> []) @ [EnableDiscovery False, StopIo])"

definition exit_step :: "'n codec \<Rightarrow> ('g, 'n, 'ip, 'sid) Process \<Rightarrow> ('g, 'n, 'ip, 'sid) Process \<Rightarrow> bool" where
  "exit_step C Q Q' \<longleftrightarrow> main_step C Q Q' \<or> io_task C Q Q'"

lemma exit_step_ok: "exit_step C Q Q' \<Longrightarrow> process_ok tio Q \<Longrightarrow> process_ok tio Q'"
  by (auto simp: exit_step_def intro: main_step_ok io_task_ok)

lemma waiting_goes_on:
  assumes "process_ok tio Q" "\<not> running (program Q)" "point Q = Waiting"
  obtains Q' where "exit_step C Q Q'" "\<not> running (program Q')" "\<not> ended (point Q') \<or> (\<exists>n. point Q' = Exited n)"
    "Suc (steps_left Q') = steps_left Q" "parting C Q' = parting C Q"
proof (cases "disabling Q")
  case None
  have gone: "app_step DestroyMembers (app (program Q)) = Some (Inr ((app (program Q))\<lparr>phase := Gone\<rparr>))"
    using assms(1,3) by (simp add: process_ok_def)
  obtain c' m' where r: "tunnel_reset (controller (program Q)) undefined = (c', m')" by force
  show thesis
    using assms(2,3) None that [unfolded exit_step_def, OF disjI1, OF main_resets_tunnel [OF assms(3) None gone r]]
    by (simp add: running_def steps_left_def parting_def)
next
  case (Some k)
  show thesis
  proof (cases k)
    case 0
    with Some have now: "disabling Q = Some 0" by simp
    obtain c' acts where d: "disable_discovery (controller (program Q)) = (c', acts)" by force
    show thesis
      using assms(2,3) now d that [unfolded exit_step_def, OF disjI2, OF io_disables [OF now d]]
      by (simp add: running_def steps_left_def parting_def disable_discovery_def)
  next
    case (Suc j)
    from assms(1,3) obtain t where t: "mTunnel (controller (program Q)) = Some (UdpBackend t)" by (auto simp: process_ok_def udp_program_def)
    from assms(1,3) Some Suc have "posted (program Q) \<noteq> []" by (auto simp: process_ok_def)
    then obtain ep accept rest where "posted (program Q) = (ep, accept) # rest" by (metis neq_Nil_conv surj_pair)
    with t obtain P' where d: "decision_task C (program Q) P'" unfolding decision_task_def by blast
    have "disabling Q \<noteq> Some 0" using Some Suc by simp
    from that [unfolded exit_step_def, OF disjI2, OF io_decides [OF d this]] show thesis
      using assms(2,3) Some Suc decision_keeps [OF d] by (simp add: running_def steps_left_def parting_def)
  qed
qed

lemma process_goes_on:
  assumes "process_ok tio Q" "\<not> running (program Q)" "\<not> ended (point Q)"
  obtains Q' where "exit_step C Q Q'" "\<not> running (program Q')" "\<not> ended (point Q') \<or> (\<exists>n. point Q' = Exited n)"
    "Suc (steps_left Q') = steps_left Q" "parting C Q' = parting C Q"
proof (cases "point Q")
  case Started
  then show thesis
    using assms(2) that [unfolded exit_step_def, OF disjI1, OF main_prepares [OF Started]]
    by (simp add: steps_left_def parting_def)
next
  case Drawing
  then show thesis
    using assms(2) that [unfolded exit_step_def, OF disjI1, OF main_stops [OF Drawing assms(2)]]
    by (simp add: steps_left_def parting_def)
next
  case Joining
  then show thesis
    using assms(2) that [unfolded exit_step_def, OF disjI1, OF main_joins [OF Joining assms(2)]]
    by (simp add: steps_left_def parting_def)
next
  case Leaving
  with assms obtain P' where P': "destroy_State (program Q) = Some P'"
    by (simp add: process_ok_def running_def destroy_State_cases)
  with Leaving show thesis
    using assms(2) that [unfolded exit_step_def, OF disjI1, OF main_drains [OF Leaving P']]
    by (simp add: steps_left_def parting_def destroy_State_cases running_def)
next
  case Destroying
  with assms(1) obtain t where t: "mTunnel (controller (program Q)) = Some (UdpBackend t)"
    by (auto simp: process_ok_def udp_program_def)
  show thesis
    using assms(2) Destroying t
      that [unfolded exit_step_def, OF disjI1, OF main_stops_tunnel [OF Destroying tunnel_stop_udp [OF t, of C undefined]]]
    by (simp add: steps_left_def parting_def running_def)
next
  case Waiting
  from waiting_goes_on [OF assms(1,2) this] that show thesis by blast
next
  case Freed
  then show thesis
    using assms(2) that [unfolded exit_step_def, OF disjI1, OF main_joins_io [OF Freed]]
    by (simp add: steps_left_def parting_def)
next
  case Sleeping
  then show thesis
    using assms(2) that [unfolded exit_step_def, OF disjI1, OF main_exits [OF Sleeping]]
    by (simp add: steps_left_def parting_def)
qed (use assms(3) in simp_all)

lemma steps_left_0: "steps_left Q = 0 \<Longrightarrow> ended (point Q)"
  by (cases "point Q") (auto simp: steps_left_def Let_def split: option.splits)

lemma process_runs_out:
  "process_ok tio Q \<Longrightarrow> \<not> running (program Q) \<Longrightarrow> \<forall>f. point Q \<noteq> Crashed f \<Longrightarrow>
     \<exists>Q'. (exit_step C ^^ steps_left Q) Q Q' \<and> point Q' = Exited 0 \<and> terminal Q' = enableBufferedInput tio \<and>
       farewell Q' = parting C Q"
proof (induction "steps_left Q" arbitrary: Q)
  case 0
  then have "\<exists>n. point Q = Exited n" using steps_left_0 [of Q] by (cases "point Q") auto
  with 0 show ?case by (auto simp: process_ok_def parting_def intro!: exI [of _ Q])
next
  case (Suc k)
  then have "\<not> ended (point Q)" by (cases "point Q") (auto simp: steps_left_def)
  from process_goes_on [OF Suc.prems(1,2) this, where C = C] obtain Q1 where Q1: "exit_step C Q Q1" "\<not> running (program Q1)"
    "\<not> ended (point Q1) \<or> (\<exists>n. point Q1 = Exited n)" "Suc (steps_left Q1) = steps_left Q" "parting C Q1 = parting C Q" by blast
  then have k: "k = steps_left Q1" "\<forall>f. point Q1 \<noteq> Crashed f" using Suc.hyps(2) by auto
  from Suc.hyps(1) [OF k(1) exit_step_ok [OF Q1(1) Suc.prems(1)] Q1(2) k(2)] obtain Q' where
    Q': "(exit_step C ^^ k) Q1 Q'" "point Q' = Exited 0" "terminal Q' = enableBufferedInput tio" "farewell Q' = parting C Q1"
    using k(1) by auto
  have "(exit_step C ^^ steps_left Q) Q Q'"
    using relpowp_Suc_I2 [of "exit_step C", OF Q1(1) Q'(1)] Suc.hyps(2) by simp
  with Q' Q1(5) show ?case by auto
qed

text \<open>What the other threads can do about it.\<close>

definition stays_on_course :: "('g, 'n, 'ip, 'sid) Process \<Rightarrow> ('g, 'n, 'ip, 'sid) Process \<Rightarrow> bool" where
  "stays_on_course Q Q' \<longleftrightarrow>
     console (app (program Q')) = ConsoleDone \<and> point Q' = point Q \<and> terminal Q' = terminal Q \<and>
     prefix (farewell Q) (farewell Q') \<and> (point Q = Waiting \<longrightarrow> steps_left Q' \<le> steps_left Q)"

lemma io_task_steps:
  assumes "io_task C Q Q'" "point Q = Waiting"
  shows "steps_left Q' \<le> steps_left Q"
  using assms(1) by cases (use assms(2) in \<open>auto simp: steps_left_def split: option.splits\<close>)

lemma others_step_course:
  assumes "wire_codec C" "process_ok tio Q" "console (app (program Q)) = ConsoleDone" "others_step C bpm Q Q'"
  shows "stays_on_course Q Q' \<or>
    point Q' = Crashed UseAfterFree \<and> (point Q = Freed \<or> point Q = Sleeping) \<or>
    point Q' = Crashed BufferOverrun \<and> point Q \<noteq> Freed \<and> point Q \<noteq> Sleeping"
  using assms(4)
proof cases
  case others_task
  then show ?thesis
    using assms(3) io_task_keeps [OF others_task(1)] io_task_steps [OF others_task(1)] by (simp add: stays_on_course_def)
next
  case (others P')
  have "console (app P') = ConsoleDone"
    using program_step_keeps [OF others(2)] assms(3) by (simp add: running_def)
  moreover have "steps_left Q' \<le> steps_left Q" if w: "point Q = Waiting"
    unfolding others(1) steps_left_def using w by (simp add: Let_def)
  ultimately have "stays_on_course Q Q'" unfolding stays_on_course_def others(1) by simp
  then show ?thesis ..
next
  case (others_fault e f)
  with app_step_fault [OF others_fault(2)] assms(2) show ?thesis
    by (cases "point Q") (auto simp: process_ok_def)
next
  case others_late_task
  then show ?thesis by simp
next
  case (others_overrun t f)
  have inside: "point Q \<noteq> Freed \<and> point Q \<noteq> Sleeping"
    using assms(2) others_overrun(2,4) by (auto simp: process_ok_def no_tunnel_def)
  then have "udp_ok t"
    using assms(2) others_overrun(2,4) by (cases "point Q") (auto simp: process_ok_def udp_program_def)
  from io_fault_overrun [OF assms(1) this others_overrun(3)] inside others_overrun(1) show ?thesis by simp
qed

lemma process_start_ok:
  fixes P :: "('g, 'n, 'ip, 'sid) Program"
  assumes "main_start N (State_init C can_bind no_session m) argv = RunsWith config P" "\<not> use_shm config"
  shows "udp_program P" "phase (app P) = InUse"
proof -
  from assms(1) have "State_init C can_bind no_session m config = Inr P" by (simp add: main_start_runs)
  then obtain c :: "('g, 'n, 'ip, 'sid, app_callback) Controller" and acts where
    c: "snd (Controller_init C can_bind no_session config m) = Inr (c, acts)" "mTunnel (controller P) = mTunnel c" "app P = App_init"
    by (rule State_init_cases)
  show "udp_program P" using Controller_init_tunnel [OF c(1)] assms(2) c(2) by (simp add: udp_program_def udp_ok_UdpTunnel_init)
  show "phase (app P) = InUse" by (simp add: c(3) App_init_def)
qed

text \<open>A run of the program that ends with the \<open>State\<close> object in use is a run of the other threads.\<close>

lemma app_step_in_use: "app_step e a = Some (Inr a') \<Longrightarrow> phase a' = InUse \<Longrightarrow> phase a = InUse"
  by (erule app_step_elim) auto

lemma app_run_in_use: "app_run es a = Some a' \<Longrightarrow> phase a' = InUse \<Longrightarrow> phase a = InUse"
proof (induction es arbitrary: a)
  case (Cons e es)
  then obtain a1 where "app_step e a = Some (Inr a1)" "app_run es a1 = Some a'"
    by (auto split: option.splits sum.splits)
  with Cons app_step_in_use show ?case by blast
qed simp

lemma program_step_in_use: "program_step C bpm P P' \<Longrightarrow> phase (app P') = InUse \<Longrightarrow> phase (app P) = InUse"
  by (induction rule: program_step.induct) (auto simp: with_tunnel_def dest: app_run_in_use app_step_in_use)

lemma program_runs_in_process:
  assumes "(program_step C bpm)\<^sup>*\<^sup>* P P'" "phase (app P') = InUse"
  shows "(process_step C bpm)\<^sup>*\<^sup>* (process_start P tio) (process_start P' tio)"
  using assms
proof (induction rule: rtranclp_induct)
  case (step P' P'')
  note in_use = program_step_in_use [OF step.hyps(2) step.prems]
  have "others_step C bpm (process_start P' tio) (process_start P'' tio)"
    using program_step_queue [OF step.hyps(2)]
  proof
    assume "decision_task C P' P''"
    then have "io_task C (process_start P' tio) (process_start P'' tio)"
      using io_decides [of C "process_start P' tio" P''] by (simp add: process_start_def)
    then show ?thesis by (rule others_task) (simp add: process_start_def)
  next
    assume "prefix (posted P') (posted P'')"
    then show ?thesis
      using others [of C bpm "process_start P' tio" P''] step.hyps(2) step.prems in_use by (simp add: process_start_def)
  qed
  then have "process_step C bpm (process_start P' tio) (process_start P'' tio)" by (simp add: process_step_def)
  with step.IH [OF in_use] show ?case by simp
qed simp

subsection \<open>Properties\<close>

text \<open>
  C5: After \<open>q\<close> the process can always end well, and only two things can keep it from that. With the UDP tunnel,
  from every state in which the key was read and no thread has faulted: the steps left to the main thread and
  to the tasks already in the queue of the IO thread are counted, and there is a run of exactly that many after which
  the process has exited with code 0, the terminal is in the mode it was found in, with line input on, and the
  tunnel has been stopped, the discovery disabled and the IO thread ended in that order; where the tunnel still
  stands, every peer that is connected is then sent a BYE. Any step of another thread leaves the main thread where
  it is and the terminal alone, and does not lengthen the wait for the discovery task; or it is a fault, which is the
  call of a closure of the tunnel after the tunnel was destroyed, or before that a message longer than its buffer.
\<close>

theorem quit_ends_process:
  fixes P :: "('g, 'n, 'ip, 'sid) Program" and C :: "'n codec"
  assumes "wire_codec C" "main_start N (State_init C can_bind no_session m) argv = RunsWith config P" "\<not> use_shm config"
    and "(process_step C bpm)\<^sup>*\<^sup>* (process_start P tio) Q" "console (app (program Q)) = ConsoleDone" "\<forall>f. point Q \<noteq> Crashed f"
  shows "(\<exists>Q'. (exit_step C ^^ steps_left Q) Q Q' \<and> point Q' = Exited 0 \<and> terminal Q' = enableBufferedInput tio \<and>
      farewell Q' = parting C Q) \<and>
    (\<forall>t p. point Q \<in> {Started, Drawing, Joining, Leaving, Destroying} \<and> mTunnel (controller (program Q)) = Some (UdpBackend t) \<and>
       p \<in> set (mPeers t) \<and> state p = CONNECTED \<longrightarrow>
       UdpAction (SendTo (datagram_of C (control C TUNNEL_BYE) []) (endpoint p)) \<in> set (parting C Q)) \<and>
    (\<forall>Q'. others_step C bpm Q Q' \<longrightarrow>
       stays_on_course Q Q' \<or>
       point Q' = Crashed UseAfterFree \<and> (point Q = Freed \<or> point Q = Sleeping) \<or>
       point Q' = Crashed BufferOverrun \<and> point Q \<noteq> Freed \<and> point Q \<noteq> Sleeping)"
proof (intro conjI allI impI)
  have ok: "process_ok tio Q"
    by (rule process.inv_reachable [OF _ assms(4)]) (use process_start_ok [OF assms(2,3)] in blast)
  have "\<not> running (program Q)" using assms(5) by (simp add: running_def)
  from process_runs_out [OF ok this assms(6)]
  show "\<exists>Q'. (exit_step C ^^ steps_left Q) Q Q' \<and> point Q' = Exited 0 \<and> terminal Q' = enableBufferedInput tio \<and>
      farewell Q' = parting C Q" .
  show "stays_on_course Q Q' \<or> point Q' = Crashed UseAfterFree \<and> (point Q = Freed \<or> point Q = Sleeping) \<or>
      point Q' = Crashed BufferOverrun \<and> point Q \<noteq> Freed \<and> point Q \<noteq> Sleeping" if "others_step C bpm Q Q'" for Q'
    by (rule others_step_course [OF assms(1) ok assms(5) that])
next
  fix t p
  assume p: "point Q \<in> {Started, Drawing, Joining, Leaving, Destroying} \<and> mTunnel (controller (program Q)) = Some (UdpBackend t) \<and>
    p \<in> set (mPeers t) \<and> state p = CONNECTED"
  then have "UdpAction (SendTo (datagram_of C (control C TUNNEL_BYE) []) (endpoint p)) \<in> set (map UdpAction (snd (stop_listening C t)))"
    by (force simp: stop_listening_def wire_codec.sendBye_eq [OF assms(1)])
  with p show "UdpAction (SendTo (datagram_of C (control C TUNNEL_BYE) []) (endpoint p)) \<in> set (parting C Q)"
    by (auto simp: parting_def)
qed

text \<open>With one peer that has said HELLO, \<open>q\<close> is pressed before the terminal was even switched: nine steps.\<close>

theorem quit_ends_process_witness:
  "\<exists>Q Q' :: (nat, u64, nat, nat) Process. steps_left Q = 9 \<and> (exit_step network_codec ^^ 9) Q Q' \<and>
     point Q' = Exited 0 \<and> terminal Q' = Some 10 \<and>
     UdpAction (SendTo (datagram_of network_codec (control network_codec TUNNEL_BYE) []) example_peer) \<in> set (farewell Q')"
proof -
  let ?P = "example_program (example_peer_tunnel [3] CONNECTED)"
  let ?a = "(App_init :: nat UdpEndpoint App)\<lparr>console := ConsoleDone\<rparr>"
  let ?P' = "?P\<lparr>app := ?a\<rparr>"
  let ?Q = "process_start ?P' (Some 10)"
  have P: "app ?P = App_init" "posted ?P = []" by (simp_all add: example_program_def)
  have key: "app_step (Key (CHR ''q'')) (App_init :: nat UdpEndpoint App) = Some (Inr ?a)" by (simp add: App_init_def input_key_def)
  have same: "?P\<lparr>app := ?a, posted := []\<rparr> = ?P'" by (simp add: example_program_def)
  have "decisions ?a = []" by (simp add: App_init_def)
  then have "program_step network_codec (\<lambda>_. 120) ?P (?P\<lparr>app := ?a, posted := []\<rparr>)"
    using program_app [of "Key (CHR ''q'')" ?P ?a network_codec "\<lambda>_. 120"] key P by simp
  then have "program_step network_codec (\<lambda>_. 120) ?P ?P'" by (simp only: same)
  with example_program_running have "(program_step network_codec (\<lambda>_. 120))\<^sup>*\<^sup>* (example_program (example_peer_tunnel [] DISCONNECTED)) ?P'"
    by (rule rtranclp.rtrancl_into_rtrancl)
  from program_runs_in_process [OF this, of "Some 10"]
  have run: "(process_step network_codec (\<lambda>_. 120))\<^sup>*\<^sup>* (process_start (example_program (example_peer_tunnel [] DISCONNECTED)) (Some 10)) ?Q"
    by (simp add: App_init_def)
  have at: "console (app (program ?Q)) = ConsoleDone" "point ?Q = Started"
    "mTunnel (controller (program ?Q)) = Some (UdpBackend (example_peer_tunnel [3] CONNECTED))"
    "\<forall>f. point ?Q \<noteq> Crashed f" "steps_left ?Q = 9"
    by (simp_all add: process_start_def example_program_def steps_left_def App_init_def SharedPending_init_def)
  have "\<not> use_shm example_config" by (simp add: example_config_def default_config_def)
  note ends = quit_ends_process [OF net.wire_codec_axioms example_started this run at(1,4)]
  from ends [THEN conjunct1] obtain Q' :: "(nat, u64, nat, nat) Process" where
    Q': "(exit_step network_codec ^^ steps_left ?Q) ?Q Q'" "point Q' = Exited 0" "terminal Q' = enableBufferedInput (Some 10)"
    "farewell Q' = parting network_codec ?Q" by blast
  have "\<lparr>endpoint = example_peer, state = CONNECTED, last_seen = 0\<rparr> \<in> set (mPeers (example_peer_tunnel [3] CONNECTED))"
    by (simp add: example_peer_tunnel_def)
  with ends [THEN conjunct2, THEN conjunct1] at(2,3)
  have "UdpAction (SendTo (datagram_of network_codec (control network_codec TUNNEL_BYE) []) example_peer) \<in> set (farewell Q')"
    unfolding Q'(4) by (metis PeerEntry.select_convs(1,2) insertI1)
  then show ?thesis using Q'(1-3) at(5) by (intro exI [of _ ?Q] exI [of _ Q']) (simp add: enableBufferedInput_def ICANON_def)
qed

text \<open>
  A decision that a timer posts behind the discovery task is still in the queue when the main thread has reset the
  tunnel and has not yet stopped the IO thread: the IO thread then runs a closure on the freed tunnel.
\<close>

lemma decision_behind_discovery_task:
  assumes "point Q = Waiting" "disabling Q = None" "posted (program Q) \<noteq> []" "phase (app (program Q)) = Draining"
  shows "\<exists>Q1. main_step C Q Q1 \<and> others_step C bpm Q1 (Q1\<lparr>point := Crashed UseAfterFree\<rparr>)"
proof -
  obtain c' m' where r: "tunnel_reset (controller (program Q)) undefined = (c', m')" by force
  have "app_step DestroyMembers (app (program Q)) = Some (Inr ((app (program Q))\<lparr>phase := Gone\<rparr>))" using assms(4) by simp
  note reset = main_resets_tunnel [OF assms(1,2) this r, of C]
  show ?thesis by (intro exI conjI, rule reset, rule others_late_task) (use assms(3) in simp_all)
qed

end
