(* ===== verification/Spec2Isabelle.thy ===== *)
theory Spec2Isabelle
  imports UdpTunnel_Properties Sessions ShmTunnel_Properties TunnelGateway_Properties Controller_Properties
    End_To_End Platform_Context Process
begin

text \<open>
  A verification development of the Ableton Link extender: a program that joins the Link
  sessions of several local networks by carrying the messages of Link through a tunnel.

  THE PROGRAM. A \<open>Controller\<close> (\<open>include/ableton/extender/Controller.hpp\<close>, behind the facade
  \<open>include/LinkExtender.hpp\<close>) owns one tunnel and, for every network interface, one
  \<open>TunnelGateway\<close>. A gateway hears the messages of local nodes and calls \<open>forward\<close> on the
  tunnel; the tunnel calls \<open>forwardMessageLocally\<close> on its gateways with what it receives,
  and the gateway plays it into the network from sockets that stand for the remote node (its
  surrogate). There are two tunnels: \<open>UdpTunnel\<close> over the internet and \<open>ShmTunnel\<close> over shared
  memory. Both drop repetitions with a \<open>DedupCache\<close> and frame messages as \<open>Tunnel\<close> says. The
  application (\<open>source/main.cpp\<close>) reads the command line, and lets a user decide about
  peers the UDP tunnel does not know.

  THE THEORIES, in the order of the layers; each operation has the name of the function it models,
  prefixed by its class where two classes share it.

    Extender_Prelude     integers at their width, time, faults, lists and maps, \<open>invariant_system\<close>
    Wire                 the byte streams of Link (a submodule) as a parameter \<open>codec\<close> with laws
                         \<open>wire_codec\<close>, and the network encoding as an instance
    Decimal              \<open>std::to_string\<close> and \<open>std::stoul\<close>
    DedupCache           \<open>DedupCache.hpp\<close>: the list with its index; it refines an LRU filter
    Tunnel               \<open>Tunnel.hpp\<close>: gateways, duplicate filter, \<open>encapsulate\<close> and \<open>decapsulate\<close>;
                         the locale \<open>deduplicating_backend\<close> is what both tunnels promise
    UdpTunnel            \<open>UdpTunnel.hpp\<close>: the operations
    UdpTunnel_Invariants its step relation \<open>udp_step\<close> and the invariant of its tables
    UdpTunnel_Routing    what is on the wire, who gets it, which routes are valid
    UdpTunnel_Properties the properties of one UDP tunnel
    Two_Sites            two UDP tunnels and the network between them
    Sessions             how long a connection lasts and how it is made again
    SharedMessages       \<open>ShmTunnel.hpp\<close>: the ring of a client as a bounded queue (\<open>bounded_queue\<close>)
    ShmTunnel            \<open>ShmTunnel.hpp\<close>: the operations; \<open>_Invariants\<close> and \<open>_Properties\<close> have the
                         system of clients \<open>shm_step\<close>, and \<open>listen\<close> among the pushes of other processes
    PeerTracker          \<open>TunnelGateway.hpp\<close>: the timeout table (\<open>timeout_table\<close>), with the
                         binary searches of the standard library
    TunnelGateway        \<open>TunnelGateway.hpp\<close>: the gateway; \<open>_Properties\<close> has its step relation
    End_To_End           gateway, tunnel, tunnel and gateway: a node of one site appears at the other
    Controller           \<open>Controller.hpp\<close>; \<open>_Properties\<close> has the counters of peers
    Link_Extender        \<open>LinkExtender.hpp\<close>: the facade
    Platform_Context     \<open>platforms/asio/Context.hpp\<close>: sockets and the IO thread
    Command_Line         \<open>main.cpp\<close>: \<open>parseEndpoint\<close>, \<open>parseArgs\<close>, the start of \<open>main\<close>; \<open>_Properties\<close> has
                         the grammar of the options
    Approvals            \<open>main.cpp\<close>: the queue of unknown peers and the threads that share it
    Console              \<open>main.cpp\<close>: the state line, the texts, the mode of the terminal and the loop over the keys;
                         \<open>_Properties\<close> has the row of the terminal and when the loop returns
    Application          \<open>main.cpp\<close>: the \<open>State\<close> object with its threads, the controller and the UDP tunnel
    Process              \<open>main.cpp\<close>: the main thread beside them, to the exit code, point by point through
                         \<open>~State\<close> and \<open>~Controller\<close>, with the queue of the IO thread and the faults

  HOW CODE IS MODELLED. A class is a record of its data members and each member function is a function
  to the new state and the list of actions it takes, in order (datagrams sent, calls of other
  objects, timers armed, tasks posted to the IO thread). Handlers run one at a time: under the
  mutex of the class or on the one IO thread. Where threads share state, each section under the mutex
  is a step and the threads are explicit (\<open>Approvals\<close>, and the processes of \<open>ShmTunnel\<close>). A
  \<open>std::map\<close> is a partial map, a vector a list, \<open>std::list\<close> with stable iterators a list of numbered
  nodes. Undefined behaviour and exceptions that leave a function are values of \<open>fault\<close>. Times,
  random identifiers and the outcome of system calls are arguments.

  LOOPS AND BOUNDS. The loop of \<open>ShmTunnel::listen\<close> is a partial function, and it is proved to return in
  every reachable state whatever finitely many messages other processes push meanwhile; so is the loop over the keys, which returns exactly when \<open>q\<close> is among them; the
  binary searches and the parser of options terminate by a measure. No definition uses fuel. The way out of the
  process is counted (\<open>steps_left\<close>): nine points of the main thread, the discovery task, and the decisions queued before it.

  WHAT IS SHOWN. For every component a well-formedness invariant of all reachable states; the
  functional behaviour of the operations, their errors included; refinement of an abstract
  specification for the cache, the ring and the timeout table; round trips for the framing and the
  parsers; and for the composition: only approved peers are heard (\<open>only_approved_peers_heard\<close>), the
  handshake completes (\<open>handshake_completes\<close>), its connection lasts (\<open>connection_lasts\<close>) and is made again
  when it was lost (\<open>pass_reconnects\<close>); a node of one local network appears in the other
  (\<open>node_appears_at_other_site\<close>), is answered from there (\<open>answer_reaches_node\<close>) and can be measured
  (\<open>measurement_round_trip\<close>); and the process can always end when it is told to, unless a thread faults first in
  one of two ways (\<open>quit_ends_process\<close>). Some theorems state defects: \<open>half_open_persists\<close>, \<open>removePeer_misroutes\<close>, \<open>byebye_leaves_surrogate\<close>,
  \<open>shm_client_numbers_collide\<close>, \<open>shm_byebye_reaches_no_gateway\<close>, \<open>pair_reported_twice\<close>, \<open>key_accepts_unshown_peer\<close>,
  \<open>timer_outlives_tunnel\<close>, \<open>decision_behind_discovery_task\<close> and others.

  NOT MODELLED. The Link library and asio (the submodules), which are the parameters \<open>codec\<close>, \<open>link_api\<close>,
  \<open>platform_api\<close>, \<open>resolver\<close> and \<open>bpm\<close>; log messages; the Windows branches of the console; the operating
  system objects behind the shared memory; \<open>ExtenderConfig.hpp\<close>, one alias of a type. Data races between
  threads that do not share a mutex are outside the model: \<open>setUnknownPeerCallback\<close> and \<open>stop_listening\<close>
  are steps of the tunnel like any other. A handler of the IO thread that is running when \<open>~Controller\<close> resets the
  tunnel is outside it too; the step relation of the shared-memory system has \<open>listen\<close> alone, the interleaved one is
  \<open>ShmTunnel_listen_among\<close>.
\<close>

end
